(* ===== verification/Go_Float.thy ===== *)
theory Go_Float
  imports Complex_Main Prelude
begin

text \<open>
  Go's \<open>float64\<close>: IEEE 754 binary64 with round-to-nearest-even, as an executable
  datatype over exact rationals, and the parts of \<open>math\<close> and of the numeric
  conversions the source uses. Every arithmetic operation computes the exact rational result
  and rounds it once (\<open>fl\<close>), as the hardware does; the conversion \<open>int64(f)\<close>
  of a value out of range is the one of the amd64 target (the minimal integer).
  The second half proves the error bounds the component proofs rest on.
\<close>

section \<open>Rounding a rational to binary64\<close>

definition pow2 :: "int \<Rightarrow> rat" where
  "pow2 e = 2 powi e"

function bit_len :: "int \<Rightarrow> int" where
  "bit_len n = (if n \<le> 0 then 0 else 1 + bit_len (n div 2))"
  by pat_completeness auto
termination
  by (relation "measure nat") auto

declare bit_len.simps [simp del]

text \<open>Round to the nearest integer, ties to even.\<close>

definition round_even :: "rat \<Rightarrow> int" where
  "round_even q =
     (let n = \<lfloor>q\<rfloor>; d = q - of_int n
      in if d < 1 / 2 then n else if 1 / 2 < d then n + 1
         else if even n then n else n + 1)"

text \<open>The exponent of the unit in the last place of the binary64 numbers around \<open>q\<close>.\<close>

definition ulp_exp :: "rat \<Rightarrow> int" where
  "ulp_exp q =
     (let (n, d) = quotient_of q;
          e = bit_len \<bar>n\<bar> - bit_len d - 53;
          k = (if pow2 53 \<le> \<bar>q\<bar> / pow2 e then e + 1 else e)
      in max k (- 1074))"

definition round64 :: "rat \<Rightarrow> rat" where
  "round64 q = (let u = pow2 (ulp_exp q) in of_int (round_even (q / u)) * u)"

section \<open>The type and its operations\<close>

text \<open>\<open>Fin q\<close> with \<open>q = 0\<close> is the positive zero.\<close>

datatype f64 = NaN | Inf bool | NegZero | Fin rat

definition f_val :: "f64 \<Rightarrow> rat" where
  "f_val x = (case x of Fin q \<Rightarrow> q | _ \<Rightarrow> 0)"

definition f_neg :: "f64 \<Rightarrow> bool" where
  "f_neg x = (case x of NaN \<Rightarrow> False | Inf s \<Rightarrow> s | NegZero \<Rightarrow> True | Fin q \<Rightarrow> q < 0)"

definition is_fin :: "f64 \<Rightarrow> bool" where
  "is_fin x = (case x of NegZero \<Rightarrow> True | Fin q \<Rightarrow> True | _ \<Rightarrow> False)"

text \<open>Round an exact result; \<open>s\<close> is the sign a zero result takes.\<close>

definition fl :: "bool \<Rightarrow> rat \<Rightarrow> f64" where
  "fl s q =
     (let r = round64 q
      in if r = 0 then (if s then NegZero else Fin 0)
         else if pow2 1024 \<le> \<bar>r\<bar> then Inf (r < 0) else Fin r)"

text \<open>A decimal literal of the source, or a decimal number of a JSON text.\<close>

definition lit :: "rat \<Rightarrow> f64" where
  "lit q = fl False q"

definition f_uminus :: "f64 \<Rightarrow> f64" where
  "f_uminus x = (case x of NaN \<Rightarrow> NaN | Inf s \<Rightarrow> Inf (\<not> s) | NegZero \<Rightarrow> Fin 0
     | Fin q \<Rightarrow> if q = 0 then NegZero else Fin (- q))"

fun f_add :: "f64 \<Rightarrow> f64 \<Rightarrow> f64" where
  "f_add NaN y = NaN"
| "f_add x NaN = NaN"
| "f_add (Inf s) (Inf t) = (if s = t then Inf s else NaN)"
| "f_add (Inf s) y = Inf s"
| "f_add x (Inf t) = Inf t"
| "f_add NegZero NegZero = NegZero"
| "f_add x y = fl False (f_val x + f_val y)"

definition f_mul :: "f64 \<Rightarrow> f64 \<Rightarrow> f64" where
  "f_mul x y =
     (let s = (f_neg x \<noteq> f_neg y)
      in if x = NaN \<or> y = NaN then NaN
         else if \<not> is_fin x \<or> \<not> is_fin y
           then (if (is_fin x \<and> f_val x = 0) \<or> (is_fin y \<and> f_val y = 0) then NaN else Inf s)
         else fl s (f_val x * f_val y))"

definition f_div :: "f64 \<Rightarrow> f64 \<Rightarrow> f64" where
  "f_div x y =
     (let s = (f_neg x \<noteq> f_neg y)
      in if x = NaN \<or> y = NaN then NaN
         else if \<not> is_fin x then (if is_fin y then Inf s else NaN)
         else if \<not> is_fin y then (if s then NegZero else Fin 0)
         else if f_val y = 0 then (if f_val x = 0 then NaN else Inf s)
         else fl s (f_val x / f_val y))"

text \<open>Go's \<open><\<close> and \<open><=\<close>: false when an operand is NaN; the two zeros are equal.\<close>

fun f_less :: "f64 \<Rightarrow> f64 \<Rightarrow> bool" where
  "f_less NaN y = False"
| "f_less x NaN = False"
| "f_less (Inf s) (Inf t) = (s \<and> \<not> t)"
| "f_less (Inf s) y = s"
| "f_less x (Inf t) = (\<not> t)"
| "f_less x y = (f_val x < f_val y)"

fun f_le :: "f64 \<Rightarrow> f64 \<Rightarrow> bool" where
  "f_le NaN y = False"
| "f_le x NaN = False"
| "f_le (Inf s) (Inf t) = (s \<or> \<not> t)"
| "f_le (Inf s) y = s"
| "f_le x (Inf t) = (\<not> t)"
| "f_le x y = (f_val x \<le> f_val y)"

instantiation f64 :: "{plus, minus, uminus, times, inverse, zero, one, ord}"
begin
definition plus_f64 :: "f64 \<Rightarrow> f64 \<Rightarrow> f64" where "plus_f64 = f_add"
definition uminus_f64 :: "f64 \<Rightarrow> f64" where "uminus_f64 = f_uminus"
definition minus_f64 :: "f64 \<Rightarrow> f64 \<Rightarrow> f64" where "minus_f64 x y = f_add x (f_uminus y)"
definition times_f64 :: "f64 \<Rightarrow> f64 \<Rightarrow> f64" where "times_f64 = f_mul"
definition divide_f64 :: "f64 \<Rightarrow> f64 \<Rightarrow> f64" where "divide_f64 = f_div"
definition inverse_f64 :: "f64 \<Rightarrow> f64" where "inverse_f64 = f_div (Fin 1)"
definition zero_f64 :: "f64" where "zero_f64 = Fin 0"
definition one_f64 :: "f64" where "one_f64 = Fin 1"
definition less_f64 :: "f64 \<Rightarrow> f64 \<Rightarrow> bool" where "less_f64 = f_less"
definition less_eq_f64 :: "f64 \<Rightarrow> f64 \<Rightarrow> bool" where "less_eq_f64 = f_le"
instance ..
end

lemmas f64_ops = plus_f64_def minus_f64_def uminus_f64_def times_f64_def divide_f64_def inverse_f64_def
  zero_f64_def one_f64_def less_f64_def less_eq_f64_def

text \<open>\<open>math.Abs\<close>, \<open>math.IsNaN\<close>, \<open>math.IsInf(f, 0)\<close> and \<open>math.Round\<close> (half away from zero).\<close>

definition f_abs :: "f64 \<Rightarrow> f64" where
  "f_abs x = (case x of NaN \<Rightarrow> NaN | Inf s \<Rightarrow> Inf False | NegZero \<Rightarrow> Fin 0 | Fin q \<Rightarrow> Fin \<bar>q\<bar>)"

definition is_nan :: "f64 \<Rightarrow> bool" where
  "is_nan x \<longleftrightarrow> x = NaN"

definition is_inf :: "f64 \<Rightarrow> bool" where
  "is_inf x \<longleftrightarrow> x = Inf True \<or> x = Inf False"

definition round_away :: "rat \<Rightarrow> int" where
  "round_away q = (if q < 0 then - \<lfloor>1 / 2 - q\<rfloor> else \<lfloor>q + 1 / 2\<rfloor>)"

definition f_round :: "f64 \<Rightarrow> f64" where
  "f_round x = (case x of Fin q \<Rightarrow>
       (if round_away q = 0 then (if q < 0 then NegZero else Fin 0) else Fin (of_int (round_away q)))
     | _ \<Rightarrow> x)"

text \<open>\<open>float64(n)\<close> of an integer and \<open>int64(f)\<close>, \<open>int(f)\<close> of a float (truncation).\<close>

definition f_of_int :: "int \<Rightarrow> f64" where
  "f_of_int n = fl False (of_int n)"

definition trunc_rat :: "rat \<Rightarrow> int" where
  "trunc_rat q = (if q < 0 then - \<lfloor>- q\<rfloor> else \<lfloor>q\<rfloor>)"

definition i64_of_f :: "f64 \<Rightarrow> int" where
  "i64_of_f x = (case x of
       NegZero \<Rightarrow> 0
     | Fin q \<Rightarrow> (if in64 (trunc_rat q) then trunc_rat q else - (2 ^ 63))
     | _ \<Rightarrow> - (2 ^ 63))"

section \<open>Error bounds\<close>

lemma pow2_pos [simp]: "0 < pow2 e"
  by (simp add: pow2_def)

lemma pow2_nz [simp]: "pow2 e \<noteq> 0"
  by (simp add: pow2_def)

lemma pow2_add: "pow2 (a + b) = pow2 a * pow2 b"
  by (simp add: pow2_def power_int_add)

lemma pow2_mono: "a \<le> b \<Longrightarrow> pow2 a \<le> pow2 b"
  by (simp add: pow2_def power_int_increasing)

lemma pow2_strict_mono: "a < b \<Longrightarrow> pow2 a < pow2 b"
  by (simp add: pow2_def power_int_strict_increasing)

lemma pow2_less_iff [simp]: "pow2 a < pow2 b \<longleftrightarrow> a < b"
  by (metis linorder_not_less pow2_mono pow2_strict_mono)

lemma pow2_nat: "0 \<le> e \<Longrightarrow> pow2 e = 2 ^ nat e"
  by (simp add: pow2_def power_int_def)

lemma bit_len_bounds:
  "0 < n \<Longrightarrow> 1 \<le> bit_len n \<and> pow2 (bit_len n - 1) \<le> of_int n \<and> of_int n < pow2 (bit_len n)"
proof (induction n rule: bit_len.induct)
  case (1 n)
  then have eq: "bit_len n = 1 + bit_len (n div 2)"
    by (subst bit_len.simps) simp
  show ?case
  proof (cases "n = 1")
    case True
    have "bit_len 0 = 0" by (subst bit_len.simps) simp
    with True eq show ?thesis by (simp add: pow2_def)
  next
    case False
    with "1.prems" have pos: "0 < n div 2" by simp
    from "1.IH" "1.prems" pos
    have ih: "1 \<le> bit_len (n div 2)" "pow2 (bit_len (n div 2) - 1) \<le> of_int (n div 2)"
      "of_int (n div 2) < pow2 (bit_len (n div 2))" by auto
    have dbl: "pow2 (bit_len (n div 2)) = 2 * pow2 (bit_len (n div 2) - 1)"
      using pow2_add [of 1 "bit_len (n div 2) - 1"] by (simp add: pow2_def)
    have dbl': "pow2 (1 + bit_len (n div 2)) = 2 * pow2 (bit_len (n div 2))"
      using pow2_add [of 1 "bit_len (n div 2)"] by (simp add: pow2_def)
    have intp: "pow2 (bit_len (n div 2)) = of_int (2 ^ nat (bit_len (n div 2)))"
      using ih(1) by (simp add: pow2_nat)
    from ih(3) have "n div 2 < 2 ^ nat (bit_len (n div 2))" unfolding intp by linarith
    then have "n < 2 * 2 ^ nat (bit_len (n div 2))" by linarith
    then have "of_int n < (of_int (2 * 2 ^ nat (bit_len (n div 2))) :: rat)"
      by (simp only: of_int_less_iff)
    then have up: "of_int n < 2 * pow2 (bit_len (n div 2))" unfolding intp by simp
    have "2 * (n div 2) \<le> n" by simp
    then have "of_int (2 * (n div 2)) \<le> (of_int n :: rat)" by (simp only: of_int_le_iff)
    then have lo: "2 * pow2 (bit_len (n div 2) - 1) \<le> of_int n" using ih(2) by simp
    from eq ih(1) up lo dbl dbl' show ?thesis by simp
  qed
qed

lemma ulp_exp_bounds:
  assumes "q \<noteq> 0"
  shows "\<bar>q\<bar> < pow2 (ulp_exp q + 53)"
    and "ulp_exp q = - 1074 \<or> pow2 (ulp_exp q + 52) \<le> \<bar>q\<bar>"
    and "- 1074 \<le> ulp_exp q"
proof -
  obtain n d where nd: "quotient_of q = (n, d)" by fastforce
  then have d: "0 < d" by (rule quotient_of_denom_pos)
  have q: "q = of_int n / of_int d" using nd by (rule quotient_of_div)
  with assms have n: "0 < \<bar>n\<bar>" by auto
  define L D where "L = bit_len \<bar>n\<bar>" and "D = bit_len d"
  note bn = bit_len_bounds [OF n, folded L_def] and bd = bit_len_bounds [OF d, folded D_def]
  have aq: "\<bar>q\<bar> = of_int \<bar>n\<bar> / of_int d" using q d by simp
  have dpos: "0 < (of_int d :: rat)" using d by simp
  have "pow2 (L - 1 - D) * of_int d \<le> pow2 (L - 1 - D) * pow2 D"
    using bd by (intro mult_left_mono) (auto intro: less_imp_le)
  also have "\<dots> = pow2 (L - 1)" using pow2_add [of "L - 1 - D" D] by simp
  finally have "pow2 (L - 1 - D) * of_int d \<le> of_int \<bar>n\<bar>" using bn by simp
  then have lo: "pow2 (L - 1 - D) \<le> \<bar>q\<bar>" using dpos by (simp add: aq pos_le_divide_eq)
  have "pow2 L = pow2 (L - D + 1) * pow2 (D - 1)" using pow2_add [of "L - D + 1" "D - 1"] by simp
  also have "\<dots> \<le> pow2 (L - D + 1) * of_int d"
    using bd by (intro mult_left_mono) (auto intro: less_imp_le)
  finally have "of_int \<bar>n\<bar> < pow2 (L - D + 1) * of_int d" using bn by simp
  then have hi: "\<bar>q\<bar> < pow2 (L - D + 1)" using dpos by (simp add: aq pos_divide_less_eq)
  define e where "e = L - D - 53"
  define k where "k = (if pow2 53 \<le> \<bar>q\<bar> / pow2 e then e + 1 else e)"
  have ulp: "ulp_exp q = max k (- 1074)"
    by (simp add: ulp_exp_def nd k_def e_def L_def D_def Let_def)
  have cond: "pow2 53 \<le> \<bar>q\<bar> / pow2 e \<longleftrightarrow> pow2 (e + 53) \<le> \<bar>q\<bar>"
    by (simp add: pos_le_divide_eq pow2_add mult.commute)
  have k_hi: "\<bar>q\<bar> < pow2 (k + 53)"
    using hi cond by (auto simp: k_def e_def algebra_simps)
  have k_lo: "pow2 (k + 52) \<le> \<bar>q\<bar>"
    using lo cond by (auto simp: k_def e_def algebra_simps)
  have "pow2 (k + 53) \<le> pow2 (ulp_exp q + 53)" by (rule pow2_mono) (simp add: ulp)
  with k_hi show "\<bar>q\<bar> < pow2 (ulp_exp q + 53)" by simp
  show "ulp_exp q = - 1074 \<or> pow2 (ulp_exp q + 52) \<le> \<bar>q\<bar>" using k_lo by (auto simp: ulp max_def)
  show "- 1074 \<le> ulp_exp q" by (simp add: ulp)
qed

lemma round_even_error: "\<bar>of_int (round_even q) - q\<bar> \<le> 1 / 2"
proof -
  have "of_int \<lfloor>q\<rfloor> \<le> q" "q < of_int \<lfloor>q\<rfloor> + 1" by linarith+
  then show ?thesis unfolding round_even_def Let_def by (auto simp: abs_le_iff)
qed

lemma round_even_of_int [simp]: "round_even (of_int n) = n"
  by (simp add: round_even_def)

lemma round64_error: "\<bar>round64 q - q\<bar> \<le> pow2 (ulp_exp q) / 2"
proof -
  define u where "u = pow2 (ulp_exp q)"
  have u: "0 < u" by (simp add: u_def)
  have "round64 q - q = (of_int (round_even (q / u)) - q / u) * u"
    using u by (simp add: round64_def u_def [symmetric] Let_def left_diff_distrib)
  then have "\<bar>round64 q - q\<bar> = \<bar>of_int (round_even (q / u)) - q / u\<bar> * u"
    using u by (simp add: abs_mult)
  also have "\<dots> \<le> 1 / 2 * u"
    using u by (intro mult_right_mono round_even_error) simp
  finally show ?thesis by (simp add: u_def)
qed

lemma round64_0 [simp]: "round64 0 = 0"
  by (simp add: round64_def round_even_def)

text \<open>The relative error of one rounding in the normal range is at most \<open>2 powi -53\<close>.\<close>

lemma round64_rel_error:
  assumes "pow2 (- 1022) \<le> \<bar>q\<bar>"
  shows "\<bar>round64 q - q\<bar> \<le> \<bar>q\<bar> * pow2 (- 53)"
proof -
  have "0 < \<bar>q\<bar>" using pow2_pos [of "- 1022"] assms by linarith
  then have q0: "q \<noteq> 0" by simp
  have lo: "pow2 (ulp_exp q + 52) \<le> \<bar>q\<bar>"
    using ulp_exp_bounds(2) [OF q0] assms pow2_mono [of "- 1074 + 52" "- 1022"] by auto
  have "pow2 (ulp_exp q) / 2 = pow2 (ulp_exp q + 52) * pow2 (- 53)"
    using pow2_add [of "ulp_exp q + 52" "- 53"] pow2_add [of "ulp_exp q - 1" 1]
    by (simp add: pow2_def)
  also have "\<dots> \<le> \<bar>q\<bar> * pow2 (- 53)"
    using lo by (intro mult_right_mono) (auto intro: less_imp_le)
  finally show ?thesis using round64_error [of q] by linarith
qed

lemma ulp_exp_le:
  assumes "q \<noteq> 0" and "\<bar>q\<bar> < pow2 (k + 53)" and "- 1074 \<le> k"
  shows "ulp_exp q \<le> k"
proof -
  have "ulp_exp q = - 1074 \<or> pow2 (ulp_exp q + 52) < pow2 (k + 53)"
    using ulp_exp_bounds(2) [OF assms(1)] assms(2) by linarith
  then show ?thesis using assms(3) by auto
qed

text \<open>Integers below \<open>2 ^ 53\<close> are binary64 numbers.\<close>

lemma round64_of_int:
  assumes "\<bar>n\<bar> < 2 ^ 53"
  shows "round64 (of_int n) = of_int n"
proof (cases "n = 0")
  case False
  have "ulp_exp (of_int n) \<le> 0"
  proof (rule ulp_exp_le)
    have "of_int \<bar>n\<bar> < (of_int (2 ^ 53) :: rat)" using assms by (simp only: of_int_less_iff)
    then show "\<bar>of_int n\<bar> < pow2 (0 + 53)" by (simp add: pow2_nat)
  qed (use False in auto)
  then obtain j where j: "ulp_exp (of_int n) = - int j"
    by (metis nonpos_int_cases)
  have inv: "of_int n / pow2 (ulp_exp (of_int n)) = of_int (n * 2 ^ j)"
    by (simp add: j pow2_def power_int_minus field_simps)
  have "round64 (of_int n) = of_int (round_even (of_int (n * 2 ^ j))) * pow2 (ulp_exp (of_int n))"
    unfolding round64_def Let_def inv ..
  also have "\<dots> = of_int n"
    by (simp add: j pow2_def power_int_minus del: of_int_mult) (simp add: field_simps)
  finally show ?thesis .
qed simp

lemma f_of_int_exact:
  assumes "\<bar>n\<bar> < 2 ^ 53"
  shows "f_of_int n = Fin (of_int n)"
proof -
  have "of_int \<bar>n\<bar> < (of_int (2 ^ 53) :: rat)" using assms by (simp only: of_int_less_iff)
  then have "\<bar>of_int n\<bar> < pow2 53" by (simp add: pow2_nat)
  also have "pow2 53 < pow2 1024" by simp
  finally have "\<bar>of_int n\<bar> < pow2 1024" .
  then show ?thesis
    using round64_of_int [OF assms] by (auto simp: f_of_int_def fl_def Let_def)
qed

text \<open>Faster code equations for kernel evaluation.\<close>

lemma pow2_code [code]:
  "pow2 e = (if 0 \<le> e then of_int (2 ^ nat e) else 1 / of_int (2 ^ nat (- e)))"
  by (simp add: pow2_def power_int_def power_divide)

lemma pow2_1024: "pow2 1024 = 179769313486231590772930519078902473361797697894230657273430081157732675805500963132708477322407536021120113879871393357658789768814416622492847430639474124377767893424865485276302219601246094119453082952085005768838150682342462881473913110540827237163350510684586298239947245938479716304835356329624224137216"
  by (simp add: pow2_def power_int_def)

lemma fl_code [code]:
  "fl s q =
     (let r = round64 q
      in if r = 0 then (if s then NegZero else Fin 0)
         else if 179769313486231590772930519078902473361797697894230657273430081157732675805500963132708477322407536021120113879871393357658789768814416622492847430639474124377767893424865485276302219601246094119453082952085005768838150682342462881473913110540827237163350510684586298239947245938479716304835356329624224137216 \<le> \<bar>r\<bar>
           then Inf (r < 0) else Fin r)"
  by (simp only: fl_def pow2_1024)

lemma fl_Fin:
  assumes "\<bar>round64 q\<bar> < pow2 1024" and "round64 q \<noteq> 0 \<or> \<not> s"
  shows "fl s q = Fin (round64 q)"
  using assms by (auto simp: fl_def Let_def)

lemma f_less_irrefl [simp]: "\<not> f_less x x"
  by (cases x) auto


section \<open>Operations on finite numbers\<close>

text \<open>One rounding anywhere: relative error \<open>2 powi -53\<close> plus half the smallest subnormal.\<close>

lemma round64_err: "\<bar>round64 q - q\<bar> \<le> \<bar>q\<bar> * pow2 (- 53) + pow2 (- 1075)"
proof (cases "pow2 (- 1022) \<le> \<bar>q\<bar>")
  case True
  then show ?thesis using round64_rel_error [of q] pow2_pos [of "- 1075"] by linarith
next
  case False
  show ?thesis
  proof (cases "q = 0")
    case False
    then have "ulp_exp q = - 1074"
      using ulp_exp_le [of q "- 1074"] ulp_exp_bounds(3) [of q] \<open>\<not> pow2 (- 1022) \<le> \<bar>q\<bar>\<close>
        pow2_mono [of "- 1022" "- 1021"] by fastforce
    moreover have "pow2 (- 1074) / 2 = pow2 (- 1075)"
      using pow2_add [of "- 1075" 1] by (simp add: pow2_def [of 1])
    moreover have "0 \<le> \<bar>q\<bar> * pow2 (- 53)" by (intro mult_nonneg_nonneg) (simp_all add: less_imp_le)
    ultimately show ?thesis using round64_error [of q] by simp
  qed (simp add: less_imp_le)
qed

lemma pow2_small: "pow2 (- 53) \<le> 1 / 1000000000000" "pow2 (- 1075) \<le> 1 / 10 ^ 30"
proof -
  show "pow2 (- 53) \<le> 1 / 1000000000000" by (simp add: pow2_def power_int_def power_divide)
  have "pow2 (- 1075) \<le> pow2 (- 100)" by (rule pow2_mono) simp
  also have "\<dots> \<le> 1 / 10 ^ 30" by (simp add: pow2_def power_int_def power_divide)
  finally show "pow2 (- 1075) \<le> 1 / 10 ^ 30" .
qed

lemma round64_close: "\<bar>round64 q - q\<bar> \<le> \<bar>q\<bar> / 1000000000000 + 1 / 10 ^ 30"
proof -
  have "\<bar>q\<bar> * pow2 (- 53) \<le> \<bar>q\<bar> * (1 / 1000000000000)"
    by (rule mult_left_mono [OF pow2_small(1)]) simp
  then show ?thesis using round64_err [of q] pow2_small(2) by simp
qed

lemma fl_finite:
  assumes "\<bar>q\<bar> \<le> pow2 1000"
  shows "is_fin (fl s q)" and "f_val (fl s q) = round64 q"
proof -
  have "\<bar>q\<bar> * pow2 (- 53) \<le> \<bar>q\<bar>" by (rule mult_left_le) (use pow2_small(1) in simp_all)
  moreover have "(1::rat) \<le> pow2 1000" using pow2_mono [of 0 1000] by (simp add: pow2_def)
  ultimately have "\<bar>round64 q\<bar> \<le> 3 * pow2 1000" 
    using round64_err [of q] pow2_mono [of "- 1075" 0] assms by (simp add: pow2_def [of 0])
  also have "\<dots> < pow2 2 * pow2 1000" by (simp add: pow2_def)
  also have "\<dots> = pow2 1002" using pow2_add [of 2 1000] by simp
  also have "\<dots> < pow2 1024" by simp
  finally have "\<bar>round64 q\<bar> < pow2 1024" .
  then show "is_fin (fl s q)" "f_val (fl s q) = round64 q"
    by (auto simp: fl_def is_fin_def f_val_def Let_def)
qed

lemma f_mul_fin:
  assumes "is_fin x" and "is_fin y" and "\<bar>f_val x * f_val y\<bar> \<le> pow2 1000"
  shows "is_fin (x * y)" and "f_val (x * y) = round64 (f_val x * f_val y)"
proof -
  have "x * y = fl (f_neg x \<noteq> f_neg y) (f_val x * f_val y)"
    using assms(1,2) by (cases x; cases y) (auto simp: times_f64_def f_mul_def is_fin_def Let_def)
  then show "is_fin (x * y)" "f_val (x * y) = round64 (f_val x * f_val y)"
    using fl_finite [OF assms(3)] by simp_all
qed

lemma f_div_fin:
  assumes "is_fin x" and "is_fin y" and "f_val y \<noteq> 0" and "\<bar>f_val x / f_val y\<bar> \<le> pow2 1000"
  shows "is_fin (x / y)" and "f_val (x / y) = round64 (f_val x / f_val y)"
proof -
  have "x / y = fl (f_neg x \<noteq> f_neg y) (f_val x / f_val y)"
    using assms(1-3) by (cases x; cases y) (auto simp: divide_f64_def f_div_def is_fin_def Let_def)
  then show "is_fin (x / y)" "f_val (x / y) = round64 (f_val x / f_val y)"
    using fl_finite [OF assms(4)] by simp_all
qed

lemma f_add_fin:
  assumes "is_fin x" and "is_fin y" and "\<bar>f_val x + f_val y\<bar> \<le> pow2 1000"
  shows "is_fin (x + y)" and "f_val (x + y) = round64 (f_val x + f_val y)"
proof -
  have "x + y = NegZero \<and> f_val x + f_val y = 0 \<or> x + y = fl False (f_val x + f_val y)"
    using assms(1,2) by (cases x; cases y) (auto simp: plus_f64_def is_fin_def f_val_def)
  then show "is_fin (x + y)" "f_val (x + y) = round64 (f_val x + f_val y)"
    using fl_finite [OF assms(3), of False] by (auto simp: is_fin_def f_val_def)
qed

lemma f_diff_fin:
  assumes "is_fin x" and "is_fin y" and "\<bar>f_val x - f_val y\<bar> \<le> pow2 1000"
  shows "is_fin (x - y)" and "f_val (x - y) = round64 (f_val x - f_val y)"
proof -
  have "is_fin (f_uminus y)" "f_val (f_uminus y) = - f_val y"
    using assms(2) by (cases y; simp add: is_fin_def f_uminus_def f_val_def)+
  moreover have "x - y = x + f_uminus y" by (simp add: minus_f64_def plus_f64_def)
  ultimately show "is_fin (x - y)" "f_val (x - y) = round64 (f_val x - f_val y)"
    using f_add_fin [of x "f_uminus y"] assms by simp_all
qed

lemma f_less_fin: "is_fin x \<Longrightarrow> is_fin y \<Longrightarrow> x < y \<longleftrightarrow> f_val x < f_val y"
  by (cases x; cases y) (auto simp: less_f64_def is_fin_def f_val_def)

lemma f_abs_fin: "is_fin x \<Longrightarrow> is_fin (f_abs x)" "is_fin x \<Longrightarrow> f_val (f_abs x) = \<bar>f_val x\<bar>"
  by (cases x; simp add: f_abs_def is_fin_def f_val_def)+

lemma is_fin_Fin [simp]: "is_fin (Fin q)" "f_val (Fin q) = q"
  by (simp_all add: is_fin_def f_val_def)


text \<open>Rounding commutes with scaling by a power of two in the normal range.\<close>

lemma abs_pow2 [simp]: "\<bar>pow2 e\<bar> = pow2 e"
  by (simp add: less_imp_le)

lemma ulp_exp_unique:
  assumes "pow2 (k + 52) \<le> \<bar>q\<bar>" and "\<bar>q\<bar> < pow2 (k + 53)" and "- 1074 \<le> k"
  shows "ulp_exp q = k"
proof -
  have q0: "q \<noteq> 0" using assms(1) pow2_pos [of "k + 52"] by (auto simp: not_le [symmetric] simp del: pow2_pos)
  have "ulp_exp q \<le> k" by (rule ulp_exp_le [OF q0 assms(2,3)])
  moreover have "pow2 (k + 52) < pow2 (ulp_exp q + 53)"
    using assms(1) ulp_exp_bounds(1) [OF q0] by (rule le_less_trans)
  ultimately show ?thesis by simp
qed

lemma round64_scale:
  assumes "pow2 (- 900) \<le> \<bar>q\<bar>" and "- 100 \<le> j"
  shows "round64 (q * pow2 j) = round64 q * pow2 j"
proof -
  have q0: "q \<noteq> 0" using assms(1) pow2_pos [of "- 900"] by (auto simp: not_le [symmetric] simp del: pow2_pos)
  have "pow2 (- 900) < pow2 (ulp_exp q + 53)"
    using assms(1) ulp_exp_bounds(1) [OF q0] by (rule le_less_trans)
  then have u: "- 954 < ulp_exp q + 0" by simp
  then have lo: "pow2 (ulp_exp q + 52) \<le> \<bar>q\<bar>" using ulp_exp_bounds(2) [OF q0] by auto
  have "ulp_exp (q * pow2 j) = ulp_exp q + j"
  proof (rule ulp_exp_unique)
    have "pow2 (ulp_exp q + j + 52) = pow2 (ulp_exp q + 52) * pow2 j" using pow2_add [of "ulp_exp q + 52" j] by (simp add: add_ac)
    then show "pow2 (ulp_exp q + j + 52) \<le> \<bar>q * pow2 j\<bar>" using lo by (simp add: abs_mult)
    have "pow2 (ulp_exp q + j + 53) = pow2 (ulp_exp q + 53) * pow2 j" using pow2_add [of "ulp_exp q + 53" j] by (simp add: add_ac)
    then show "\<bar>q * pow2 j\<bar> < pow2 (ulp_exp q + j + 53)" using ulp_exp_bounds(1) [OF q0] by (simp add: abs_mult)
  qed (use u assms(2) in simp)
  then show ?thesis by (simp add: round64_def pow2_add Let_def)
qed

end
