(* ===== verification/Go_Text.thy ===== *)
theory Go_Text
  imports Prelude "HOL-Library.Char_ord"
begin

text \<open>
  Go strings as byte strings (\<open>char list\<close>, one \<open>char\<close> per byte) and the functions of
  \<open>strings\<close>, \<open>strconv\<close> and \<open>fmt\<close> the source uses: \<open>Contains\<close>, \<open>HasPrefix\<close>,
  \<open>IndexByte\<close>, \<open>TrimSpace\<close> with Go's set of Unicode spaces in UTF-8, \<open>ToLower\<close> on ASCII,
  decimal formatting with and without width, \<open>Atoi\<close>/\<open>ParseInt(s, 10, 64)\<close>, and
  \<open>\<percent>.Nf\<close> of a rational. The lemmas give the round trips and the idempotence of trimming.
\<close>

section \<open>Searching\<close>

definition has_prefix :: "string \<Rightarrow> string \<Rightarrow> bool" where
  "has_prefix s p \<longleftrightarrow> take (length p) s = p"

fun contains :: "string \<Rightarrow> string \<Rightarrow> bool" where
  "contains [] sub = (sub = [])"
| "contains (c # cs) sub = (has_prefix (c # cs) sub \<or> contains cs sub)"

fun index_byte :: "string \<Rightarrow> char \<Rightarrow> nat option" where
  "index_byte [] b = None"
| "index_byte (c # cs) b = (if c = b then Some 0 else map_option Suc (index_byte cs b))"

lemma has_prefix_iff: "has_prefix s p \<longleftrightarrow> (\<exists>t. s = p @ t)"
  by (metis append_eq_conv_conj append_take_drop_id has_prefix_def)

lemma contains_iff: "contains s sub \<longleftrightarrow> (\<exists>a b. s = a @ sub @ b)"
proof (induction s)
  case Nil
  then show ?case by auto
next
  case (Cons c cs)
  show ?case
  proof
    assume "contains (c # cs) sub"
    then consider "has_prefix (c # cs) sub" | "contains cs sub" by auto
    then show "\<exists>a b. c # cs = a @ sub @ b"
    proof cases
      case 1
      then obtain t where "c # cs = sub @ t" by (auto simp: has_prefix_iff)
      then show ?thesis by (metis append_Nil)
    next
      case 2
      then obtain a b where "cs = a @ sub @ b" using Cons.IH by auto
      then have "c # cs = (c # a) @ sub @ b" by simp
      then show ?thesis by blast
    qed
  next
    assume "\<exists>a b. c # cs = a @ sub @ b"
    then obtain a b where ab: "c # cs = a @ sub @ b" by blast
    show "contains (c # cs) sub"
    proof (cases a)
      case Nil
      then have "has_prefix (c # cs) sub" using ab by (auto simp: has_prefix_iff)
      then show ?thesis by simp
    next
      case (Cons x xs)
      then have "contains cs sub" using ab Cons.IH by auto
      then show ?thesis by simp
    qed
  qed
qed

lemma contains_append: "contains s sub \<Longrightarrow> contains (x @ s @ y) sub"
  unfolding contains_iff by (metis append.assoc)

lemma index_byte_None: "index_byte s b = None \<longleftrightarrow> b \<notin> set s"
  by (induction s) auto

lemma index_byte_Some:
  "index_byte s b = Some i \<Longrightarrow> i < length s \<and> s ! i = b \<and> b \<notin> set (take i s)"
  by (induction s arbitrary: i) (auto split: if_splits)

section \<open>TrimSpace\<close>

text \<open>
  The UTF-8 encodings of the runes \<open>unicode.IsSpace\<close> accepts. They all begin with a
  byte that starts a rune, so a prefix (suffix) of the byte string that equals one of them is
  the first (last) rune Go decodes.
\<close>

definition space_runes :: "string list" where
  "space_runes =
     [[CHR 0x09], [CHR 0x0A], [CHR 0x0B], [CHR 0x0C], [CHR 0x0D], [CHR 0x20],
      [CHR 0xC2, CHR 0x85], [CHR 0xC2, CHR 0xA0], [CHR 0xE1, CHR 0x9A, CHR 0x80]]
     @ map (\<lambda>b. [CHR 0xE2, CHR 0x80, b])
         [CHR 0x80, CHR 0x81, CHR 0x82, CHR 0x83, CHR 0x84, CHR 0x85, CHR 0x86, CHR 0x87,
          CHR 0x88, CHR 0x89, CHR 0x8A, CHR 0xA8, CHR 0xA9, CHR 0xAF]
     @ [[CHR 0xE2, CHR 0x81, CHR 0x9F], [CHR 0xE3, CHR 0x80, CHR 0x80]]"

lemma space_runes_nonempty: "p \<in> set space_runes \<Longrightarrow> p \<noteq> []"
  by (auto simp: space_runes_def)

text \<open>Drop leading elements of \<open>ps\<close> as long as one is a prefix.\<close>

function strip_left :: "string list \<Rightarrow> string \<Rightarrow> string" where
  "strip_left ps s =
     (case find (\<lambda>p. p \<noteq> [] \<and> has_prefix s p) ps of
        None \<Rightarrow> s
      | Some p \<Rightarrow> strip_left ps (drop (length p) s))"
  by pat_completeness auto
termination
  by (relation "measure (\<lambda>(ps, s). length s)")
    (auto simp: has_prefix_iff dest!: find_Some_mem)

declare strip_left.simps [simp del]

definition trim_left :: "string \<Rightarrow> string" where
  "trim_left s = strip_left space_runes s"

definition trim_right :: "string \<Rightarrow> string" where
  "trim_right s = rev (strip_left (map rev space_runes) (rev s))"

definition trim_space :: "string \<Rightarrow> string" where
  "trim_space s = trim_right (trim_left s)"

definition clean :: "string list \<Rightarrow> string \<Rightarrow> bool" where
  "clean ps s \<longleftrightarrow> find (\<lambda>p. p \<noteq> [] \<and> has_prefix s p) ps = None"

lemma clean_iff: "clean ps s \<longleftrightarrow> (\<forall>p \<in> set ps. p \<noteq> [] \<longrightarrow> \<not> has_prefix s p)"
  by (auto simp: clean_def find_None_iff)

lemma strip_left_clean: "clean ps (strip_left ps s)"
proof (induction ps s rule: strip_left.induct)
  case (1 ps s)
  show ?case
    using 1 by (cases "find (\<lambda>p. p \<noteq> [] \<and> has_prefix s p) ps")
      (auto simp: clean_def strip_left.simps [of ps s])
qed

lemma strip_left_id: "clean ps s \<Longrightarrow> strip_left ps s = s"
  by (subst strip_left.simps) (simp add: clean_def)

lemma strip_left_suffix: "\<exists>a. s = a @ strip_left ps s"
proof (induction ps s rule: strip_left.induct)
  case (1 ps s)
  show ?case
  proof (cases "find (\<lambda>p. p \<noteq> [] \<and> has_prefix s p) ps")
    case None
    then show ?thesis by (simp add: strip_left.simps [of ps s])
  next
    case (Some p)
    then obtain t where t: "s = p @ t" by (auto simp: has_prefix_iff dest!: find_Some_mem)
    from 1 [OF Some] obtain a where "drop (length p) s = a @ strip_left ps (drop (length p) s)"
      by blast
    then have "s = (p @ a) @ strip_left ps (drop (length p) s)" using t by simp
    moreover have "strip_left ps s = strip_left ps (drop (length p) s)"
      using Some by (subst strip_left.simps) simp
    ultimately show ?thesis by metis
  qed
qed

lemma clean_prefix: "clean ps (a @ b) \<Longrightarrow> clean ps a"
  by (auto simp: clean_iff has_prefix_iff)

lemma trim_right_prefix: "\<exists>b. s = trim_right s @ b"
proof -
  obtain a where "rev s = a @ strip_left (map rev space_runes) (rev s)"
    using strip_left_suffix by blast
  then have "s = rev (strip_left (map rev space_runes) (rev s)) @ rev a"
    by (metis rev_append rev_rev_ident)
  then show ?thesis by (auto simp: trim_right_def)
qed

lemma trim_space_idem [simp]: "trim_space (trim_space s) = trim_space s"
proof -
  have "clean space_runes (trim_left s)" by (simp add: trim_left_def strip_left_clean)
  then have "clean space_runes (trim_space s)"
    using trim_right_prefix [of "trim_left s"] clean_prefix unfolding trim_space_def by metis
  then have l: "trim_left (trim_space s) = trim_space s"
    by (simp add: trim_left_def strip_left_id)
  have "clean (map rev space_runes) (rev (trim_space s))"
    by (simp add: trim_space_def trim_right_def strip_left_clean)
  then have "trim_right (trim_space s) = trim_space s"
    by (simp add: trim_right_def strip_left_id)
  with l show ?thesis by (simp add: trim_space_def [of "trim_space s"])
qed

text \<open>Strings of plain ASCII text bytes (no control bytes, no space) are not changed.\<close>

definition graphic :: "char \<Rightarrow> bool" where
  "graphic c \<longleftrightarrow> CHR ''!'' \<le> c \<and> c \<le> CHR ''~''"

lemma graphic_not_space:
  assumes "p \<in> set space_runes" and "p \<noteq> []"
  shows "\<not> graphic (hd p) \<and> \<not> graphic (last p)"
  using assms by (auto simp: space_runes_def graphic_def)

lemma trim_left_graphic: "s = [] \<or> graphic (hd s) \<Longrightarrow> trim_left (s @ t) = s @ t \<or> s = []"
proof -
  assume "s = [] \<or> graphic (hd s)"
  then have "s \<noteq> [] \<Longrightarrow> clean space_runes (s @ t)"
    using graphic_not_space by (fastforce simp: clean_iff has_prefix_iff append_eq_append_conv2
      append_eq_Cons_conv neq_Nil_conv)
  then show ?thesis by (auto simp: trim_left_def strip_left_id)
qed

lemma trim_right_graphic: "s \<noteq> [] \<Longrightarrow> graphic (last s) \<Longrightarrow> trim_right s = s"
proof -
  assume s: "s \<noteq> []" "graphic (last s)"
  have "clean (map rev space_runes) (rev s)"
    unfolding clean_iff
  proof (intro ballI impI notI)
    fix p assume p: "p \<in> set (map rev space_runes)" "p \<noteq> []" "has_prefix (rev s) p"
    then obtain r t where r: "r \<in> set space_runes" "p = rev r" "rev s = p @ t"
      by (auto simp: has_prefix_iff)
    have "hd (rev s) = hd p" using r(3) p(2) by simp
    then have "last s = last r" using s r(2) by (simp add: hd_rev)
    then show False using graphic_not_space [OF r(1)] s p(2) r(2) by auto
  qed
  then show ?thesis by (simp add: trim_right_def strip_left_id)
qed

lemma trim_right_blank: "trim_right (s @ [CHR '' '']) = trim_right s"
  by (simp add: trim_right_def strip_left.simps [of _ "CHR '' '' # rev s"] space_runes_def
      has_prefix_def)

lemma trim_right_blanks: "trim_right (s @ replicate n (CHR '' '')) = trim_right s"
proof (induction n)
  case (Suc n)
  have "s @ replicate (Suc n) (CHR '' '') = (s @ replicate n (CHR '' '')) @ [CHR '' '']"
    by (metis append.assoc replicate_append_same replicate_Suc)
  then show ?case using Suc trim_right_blank by metis
qed simp

text \<open>Trimming undoes blank padding of a text that begins and ends with a graphic byte.\<close>

lemma trim_space_padded:
  assumes "s \<noteq> []" and "graphic (hd s)" and "graphic (last s)"
  shows "trim_space (s @ replicate n (CHR '' '')) = s"
  using trim_left_graphic [of s "replicate n (CHR '' '')"] assms
  by (auto simp: trim_space_def trim_right_blanks trim_right_graphic)

lemma trim_space_graphic: "s \<noteq> [] \<Longrightarrow> graphic (hd s) \<Longrightarrow> graphic (last s) \<Longrightarrow> trim_space s = s"
  using trim_space_padded [of s 0] by simp

lemma trim_space_Nil [simp]: "trim_space [] = []"
proof -
  have "clean ps []" for ps by (auto simp: clean_iff has_prefix_def)
  then show ?thesis by (simp add: trim_space_def trim_left_def trim_right_def strip_left_id)
qed

section \<open>ASCII case\<close>

definition lower_char :: "char \<Rightarrow> char" where
  "lower_char c = (if CHR ''A'' \<le> c \<and> c \<le> CHR ''Z'' then char_of (of_char c + (32 :: nat)) else c)"

text \<open>
  \<open>strings.ToLower\<close> on the ASCII bytes. The source compares the result with (prefixes
  of) ASCII words none of whose letters is the lower case of a non-ASCII rune, so the mapping of
  the other runes is not observable.
\<close>

definition to_lower :: "string \<Rightarrow> string" where
  "to_lower s = map lower_char s"

section \<open>Decimal numbers\<close>

definition digit_char :: "int \<Rightarrow> char" where
  "digit_char d = ''0123456789'' ! nat d"

function dec_digits :: "int \<Rightarrow> string" where
  "dec_digits n = (if n < 10 then [digit_char n] else dec_digits (n div 10) @ [digit_char (n mod 10)])"
  by pat_completeness auto
termination
  by (relation "measure nat") auto

declare dec_digits.simps [simp del]

definition itoa :: "int \<Rightarrow> string" where
  "itoa n = (if n < 0 then CHR ''-'' # dec_digits (- n) else dec_digits n)"

definition digit_val :: "char \<Rightarrow> int option" where
  "digit_val c = (if CHR ''0'' \<le> c \<and> c \<le> CHR ''9'' then Some (of_char c - 48) else None)"

fun parse_digits :: "int \<Rightarrow> string \<Rightarrow> int option" where
  "parse_digits acc [] = Some acc"
| "parse_digits acc (c # cs) =
     (case digit_val c of None \<Rightarrow> None | Some d \<Rightarrow> parse_digits (10 * acc + d) cs)"

text \<open>\<open>strconv.Atoi\<close> and \<open>strconv.ParseInt(s, 10, 64)\<close>: \<open>None\<close> is a syntax or range error.\<close>

definition parse_int64 :: "string \<Rightarrow> int option" where
  "parse_int64 s =
     (case s of
        [] \<Rightarrow> None
      | c # cs \<Rightarrow>
          (let body = (if c = CHR ''-'' \<or> c = CHR ''+'' then cs else s)
           in if body = [] then None
              else (case parse_digits 0 body of
                      None \<Rightarrow> None
                    | Some n \<Rightarrow> (let v = (if c = CHR ''-'' then - n else n)
                                 in if in64 v then Some v else None))))"

lemma digit_cases:
  assumes "0 \<le> d" and "d < 10"
  shows "d \<in> {0, 1, 2, 3, 4, 5, 6, 7, 8, 9 :: int}"
  using assms unfolding insert_iff empty_iff by presburger

lemma digit_val_digit_char [simp]: "0 \<le> d \<Longrightarrow> d < 10 \<Longrightarrow> digit_val (digit_char d) = Some d"
  by (drule (1) digit_cases) (auto simp: digit_val_def digit_char_def numeral_eq_Suc)

lemma digit_char_graphic: "0 \<le> d \<Longrightarrow> d < 10 \<Longrightarrow> digit_char d \<in> set ''0123456789''"
  by (drule (1) digit_cases) (auto simp: digit_char_def numeral_eq_Suc)

lemma parse_digits_append:
  "parse_digits acc (xs @ ys) = Option.bind (parse_digits acc xs) (\<lambda>a. parse_digits a ys)"
  by (induction xs arbitrary: acc) (auto split: option.splits)

lemma parse_digits_dec: "0 \<le> n \<Longrightarrow> parse_digits 0 (dec_digits n) = Some n"
proof (induction n rule: dec_digits.induct)
  case (1 n)
  show ?case
  proof (cases "n < 10")
    case True
    then show ?thesis using 1 by (simp add: dec_digits.simps [of n])
  next
    case False
    then show ?thesis using 1 by (simp add: dec_digits.simps [of n] parse_digits_append)
  qed
qed

lemma dec_digits_set: "0 \<le> n \<Longrightarrow> set (dec_digits n) \<subseteq> set ''0123456789''"
proof (induction n rule: dec_digits.induct)
  case (1 n)
  then show ?case using digit_char_graphic [of n] digit_char_graphic [of "n mod 10"]
    by (cases "n < 10") (auto simp: dec_digits.simps [of n])
qed

lemma dec_digits_nonempty [simp]: "dec_digits n \<noteq> []"
  by (subst dec_digits.simps) simp

text \<open>Parsing a printed integer gives it back.\<close>

lemma parse_int64_itoa: "in64 n \<Longrightarrow> parse_int64 (itoa n) = Some n"
proof -
  assume n: "in64 n"
  have sgn: "0 \<le> m \<Longrightarrow> dec_digits m = c # cs \<Longrightarrow> c \<noteq> CHR ''-'' \<and> c \<noteq> CHR ''+''" for m c cs
    using dec_digits_set [of m] by auto
  show ?thesis
    using n sgn [of n] parse_digits_dec [of n] parse_digits_dec [of "- n"]
    by (cases "n < 0"; cases "dec_digits n") (auto simp: parse_int64_def itoa_def)
qed

text \<open>Reading a decimal of any size back; two different integers have different decimals.\<close>

definition read_int :: "string \<Rightarrow> int option" where
  "read_int s = (case s of [] \<Rightarrow> None
     | c # cs \<Rightarrow> if c = CHR ''-'' then map_option uminus (parse_digits 0 cs) else parse_digits 0 s)"

lemma read_int_itoa: "read_int (itoa n) = Some n"
proof -
  have "CHR ''-'' \<notin> set (dec_digits m)" if "0 \<le> m" for m
    using dec_digits_set [OF that] by auto
  then have "hd (dec_digits n) \<noteq> CHR ''-''" if "0 \<le> n"
    using that hd_in_set [OF dec_digits_nonempty] by metis
  then show ?thesis
    using parse_digits_dec [of n] parse_digits_dec [of "- n"]
    by (cases "n < 0"; cases "dec_digits n") (auto simp: read_int_def itoa_def)
qed

lemma itoa_eq_iff: "itoa m = itoa n \<longleftrightarrow> m = n"
  by (metis option.inject read_int_itoa)

lemma parse_int64_in64: "parse_int64 s = Some n \<Longrightarrow> in64 n"
  by (auto simp: parse_int64_def Let_def split: list.splits option.splits if_splits)

end
