(* ===== verification/Rpc_Models.thy ===== *)
theory Rpc_Models
  imports Go_Float Go_Text
begin

text \<open>
  The decoded \<open>getblock <hash> 2\<close> answer of the node
  (\<open>indexer/internal/rpc/models.go\<close>). Go pointers are options, \<open>uint64\<close> and
  \<open>uint32\<close> fields are non-negative integers.
\<close>

record ScriptSig =
  ss_asm :: string
  ss_hex :: string

record TxIn =
  in_txid :: string
  in_vout :: "int option"
  in_script_sig :: ScriptSig
  in_sequence :: "int option"
  in_coinbase :: string

record ScriptPubKey =
  spk_asm :: string
  spk_hex :: string
  spk_type :: string
  spk_address :: string
  spk_addresses :: "string list"

record TxOut =
  out_value :: f64
  out_n :: int
  out_spk :: ScriptPubKey

record TxV2 =
  tx_txid :: string
  tx_version :: "int option"
  tx_locktime :: "int option"
  tx_size :: "int option"
  tx_vsize :: "int option"
  tx_weight :: "int option"
  tx_vin :: "TxIn list"
  tx_vout :: "TxOut list"

record BlockV2 =
  blk_hash :: string
  blk_confirmations :: int
  blk_size :: int
  blk_weight :: int
  blk_height :: int
  blk_version :: int
  blk_merkle_root :: string
  blk_time :: int
  blk_nonce :: int
  blk_bits :: string
  blk_difficulty :: f64
  blk_chain_work :: string
  blk_prev_hash :: string
  blk_algo_id :: "int option"
  blk_algo_name :: string
  blk_auxpow :: bool
  blk_auxpow_sign :: string
  blk_core_version :: string
  blk_tx :: "TxV2 list"

text \<open>\<open>ScriptPubKey.FirstAddress\<close>: the modern field, else the head of the legacy list.\<close>

definition first_address :: "ScriptPubKey \<Rightarrow> string" where
  "first_address s =
     (if spk_address s \<noteq> '''' then spk_address s
      else (case spk_addresses s of [] \<Rightarrow> '''' | a # _ \<Rightarrow> a))"

lemma first_address_empty_iff:
  "first_address s = '''' \<longleftrightarrow>
   spk_address s = '''' \<and> (spk_addresses s = [] \<or> hd (spk_addresses s) = '''')"
  by (auto simp: first_address_def split: list.splits)

end
