(* ===== verification/Ingest_Helpers.thy ===== *)
theory Ingest_Helpers
  imports Rpc_Models
begin

unbundle bit_operations_syntax

text \<open>
  The pure helpers at the end of \<open>indexer/internal/ingest/ingestor.go\<close>: decoding of the
  algorithm and of the merge-mining flag from \<open>nVersion\<close>, the algorithm tables, the
  conversion of coin amounts to base units, the NULL mappings, and the classification of RPC
  errors. The theorems show that the decoded algorithm is always one of the eight known ones
  and that the base-unit conversion recovers every amount the node can print.
\<close>

section \<open>nVersion\<close>

definition decode_algo :: "int \<Rightarrow> int" where
  "decode_algo version = sint (signed_drop_bit 9 (word_of_int version :: 64 word) AND 7)"

definition decode_auxpow :: "int \<Rightarrow> bool" where
  "decode_auxpow version \<longleftrightarrow> (word_of_int version :: 64 word) AND 0x100 \<noteq> 0"

definition algo_weight :: "int \<Rightarrow> f64" where
  "algo_weight i =
     (if i = 0 then Fin 8000 else if i = 1 then Fin 1 else if i = 2 then Fin 800000
      else if i = 3 then Fin 4000000 else if i = 4 then Fin 8000 else if i = 5 then Fin 8000
      else if i = 6 then Fin 8000000 else if i = 7 then Fin 8000000 else Fin 1)"

definition algo_id_to_name :: "int \<Rightarrow> string" where
  "algo_id_to_name i =
     (if i = 0 then ''SCRYPT'' else if i = 1 then ''SHA256D'' else if i = 2 then ''YESCRYPT''
      else if i = 3 then ''ARGON2'' else if i = 4 then ''X17'' else if i = 5 then ''LYRA2REv2''
      else if i = 6 then ''EQUIHASH'' else if i = 7 then ''CRYPTONIGHT'' else ''UNKNOWN'')"

lemma word_and_7: "(w :: 64 word) AND 7 = take_bit 3 w"
  by (simp add: take_bit_eq_mask mask_eq_exp_minus_1)

lemma sint_word_wrap64: "sint (word_of_int v :: 64 word) = wrap64 v"
  by (simp add: int_word_sint wrap64_def)

lemma decode_algo_div: "decode_algo v = (wrap64 v div 512) mod 8"
proof -
  define w :: "64 word" where "w = word_of_int v"
  have "uint (signed_drop_bit 9 w AND 7) = take_bit 3 (uint (signed_drop_bit 9 w))"
    by (simp add: word_and_7 unsigned_take_bit_eq)
  also have "\<dots> = take_bit 3 (drop_bit 9 (sint w))"
    by (simp add: uint_sint sint_signed_drop_bit_eq)
  also have "\<dots> = (sint w div 512) mod 8"
    by (simp add: take_bit_eq_mod drop_bit_eq_div)
  finally have U: "uint (signed_drop_bit 9 w AND 7) = (sint w div 512) mod 8" .
  then have "uint (signed_drop_bit 9 w AND 7) < 2 ^ 63"
    using pos_mod_bound [of 8 "sint w div 512"] by simp
  moreover have "- (2 ^ 63) \<le> uint (signed_drop_bit 9 w AND 7)"
    by (rule order_trans [OF _ uint_ge_0]) simp
  ultimately have "sint (signed_drop_bit 9 w AND 7) = uint (signed_drop_bit 9 w AND 7)"
    unfolding sint_uint by (subst signed_take_bit_int_eq_self) simp_all
  with U show ?thesis by (simp add: decode_algo_def w_def sint_word_wrap64)
qed

lemma decode_algo_range: "decode_algo v \<in> {0 .. 7}"
  using pos_mod_bound [of 8 "wrap64 v div 512"] pos_mod_sign [of 8 "wrap64 v div 512"]
  by (simp add: decode_algo_div)

lemma decode_auxpow_bit: "decode_auxpow v \<longleftrightarrow> bit v 8"
proof -
  have "(word_of_int v :: 64 word) AND 0x100 = (word_of_int v) AND push_bit 8 1"
    by simp
  then have "decode_auxpow v \<longleftrightarrow> bit (word_of_int v :: 64 word) 8"
    unfolding decode_auxpow_def
    by (metis (no_types, lifting) and_exp_eq_0_iff_not_bit push_bit_of_1)
  then show ?thesis by (simp add: bit_word_of_int_iff)
qed

section \<open>Amounts\<close>

definition coin_to_base_units :: "f64 \<Rightarrow> int \<Rightarrow> int" where
  "coin_to_base_units v factor = i64_of_f (f_round (v * f_of_int factor))"

lemma round_away_near:
  assumes "\<bar>r - of_int n\<bar> < 1 / 2"
  shows "round_away r = n"
proof -
  have lo: "of_int n - 1 / 2 < r" and hi: "r < of_int n + 1 / 2"
    using assms unfolding abs_less_iff by linarith+
  have "\<lfloor>1 / 2 - r\<rfloor> = - n" if "r < 0"
    by (rule floor_unique) (use lo hi in simp_all)
  moreover have "\<lfloor>r + 1 / 2\<rfloor> = n" by (rule floor_unique) (use lo hi in simp_all)
  ultimately show ?thesis by (simp add: round_away_def)
qed

lemma f_round_near:
  assumes "\<bar>r - of_int n\<bar> < 1 / 2" and "in64 n"
  shows "i64_of_f (f_round (Fin r)) = n"
proof -
  have "trunc_rat (of_int n) = n" by (simp add: trunc_rat_def)
  then show ?thesis
    using round_away_near [OF assms(1)] assms(2) by (auto simp: f_round_def i64_of_f_def)
qed

lemma coin_first_rounding:
  assumes "n \<noteq> 0" and "\<bar>n\<bar> < 2 ^ 51"
  shows "\<bar>round64 (of_int n / 10 ^ 8) * 10 ^ 8 - of_int n\<bar> < 1 / 4"
    and "\<bar>round64 (of_int n / 10 ^ 8)\<bar> < pow2 1024"
proof -
  define q :: rat where "q = of_int n / 10 ^ 8"
  have n1: "1 \<le> \<bar>of_int n :: rat\<bar>" using assms(1) by linarith
  have "of_int \<bar>n\<bar> < (of_int (2 ^ 51) :: rat)" using assms(2) by (simp only: of_int_less_iff)
  then have n2: "\<bar>of_int n :: rat\<bar> < 2 ^ 51" by simp
  have absq: "\<bar>q\<bar> = \<bar>of_int n\<bar> / 10 ^ 8" by (simp add: q_def)
  have "pow2 (- 1022) \<le> pow2 (- 27)" by (rule pow2_mono) simp
  also have "\<dots> \<le> 1 / 10 ^ 8" by (simp add: pow2_def power_int_def power_divide)
  also have "\<dots> \<le> \<bar>q\<bar>" using n1 by (simp add: absq divide_right_mono)
  finally have e: "\<bar>round64 q - q\<bar> \<le> \<bar>q\<bar> * pow2 (- 53)" by (rule round64_rel_error)
  have p53: "pow2 (- 53) = 1 / 2 ^ 53" by (simp add: pow2_def power_int_def field_simps)
  have "round64 q * 10 ^ 8 - of_int n = (round64 q - q) * 10 ^ 8" by (simp add: q_def field_simps)
  then have "\<bar>round64 q * 10 ^ 8 - of_int n\<bar> = \<bar>round64 q - q\<bar> * 10 ^ 8"
    by (simp only: abs_mult) simp
  also have "\<dots> \<le> \<bar>q\<bar> * pow2 (- 53) * 10 ^ 8" using e by simp
  also have "\<dots> = \<bar>of_int n\<bar> / 2 ^ 53" by (simp add: absq p53)
  also have "\<dots> < 1 / 4" using n2 by simp
  finally show "\<bar>round64 (of_int n / 10 ^ 8) * 10 ^ 8 - of_int n\<bar> < 1 / 4" by (simp add: q_def)
  have "\<bar>q\<bar> * pow2 (- 53) \<le> \<bar>q\<bar>" by (rule mult_left_le) (simp_all add: p53)
  then have "\<bar>round64 q\<bar> \<le> 2 * \<bar>q\<bar>" using e by linarith
  also have "\<dots> < 2 ^ 52" using n2 by (simp add: absq)
  also have "\<dots> \<le> pow2 1024" using pow2_mono [of 52 1024] by (simp add: pow2_nat)
  finally show "\<bar>round64 (of_int n / 10 ^ 8)\<bar> < pow2 1024" by (simp add: q_def)
qed

lemma coin_second_rounding:
  fixes p :: rat
  assumes "n \<noteq> 0" and "\<bar>n\<bar> < 2 ^ 51" and "\<bar>p - of_int n\<bar> < 1 / 4"
  shows "\<bar>round64 p - of_int n\<bar> < 1 / 2" and "\<bar>round64 p\<bar> < pow2 1024" and "round64 p \<noteq> 0"
proof -
  have n1: "1 \<le> \<bar>of_int n :: rat\<bar>" using assms(1) by linarith
  have "\<bar>n\<bar> \<le> 2 ^ 51 - 1" using assms(2) by simp
  then have "of_int \<bar>n\<bar> \<le> (of_int (2 ^ 51 - 1) :: rat)" by (simp only: of_int_le_iff)
  then have n2: "\<bar>of_int n :: rat\<bar> \<le> 2 ^ 51 - 1" by simp
  have p0: "p \<noteq> 0" using n1 assms(3) by auto
  have "\<bar>p\<bar> < 2 ^ 51" using n2 assms(3) by linarith
  then have "\<bar>p\<bar> < pow2 51" by (simp add: pow2_nat)
  then have "ulp_exp p \<le> - 2" using ulp_exp_le [of p "- 2"] p0 by simp
  then have "pow2 (ulp_exp p) \<le> pow2 (- 2)" by (rule pow2_mono)
  then have err: "\<bar>round64 p - p\<bar> \<le> 1 / 8"
    using round64_error [of p] by (simp add: pow2_def [of "- 2"] power_int_def power_divide)
  then show c: "\<bar>round64 p - of_int n\<bar> < 1 / 2" using assms(3) by linarith
  have "\<bar>round64 p\<bar> < 2 ^ 51" using c n2 by linarith
  also have "\<dots> \<le> pow2 1024" using pow2_mono [of 51 1024] by (simp add: pow2_nat)
  finally show "\<bar>round64 p\<bar> < pow2 1024" .
  show "round64 p \<noteq> 0" using c n1 by auto
qed

lemma coin_exact:
  assumes "\<bar>n\<bar> < 2 ^ 51"
  shows "coin_to_base_units (lit (of_int n / 10 ^ 8)) 100000000 = n"
proof (cases "n = 0")
  case True
  have "coin_to_base_units (lit 0) 100000000 = 0" by code_simp
  with True show ?thesis by simp
next
  case False
  define v where "v = round64 (of_int n / 10 ^ 8)"
  note a = coin_first_rounding [OF False assms, folded v_def]
  note b = coin_second_rounding [OF False assms a(1)]
  have "1 \<le> \<bar>of_int n :: rat\<bar>" using False by linarith
  then have v0: "v \<noteq> 0" using a(1) by auto
  have lit_v: "lit (of_int n / 10 ^ 8) = Fin v"
    using fl_Fin [of "of_int n / 10 ^ 8" False] a(2) by (simp add: lit_def v_def)
  have fac: "f_of_int 100000000 = Fin (10 ^ 8)"
    using f_of_int_exact [of 100000000] by simp
  have "Fin v * Fin (10 ^ 8) = fl (v < 0) (v * 10 ^ 8)"
    by (simp add: times_f64_def f_mul_def f_neg_def is_fin_def f_val_def Let_def)
  also have "\<dots> = Fin (round64 (v * 10 ^ 8))"
    using fl_Fin b by blast
  finally have prod: "Fin v * Fin (10 ^ 8) = Fin (round64 (v * 10 ^ 8))" .
  have "in64 n" using assms by (auto simp: in64_def)
  then show ?thesis
    unfolding coin_to_base_units_def lit_v fac prod using b(1) by (rule f_round_near [rotated])
qed

section \<open>NULL mapping and small helpers\<close>

definition null_if_empty :: "string \<Rightarrow> string option" where
  "null_if_empty s = (if trim_space s = '''' then None else Some s)"

definition null_if_nan :: "f64 \<Rightarrow> f64 option" where
  "null_if_nan f = (if is_nan f \<or> is_inf f then None else Some f)"

definition min_int :: "int \<Rightarrow> int \<Rightarrow> int" where
  "min_int a b = (if a < b then a else b)"

text \<open>\<open>short\<close>: at most 16 bytes, the ellipsis in UTF-8 when cut.\<close>

definition short :: "string \<Rightarrow> string" where
  "short h = (if length h \<le> 16 then h else take 16 h @ [CHR 0xE2, CHR 0x80, CHR 0xA6])"

section \<open>RPC errors\<close>

definition is_transient_rpc_err :: "string \<Rightarrow> bool" where
  "is_transient_rpc_err s \<longleftrightarrow>
     contains s ''503'' \<or>
     contains s ''Work queue depth exceeded'' \<or>
     contains s ''context deadline exceeded'' \<or>
     contains s ''connection refused'' \<or>
     contains s ''EOF'' \<or>
     contains s ''connection reset'' \<or>
     contains s ''Loading block index'' \<or>
     contains s (CHR 0x22 # ''code'' @ [CHR 0x22] @ '':-28'')"

lemma is_transient_wrap: "is_transient_rpc_err s \<Longrightarrow> is_transient_rpc_err (a @ s @ b)"
  unfolding is_transient_rpc_err_def using contains_append by blast


section \<open>Properties\<close>

text \<open>Every coin amount of at most 22 million coins that the node prints as a decimal JSON number is
  stored as its exact number of base units: parsing the decimal into a binary64 number, multiplying by
  the factor and rounding half away from zero recovers the integer, for each integer below
  \<open>2 ^ 51\<close> in absolute value.\<close>

theorem coin_to_base_units_roundtrip:
  assumes "\<bar>n\<bar> < 2 ^ 51"
  shows "coin_to_base_units (lit (of_int n / 10 ^ 8)) 100000000 = n"
  using assms by (rule coin_exact)

theorem coin_to_base_units_roundtrip_witness:
  "coin_to_base_units (lit (of_int 123456789 / 10 ^ 8)) 100000000 = 123456789"
  using coin_to_base_units_roundtrip [of 123456789] by simp

text \<open>The algorithm decoded from any version number, however large or negative, is bits 9 to 11 of
  it: one of the eight known algorithms, never the \<open>UNKNOWN\<close> default; the merge-mining flag
  is bit 8.\<close>

theorem version_decoding:
  "decode_algo v \<in> {0 .. 7} \<and> decode_algo v = (wrap64 v div 512) mod 8 \<and>
   algo_id_to_name (decode_algo v) \<noteq> ''UNKNOWN'' \<and> (decode_auxpow v \<longleftrightarrow> bit v 8)"
proof -
  have "decode_algo v \<in> {0 .. 7}" by (rule decode_algo_range)
  then have "decode_algo v = 0 \<or> decode_algo v = 1 \<or> decode_algo v = 2 \<or> decode_algo v = 3 \<or>
      decode_algo v = 4 \<or> decode_algo v = 5 \<or> decode_algo v = 6 \<or> decode_algo v = 7"
    by (simp add: atLeastAtMost_iff) presburger
  then have "algo_id_to_name (decode_algo v) \<noteq> ''UNKNOWN''"
    by (auto simp: algo_id_to_name_def)
  then show ?thesis by (intro conjI decode_algo_range decode_algo_div decode_auxpow_bit)
qed

end
