(* ===== verification/Schema.thy ===== *)
theory Schema
  imports Ingest_Helpers
begin

text \<open>
  The PostgreSQL schema (\<open>database/schema.sql\<close>) as records, one row record per table,
  and the SQL statements of the indexer as functions on the tables. NULL is \<open>None\<close>; the
  columns the database fills itself (\<open>id\<close>, \<open>created_at\<close>, \<open>updated_at\<close>) carry
  no information for the program and are left out. \<open>CHAR(64)\<close> columns are blank-padded on
  storage and compared padded, which \<open>char64\<close> writes out.

  A transaction works on its own copy of the tables. Every statement of the source is one call
  of \<open>exec_tx\<close> or \<open>query_tx\<close>; statement number \<open>k\<close> fails when the fault
  schedule says so, and after a failed statement PostgreSQL refuses every further one until the
  rollback (\<open>x_aborted\<close>). The locale \<open>keyed_table\<close> is the contract of
  \<open>INSERT ... ON CONFLICT DO NOTHING\<close>, interpreted on the four tables.
\<close>

section \<open>Rows\<close>

definition char64 :: "string \<Rightarrow> string" where
  "char64 s = s @ replicate (64 - length s) (CHR '' '')"

record block_row =
  b_height :: int
  b_hash :: string
  b_prev_hash :: "string option"
  b_merkle_root :: "string option"
  b_time_utc :: int
  b_time_unix :: int
  b_version :: int
  b_bits :: "string option"
  b_nonce :: int
  b_size_bytes :: int
  b_weight :: int
  b_difficulty :: "f64 option"
  b_chainwork :: "string option"
  b_tx_count :: int
  b_total_out :: int
  b_fees :: int
  b_algo_id :: int
  b_algo_name :: string
  b_auxpow :: bool
  b_auxpow_sign :: "string option"
  b_coreversion :: "string option"
  b_in_best_chain :: bool

record tx_row =
  t_txid :: string
  t_block_hash :: string
  t_block_height :: int
  t_position :: int
  t_version :: "int option"
  t_locktime :: "int option"
  t_size_bytes :: "int option"
  t_vsize :: "int option"
  t_weight :: "int option"
  t_is_coinbase :: bool
  t_total_in :: int
  t_total_out :: int
  t_fee :: int

record output_row =
  o_txid :: string
  o_vout :: int
  o_value :: int
  o_script_type :: "string option"
  o_script_hex :: "string option"
  o_address :: "string option"
  o_spent_by_txid :: "string option"
  o_spent_by_vin :: "int option"
  o_spent_in_height :: "int option"

record input_row =
  i_txid :: string
  i_vin :: int
  i_prev_txid :: "string option"
  i_prev_vout :: "int option"
  i_script_sig_hex :: "string option"
  i_sequence :: "int option"
  i_prev_value :: "int option"
  i_prev_address :: "string option"
  i_is_coinbase :: bool
  i_coinbase_hex :: "string option"

text \<open>\<open>algo_stats_current\<close>; \<open>a_computed_at\<close> is the time of the write.\<close>

record algo_row =
  a_algo_id :: int
  a_algo_name :: string
  a_difficulty :: f64
  a_hashrate :: f64
  a_peak_hashrate :: f64
  a_money_supply :: int
  a_block_reward :: f64
  a_nominal_block_reward :: f64
  a_nssf_remaining :: int
  a_block_spacing :: f64

text \<open>\<open>chain_state\<close> has at most the row \<open>id = 1\<close>.\<close>

record db =
  d_blocks :: "block_row list"
  d_txs :: "tx_row list"
  d_inputs :: "input_row list"
  d_outputs :: "output_row list"
  d_chain :: "(int \<times> string) option"
  d_algos :: "algo_row list"

definition empty_db :: db where
  "empty_db = \<lparr>d_blocks = [], d_txs = [], d_inputs = [], d_outputs = [], d_chain = None, d_algos = []\<rparr>"

definition i_key :: "input_row \<Rightarrow> string \<times> int" where
  "i_key r = (i_txid r, i_vin r)"

definition o_key :: "output_row \<Rightarrow> string \<times> int" where
  "o_key r = (o_txid r, o_vout r)"

section \<open>Statements\<close>

definition sql_insert_block :: "block_row \<Rightarrow> db \<Rightarrow> db" where
  "sql_insert_block r d = d\<lparr>d_blocks := insert_nc b_hash r (d_blocks d)\<rparr>"

definition sql_insert_tx :: "tx_row \<Rightarrow> db \<Rightarrow> db" where
  "sql_insert_tx r d = d\<lparr>d_txs := insert_nc t_txid r (d_txs d)\<rparr>"

definition sql_insert_input :: "input_row \<Rightarrow> db \<Rightarrow> db" where
  "sql_insert_input r d = d\<lparr>d_inputs := insert_nc i_key r (d_inputs d)\<rparr>"

definition sql_insert_output :: "output_row \<Rightarrow> db \<Rightarrow> db" where
  "sql_insert_output r d = d\<lparr>d_outputs := insert_nc o_key r (d_outputs d)\<rparr>"

text \<open>\<open>SELECT value, address FROM tx_outputs WHERE txid=$1 AND vout=$2\<close>; a NULL vout matches no row.\<close>

definition sql_select_prevout :: "string \<Rightarrow> int option \<Rightarrow> db \<Rightarrow> (int \<times> string option) option" where
  "sql_select_prevout txid vout d =
     map_option (\<lambda>r. (o_value r, o_address r))
       (select_one (\<lambda>r. o_txid r = char64 txid \<and> Some (o_vout r) = vout) (d_outputs d))"

definition sql_update_input_prev :: "int \<Rightarrow> string option \<Rightarrow> string \<Rightarrow> int \<Rightarrow> db \<Rightarrow> db" where
  "sql_update_input_prev val addr txid vin d =
     d\<lparr>d_inputs := update_where (\<lambda>r. i_txid r = char64 txid \<and> i_vin r = vin)
        (\<lambda>r. r\<lparr>i_prev_value := Some val, i_prev_address := addr\<rparr>) (d_inputs d)\<rparr>"

definition sql_mark_spent :: "string \<Rightarrow> int \<Rightarrow> int \<Rightarrow> string \<Rightarrow> int option \<Rightarrow> db \<Rightarrow> db" where
  "sql_mark_spent by_txid by_vin height txid vout d =
     d\<lparr>d_outputs := update_where (\<lambda>r. o_txid r = char64 txid \<and> Some (o_vout r) = vout)
        (\<lambda>r. r\<lparr>o_spent_by_txid := Some (char64 by_txid), o_spent_by_vin := Some by_vin,
               o_spent_in_height := Some height\<rparr>) (d_outputs d)\<rparr>"

text \<open>\<open>chain_state\<close>: the insert of the first start, the read and the update of the tip.\<close>

definition sql_ensure_chain_state :: "db \<Rightarrow> db" where
  "sql_ensure_chain_state d =
     (case d_chain d of
        None \<Rightarrow> d\<lparr>d_chain := Some (-1, replicate 64 (CHR ''0''))\<rparr>
      | Some _ \<Rightarrow> d)"

definition sql_update_chain_state :: "int \<Rightarrow> string \<Rightarrow> db \<Rightarrow> db" where
  "sql_update_chain_state height hash d = d\<lparr>d_chain := map_option (\<lambda>_. (height, char64 hash)) (d_chain d)\<rparr>"

text \<open>
  A loop over \<open>rows.Next\<close> that never asks \<open>rows.Err\<close>: a connection that breaks after \<open>n\<close> rows looks
  like the end of the result.
\<close>

definition delivered :: "nat option \<Rightarrow> 'a list \<Rightarrow> 'a list" where
  "delivered broken xs = (case broken of None \<Rightarrow> xs | Some n \<Rightarrow> take n xs)"

section \<open>Transactions\<close>

record txn =
  x_db :: db
  x_aborted :: bool
  x_clock :: nat

type_synonym fault = "nat \<Rightarrow> string option"

definition err_aborted :: string where
  "err_aborted = ''current transaction is aborted''"

definition exec_tx :: "fault \<Rightarrow> (db \<Rightarrow> db) \<Rightarrow> txn \<Rightarrow> unit result \<times> txn" where
  "exec_tx flt f x =
     (if x_aborted x then (Inl err_aborted, x\<lparr>x_clock := Suc (x_clock x)\<rparr>)
      else case flt (x_clock x) of
             Some e \<Rightarrow> (Inl e, x\<lparr>x_clock := Suc (x_clock x), x_aborted := True\<rparr>)
           | None \<Rightarrow> (Inr (), x\<lparr>x_clock := Suc (x_clock x), x_db := f (x_db x)\<rparr>))"

definition query_tx :: "fault \<Rightarrow> (db \<Rightarrow> 'a) \<Rightarrow> txn \<Rightarrow> 'a result \<times> txn" where
  "query_tx flt q x =
     (if x_aborted x then (Inl err_aborted, x\<lparr>x_clock := Suc (x_clock x)\<rparr>)
      else case flt (x_clock x) of
             Some e \<Rightarrow> (Inl e, x\<lparr>x_clock := Suc (x_clock x), x_aborted := True\<rparr>)
           | None \<Rightarrow> (Inr (q (x_db x)), x\<lparr>x_clock := Suc (x_clock x)\<rparr>))"

text \<open>\<open>if err != nil { return err }\<close> between two statements, and the loop that does it per element.\<close>

definition then_tx ::
  "(txn \<Rightarrow> unit result \<times> txn) \<Rightarrow> (txn \<Rightarrow> unit result \<times> txn) \<Rightarrow> txn \<Rightarrow> unit result \<times> txn" where
  "then_tx m k x = (case m x of (Inl e, x') \<Rightarrow> (Inl e, x') | (Inr _, x') \<Rightarrow> k x')"

fun for_tx :: "('a \<Rightarrow> txn \<Rightarrow> unit result \<times> txn) \<Rightarrow> 'a list \<Rightarrow> txn \<Rightarrow> unit result \<times> txn" where
  "for_tx body [] x = (Inr (), x)"
| "for_tx body (a # as) x = then_tx (body a) (for_tx body as) x"

definition skip_tx :: "txn \<Rightarrow> unit result \<times> txn" where
  "skip_tx x = (Inr (), x)"

section \<open>What a transaction program computes\<close>

text \<open>
  \<open>tx_refines m f\<close>: a run of \<open>m\<close> that reports success has executed exactly
  \<open>f\<close> on the tables and left the transaction usable; a run that reports an error, or that
  started in an aborted transaction, leaves it aborted. This is the contract every statement
  sequence of the indexer meets.
\<close>

definition tx_refines :: "(txn \<Rightarrow> unit result \<times> txn) \<Rightarrow> (db \<Rightarrow> db) \<Rightarrow> bool" where
  "tx_refines m f \<longleftrightarrow>
     (\<forall>x r x'. m x = (r, x') \<longrightarrow>
        x_clock x \<le> x_clock x' \<and>
        (x_aborted x \<longrightarrow> x_aborted x') \<and>
        (is_ok r \<and> \<not> x_aborted x \<longrightarrow> x_db x' = f (x_db x) \<and> \<not> x_aborted x') \<and>
        (\<not> is_ok r \<longrightarrow> x_aborted x'))"

lemma tx_refinesI:
  assumes "\<And>x r x'. m x = (r, x') \<Longrightarrow> x_clock x \<le> x_clock x'"
    and "\<And>x r x'. m x = (r, x') \<Longrightarrow> x_aborted x \<Longrightarrow> x_aborted x'"
    and "\<And>x x'. m x = (Inr (), x') \<Longrightarrow> \<not> x_aborted x \<Longrightarrow> x_db x' = f (x_db x) \<and> \<not> x_aborted x'"
    and "\<And>x e x'. m x = (Inl e, x') \<Longrightarrow> x_aborted x'"
  shows "tx_refines m f"
  using assms unfolding tx_refines_def is_ok_def by (auto split: sum.splits)

lemma tx_refinesD:
  assumes "tx_refines m f" and "m x = (r, x')"
  shows "x_clock x \<le> x_clock x'"
    and "x_aborted x \<Longrightarrow> x_aborted x'"
    and "is_ok r \<Longrightarrow> \<not> x_aborted x \<Longrightarrow> x_db x' = f (x_db x)"
    and "is_ok r \<Longrightarrow> \<not> x_aborted x \<Longrightarrow> \<not> x_aborted x'"
    and "\<not> is_ok r \<Longrightarrow> x_aborted x'"
  using assms unfolding tx_refines_def by blast+

lemma tx_refines_exec: "tx_refines (exec_tx flt f) f"
  by (rule tx_refinesI) (auto simp: exec_tx_def split: if_splits option.splits)

lemma tx_refines_skip: "tx_refines skip_tx id"
  by (rule tx_refinesI) (auto simp: skip_tx_def)

lemma tx_refines_then:
  assumes m: "tx_refines m f" and k: "tx_refines k g"
  shows "tx_refines (then_tx m k) (g \<circ> f)"
proof (rule tx_refinesI)
  fix x r x' assume run: "then_tx m k x = (r, x')"
  obtain r1 x1 where m1: "m x = (r1, x1)" by fastforce
  note M = tx_refinesD [OF m m1]
  show "x_clock x \<le> x_clock x'"
  proof (cases r1)
    case (Inr u)
    then have "k x1 = (r, x')" using run m1 by (simp add: then_tx_def)
    then show ?thesis using tx_refinesD(1) [OF k] M(1) le_trans by blast
  qed (use run m1 M(1) in \<open>simp add: then_tx_def\<close>)
  assume "x_aborted x"
  then show "x_aborted x'"
    using run m1 M(2) tx_refinesD(2) [OF k] by (cases r1) (auto simp: then_tx_def)
next
  fix x x' assume run: "then_tx m k x = (Inr (), x')" and ok: "\<not> x_aborted x"
  obtain r1 x1 where m1: "m x = (r1, x1)" by fastforce
  note M = tx_refinesD [OF m m1]
  from run m1 obtain u where r1: "r1 = Inr u" and k1: "k x1 = (Inr (), x')"
    by (cases r1) (auto simp: then_tx_def)
  show "x_db x' = (g \<circ> f) (x_db x) \<and> \<not> x_aborted x'"
    using M ok r1 tx_refinesD [OF k k1] by simp
next
  fix x e x' assume run: "then_tx m k x = (Inl e, x')"
  obtain r1 x1 where m1: "m x = (r1, x1)" by fastforce
  show "x_aborted x'"
    using run m1 tx_refinesD(5) [OF m m1] tx_refinesD(5) [OF k]
    by (cases r1) (auto simp: then_tx_def is_ok_def)
qed

lemma tx_refines_for:
  assumes "\<And>a. a \<in> set as \<Longrightarrow> tx_refines (body a) (f a)"
  shows "tx_refines (for_tx body as) (fold f as)"
  using assms
proof (induction as)
  case Nil
  have "for_tx body [] = skip_tx" by (rule ext) (simp add: skip_tx_def)
  then show ?case using tx_refines_skip by (simp add: id_def)
next
  case (Cons a as)
  have "for_tx body (a # as) = then_tx (body a) (for_tx body as)" by (rule ext) simp
  then show ?case using Cons tx_refines_then [of "body a" "f a" "for_tx body as" "fold f as"]
    by (simp add: comp_def)
qed

text \<open>
  A read whose error the code ignores: on a fault the transaction is aborted and the value is the
  default, so the statements after it fail.
\<close>

definition query_ignore :: "fault \<Rightarrow> (db \<Rightarrow> 'a) \<Rightarrow> 'a \<Rightarrow> ('a \<Rightarrow> txn \<Rightarrow> unit result \<times> txn)
    \<Rightarrow> txn \<Rightarrow> unit result \<times> txn" where
  "query_ignore flt q dflt k x =
     (case query_tx flt q x of (Inl _, x') \<Rightarrow> k dflt x' | (Inr v, x') \<Rightarrow> k v x')"

text \<open>A program whose first statement an aborted transaction refuses.\<close>

definition strict_tx :: "(txn \<Rightarrow> unit result \<times> txn) \<Rightarrow> bool" where
  "strict_tx m \<longleftrightarrow> (\<forall>x. x_aborted x \<longrightarrow> \<not> is_ok (fst (m x)))"

lemma strict_exec: "strict_tx (exec_tx flt f)"
  by (simp add: strict_tx_def exec_tx_def)

lemma strict_then: "strict_tx m \<Longrightarrow> strict_tx (then_tx m k)"
  by (auto simp: strict_tx_def then_tx_def is_ok_def split: prod.splits sum.splits)

lemma query_tx_cases:
  obtains (ok) x0 where "query_tx flt q x = (Inr (q (x_db x)), x0)" "x_db x0 = x_db x"
      "\<not> x_aborted x" "\<not> x_aborted x0" "x_clock x0 = Suc (x_clock x)"
  | (fail) e x0 where "query_tx flt q x = (Inl e, x0)" "x_aborted x0" "x_clock x0 = Suc (x_clock x)"
proof (cases "x_aborted x")
  case True
  then show thesis
    using fail [of err_aborted "x\<lparr>x_clock := Suc (x_clock x)\<rparr>"] by (simp add: query_tx_def)
next
  case False
  then show thesis
    using ok [of "x\<lparr>x_clock := Suc (x_clock x)\<rparr>"]
      fail [of "the (flt (x_clock x))" "x\<lparr>x_clock := Suc (x_clock x), x_aborted := True\<rparr>"]
    by (cases "flt (x_clock x)") (simp_all add: query_tx_def)
qed

lemma tx_refines_query_ignore:
  assumes k: "\<And>v. tx_refines (k v) (g v)" and strict: "\<And>v. strict_tx (k v)"
  shows "tx_refines (query_ignore flt q dflt k) (\<lambda>d. g (q d) d)"
  unfolding tx_refines_def
proof (intro allI impI)
  fix x r x' assume run: "query_ignore flt q dflt k x = (r, x')"
  show "x_clock x \<le> x_clock x' \<and> (x_aborted x \<longrightarrow> x_aborted x') \<and>
      (is_ok r \<and> \<not> x_aborted x \<longrightarrow> x_db x' = g (q (x_db x)) (x_db x) \<and> \<not> x_aborted x') \<and>
      (\<not> is_ok r \<longrightarrow> x_aborted x')"
  proof (cases rule: query_tx_cases [of flt q x])
    case (ok x0)
    then have "k (q (x_db x)) x0 = (r, x')" using run by (simp add: query_ignore_def)
    note K = tx_refinesD [OF k this]
    show ?thesis using K ok by auto
  next
    case (fail e x0)
    then have k0: "k dflt x0 = (r, x')" using run by (simp add: query_ignore_def)
    note K = tx_refinesD [OF k k0]
    have "\<not> is_ok r" using strict fail k0 by (metis fst_conv strict_tx_def)
    then show ?thesis using K fail by auto
  qed
qed

section \<open>The contract of INSERT ... ON CONFLICT DO NOTHING\<close>

text \<open>
  A client of a table knows that an insert of a present key changes nothing and that an insert of
  an absent key adds the row at the end. Everything the indexer relies on follows: keys stay
  unique, stored rows are never overwritten, a repeated insert has no effect.
\<close>

locale keyed_table =
  fixes key :: "'r \<Rightarrow> 'k" and rows :: "'d \<Rightarrow> 'r list" and ins :: "'r \<Rightarrow> 'd \<Rightarrow> 'd"
  assumes ins_present: "key r \<in> set (map key (rows d)) \<Longrightarrow> ins r d = d"
    and ins_absent: "key r \<notin> set (map key (rows d)) \<Longrightarrow> rows (ins r d) = rows d @ [r]"
begin

lemma rows_ins: "rows (ins r d) = (if key r \<in> set (map key (rows d)) then rows d else rows d @ [r])"
  using ins_present ins_absent by (cases "key r \<in> set (map key (rows d))") auto

lemma keys_ins: "set (map key (rows (ins r d))) = insert (key r) (set (map key (rows d)))"
  by (auto simp: rows_ins)

lemma distinct_ins: "distinct (map key (rows d)) \<Longrightarrow> distinct (map key (rows (ins r d)))"
  by (auto simp: rows_ins)

lemma write_once: "s \<in> set (rows d) \<Longrightarrow> s \<in> set (rows (ins r d))"
  by (auto simp: rows_ins)

lemma ins_idem: "ins r (ins r d) = ins r d"
  by (rule ins_present) (simp only: keys_ins insertI1)

lemma ins_mem: "s \<in> set (rows (ins r d)) \<Longrightarrow> s \<in> set (rows d) \<or> s = r"
  by (auto simp: rows_ins split: if_splits)

lemma lookup_ins_same:
  "key r \<notin> set (map key (rows d)) \<Longrightarrow> find (\<lambda>s. key s = key r) (rows (ins r d)) = Some r"
proof -
  assume new: "key r \<notin> set (map key (rows d))"
  then have "find (\<lambda>s. key s = key r) (rows d) = None"
    by (auto simp: find_None_iff) (metis image_eqI)
  with new show ?thesis by (simp add: rows_ins find_snoc)
qed

lemma lookup_ins_other:
  "k \<noteq> key r \<Longrightarrow> find (\<lambda>s. key s = k) (rows (ins r d)) = find (\<lambda>s. key s = k) (rows d)"
proof -
  have "find (\<lambda>s. key s = k) (xs @ [r]) = find (\<lambda>s. key s = k) xs" if "k \<noteq> key r" for xs
    using that by (induction xs) auto
  then show "k \<noteq> key r \<Longrightarrow> ?thesis" by (simp add: rows_ins)
qed

text \<open>The same for a loop of inserts.\<close>

lemma rows_fold_mono: "set (rows d) \<subseteq> set (rows (fold (\<lambda>x. ins (g x)) xs d))"
proof (induction xs arbitrary: d)
  case (Cons x xs)
  have "set (rows d) \<subseteq> set (rows (ins (g x) d))" using write_once by blast
  also have "\<dots> \<subseteq> set (rows (fold (\<lambda>x. ins (g x)) xs (ins (g x) d)))" by (rule Cons.IH)
  finally show ?case by simp
qed simp

lemma rows_fold_mem:
  "s \<in> set (rows (fold (\<lambda>x. ins (g x)) xs d)) \<Longrightarrow> s \<in> set (rows d) \<or> s \<in> g ` set xs"
proof (induction xs arbitrary: d)
  case (Cons x xs)
  then have "s \<in> set (rows (ins (g x) d)) \<or> s \<in> g ` set xs" by simp
  then show ?case using ins_mem by auto
qed simp

lemma keys_fold:
  "set (map key (rows (fold (\<lambda>x. ins (g x)) xs d))) = set (map key (rows d)) \<union> (\<lambda>x. key (g x)) ` set xs"
proof (induction xs arbitrary: d)
  case (Cons x xs)
  have "set (map key (rows (fold (\<lambda>x. ins (g x)) (x # xs) d))) =
      set (map key (rows (ins (g x) d))) \<union> (\<lambda>x. key (g x)) ` set xs"
    by (simp only: fold_simps Cons.IH)
  then show ?case unfolding keys_ins by auto
qed simp

lemma rows_fold_new:
  "distinct (map (\<lambda>x. key (g x)) xs) \<Longrightarrow>
   (\<And>x. x \<in> set xs \<Longrightarrow> key (g x) \<notin> set (map key (rows d))) \<Longrightarrow>
   rows (fold (\<lambda>x. ins (g x)) xs d) = rows d @ map g xs"
proof (induction xs arbitrary: d)
  case (Cons x xs)
  have new: "rows (ins (g x) d) = rows d @ [g x]" by (rule ins_absent) (simp only: Cons.prems list.set_intros not_False_eq_True)
  have "rows (fold (\<lambda>x. ins (g x)) xs (ins (g x) d)) = rows (ins (g x) d) @ map g xs"
  proof (rule Cons.IH)
    show "distinct (map (\<lambda>x. key (g x)) xs)" using Cons.prems(1) by simp
    fix y assume y: "y \<in> set xs"
    have "key (g y) \<noteq> key (g x)" using Cons.prems(1) y by (auto simp: image_iff)
    then show "key (g y) \<notin> set (map key (rows (ins (g x) d)))"
      unfolding keys_ins using Cons.prems(2) [of y] y by simp
  qed
  then show ?case using new by simp
qed simp

lemma distinct_fold: "distinct (map key (rows d)) \<Longrightarrow> distinct (map key (rows (fold (\<lambda>x. ins (g x)) xs d)))"
proof (induction xs arbitrary: d)
  case (Cons x xs)
  then show ?case using Cons.IH [OF distinct_ins] by simp
qed simp

text \<open>Inserts of present rows do nothing, so a repeated loop does nothing.\<close>

lemma fold_present:
  "(\<And>x. x \<in> set xs \<Longrightarrow> key (g x) \<in> set (map key (rows d))) \<Longrightarrow> fold (\<lambda>x. ins (g x)) xs d = d"
proof (induction xs)
  case (Cons x xs)
  have "ins (g x) d = d" by (rule ins_present) (rule Cons.prems, simp)
  then show ?case using Cons by simp
qed simp

end

interpretation blocks_table: keyed_table b_hash d_blocks sql_insert_block
  by unfold_locales (auto simp: sql_insert_block_def insert_nc_def)

interpretation txs_table: keyed_table t_txid d_txs sql_insert_tx
  by unfold_locales (auto simp: sql_insert_tx_def insert_nc_def)

interpretation inputs_table: keyed_table i_key d_inputs sql_insert_input
  by unfold_locales (auto simp: sql_insert_input_def insert_nc_def)

interpretation outputs_table: keyed_table o_key d_outputs sql_insert_output
  by unfold_locales (auto simp: sql_insert_output_def insert_nc_def)

section \<open>Frame facts of the statements\<close>

text \<open>Which tables each statement leaves alone.\<close>

lemma sql_frames [table_simps]:
  "d_txs (sql_insert_block r d) = d_txs d" "d_inputs (sql_insert_block r d) = d_inputs d"
  "d_outputs (sql_insert_block r d) = d_outputs d" "d_chain (sql_insert_block r d) = d_chain d"
  "d_blocks (sql_insert_tx t d) = d_blocks d" "d_inputs (sql_insert_tx t d) = d_inputs d"
  "d_outputs (sql_insert_tx t d) = d_outputs d" "d_chain (sql_insert_tx t d) = d_chain d"
  "d_blocks (sql_insert_input i d) = d_blocks d" "d_txs (sql_insert_input i d) = d_txs d"
  "d_outputs (sql_insert_input i d) = d_outputs d" "d_chain (sql_insert_input i d) = d_chain d"
  "d_blocks (sql_insert_output p d) = d_blocks d" "d_txs (sql_insert_output p d) = d_txs d"
  "d_inputs (sql_insert_output p d) = d_inputs d" "d_chain (sql_insert_output p d) = d_chain d"
  "d_blocks (sql_update_input_prev v a x n d) = d_blocks d"
  "d_txs (sql_update_input_prev v a x n d) = d_txs d"
  "d_outputs (sql_update_input_prev v a x n d) = d_outputs d"
  "d_chain (sql_update_input_prev v a x n d) = d_chain d"
  "d_blocks (sql_mark_spent u m h y w d) = d_blocks d"
  "d_txs (sql_mark_spent u m h y w d) = d_txs d"
  "d_inputs (sql_mark_spent u m h y w d) = d_inputs d"
  "d_chain (sql_mark_spent u m h y w d) = d_chain d"
  by (simp_all add: sql_insert_block_def sql_insert_tx_def sql_insert_input_def sql_insert_output_def
      sql_update_input_prev_def sql_mark_spent_def)

lemma sql_algo_frames [table_simps]:
  "d_algos (sql_insert_block r d) = d_algos d" "d_algos (sql_insert_tx t d) = d_algos d"
  "d_algos (sql_insert_input i d) = d_algos d" "d_algos (sql_insert_output p d) = d_algos d"
  "d_algos (sql_update_input_prev v a x n d) = d_algos d"
  "d_algos (sql_mark_spent u m h y w d) = d_algos d"
  by (simp_all add: sql_insert_block_def sql_insert_tx_def sql_insert_input_def sql_insert_output_def
      sql_update_input_prev_def sql_mark_spent_def)

lemma char64_char64 [simp]: "char64 (char64 s) = char64 s"
  by (simp add: char64_def)

text \<open>Reading a padded column back and trimming it gives the stored text.\<close>

lemma trim_char64: "s \<noteq> [] \<Longrightarrow> graphic (hd s) \<Longrightarrow> graphic (last s) \<Longrightarrow> trim_space (char64 s) = s"
  unfolding char64_def by (rule trim_space_padded)

end
