(* ===== verification/Ingest_Block.thy ===== *)
theory Ingest_Block
  imports Schema
begin

text \<open>
  \<open>Ingestor.insertBlockBundle\<close>: the rows a decoded block becomes and the order of the
  statements that write them. First the rows, then the handler as a transaction program over the
  faulty statements of \<open>Schema\<close>, then its effect on the tables as a pure function and the
  refinement between the two. On top of that: the ledger view of the output table (its unspent
  outputs) and the abstract UTXO transition it implements, the linking of inputs to the outputs
  they spend, and the write-once behaviour of the block table.
\<close>

section \<open>Rows of a block\<close>

text \<open>The int64 accumulators of the source wrap.\<close>

definition sum_base_units :: "int \<Rightarrow> TxOut list \<Rightarrow> int \<Rightarrow> int" where
  "sum_base_units factor vs acc0 =
     fold (\<lambda>v acc. wrap64 (acc + coin_to_base_units (out_value v) factor)) vs acc0"

definition block_total_out :: "int \<Rightarrow> BlockV2 \<Rightarrow> int" where
  "block_total_out factor b = fold (\<lambda>t acc. sum_base_units factor (tx_vout t) acc) (blk_tx b) 0"

definition block_row_of :: "int \<Rightarrow> BlockV2 \<Rightarrow> block_row" where
  "block_row_of factor b =
     (let aID = decode_algo (blk_version b);
          isAuxPow = (decode_auxpow (blk_version b) \<or> blk_auxpow b);
          auxPowSign = (if isAuxPow \<and> blk_auxpow_sign b = '''' then ''merge-mined''
                        else blk_auxpow_sign b);
          weightedDiff = blk_difficulty b * algo_weight aID
      in \<lparr>b_height = blk_height b, b_hash = char64 (blk_hash b),
          b_prev_hash = map_option char64 (null_if_empty (blk_prev_hash b)),
          b_merkle_root = map_option char64 (null_if_empty (blk_merkle_root b)),
          b_time_utc = blk_time b, b_time_unix = blk_time b,
          b_version = blk_version b, b_bits = null_if_empty (blk_bits b),
          b_nonce = wrap64 (blk_nonce b), b_size_bytes = blk_size b, b_weight = blk_weight b,
          b_difficulty = null_if_nan weightedDiff, b_chainwork = null_if_empty (blk_chain_work b),
          b_tx_count = int (length (blk_tx b)), b_total_out = block_total_out factor b, b_fees = 0,
          b_algo_id = aID, b_algo_name = algo_id_to_name aID, b_auxpow = isAuxPow,
          b_auxpow_sign = null_if_empty auxPowSign,
          b_coreversion = null_if_empty (blk_core_version b), b_in_best_chain = True\<rparr>)"

definition is_coinbase_tx :: "TxV2 \<Rightarrow> bool" where
  "is_coinbase_tx t = (case tx_vin t of [] \<Rightarrow> False | v # _ \<Rightarrow> in_coinbase v \<noteq> '''')"

definition tx_row_of :: "int \<Rightarrow> BlockV2 \<Rightarrow> nat \<Rightarrow> TxV2 \<Rightarrow> tx_row" where
  "tx_row_of factor b pos t =
     \<lparr>t_txid = char64 (tx_txid t), t_block_hash = char64 (blk_hash b), t_block_height = blk_height b,
      t_position = int pos, t_version = tx_version t, t_locktime = tx_locktime t,
      t_size_bytes = tx_size t, t_vsize = tx_vsize t, t_weight = tx_weight t,
      t_is_coinbase = is_coinbase_tx t, t_total_in = 0,
      t_total_out = sum_base_units factor (tx_vout t) 0, t_fee = 0\<rparr>"

definition input_row_of :: "TxV2 \<Rightarrow> nat \<Rightarrow> TxIn \<Rightarrow> input_row" where
  "input_row_of t vinIdx vin =
     (if in_coinbase vin \<noteq> '''' then
        \<lparr>i_txid = char64 (tx_txid t), i_vin = int vinIdx, i_prev_txid = None, i_prev_vout = None,
         i_script_sig_hex = None, i_sequence = in_sequence vin, i_prev_value = None,
         i_prev_address = None, i_is_coinbase = True, i_coinbase_hex = Some (in_coinbase vin)\<rparr>
      else
        \<lparr>i_txid = char64 (tx_txid t), i_vin = int vinIdx,
         i_prev_txid = map_option char64 (null_if_empty (in_txid vin)), i_prev_vout = in_vout vin,
         i_script_sig_hex = null_if_empty (ss_hex (in_script_sig vin)),
         i_sequence = in_sequence vin, i_prev_value = None, i_prev_address = None,
         i_is_coinbase = False, i_coinbase_hex = None\<rparr>)"

definition output_row_of :: "int \<Rightarrow> TxV2 \<Rightarrow> TxOut \<Rightarrow> output_row" where
  "output_row_of factor t vout =
     \<lparr>o_txid = char64 (tx_txid t), o_vout = out_n vout,
      o_value = coin_to_base_units (out_value vout) factor,
      o_script_type = null_if_empty (spk_type (out_spk vout)),
      o_script_hex = null_if_empty (spk_hex (out_spk vout)),
      o_address = null_if_empty (first_address (out_spk vout)),
      o_spent_by_txid = None, o_spent_by_vin = None, o_spent_in_height = None\<rparr>"

section \<open>The handler\<close>

text \<open>
  The value Go's \<open>Scan\<close> leaves when no row was found (or the query failed): the zero
  value of \<open>prevVal\<close> and a nil address.
\<close>

definition prev_or_zero :: "(int \<times> string option) option \<Rightarrow> int \<times> string option" where
  "prev_or_zero r = (case r of None \<Rightarrow> (0, None) | Some va \<Rightarrow> va)"

definition link_input :: "fault \<Rightarrow> BlockV2 \<Rightarrow> TxV2 \<Rightarrow> nat \<times> TxIn \<Rightarrow> txn \<Rightarrow> unit result \<times> txn" where
  "link_input flt b t iv =
     (let vinIdx = int (fst iv); vin = snd iv
      in if in_txid vin = '''' then skip_tx
         else query_ignore flt (\<lambda>d. prev_or_zero (sql_select_prevout (in_txid vin) (in_vout vin) d))
                (0, None)
                (\<lambda>prev. then_tx
                   (exec_tx flt (sql_update_input_prev (fst prev) (snd prev) (tx_txid t) vinIdx))
                   (exec_tx flt (sql_mark_spent (tx_txid t) vinIdx (blk_height b)
                                   (in_txid vin) (in_vout vin)))))"

definition insert_tx_bundle :: "fault \<Rightarrow> int \<Rightarrow> BlockV2 \<Rightarrow> nat \<times> TxV2 \<Rightarrow> txn \<Rightarrow> unit result \<times> txn" where
  "insert_tx_bundle flt factor b pt =
     (let pos = fst pt; t = snd pt
      in then_tx (exec_tx flt (sql_insert_tx (tx_row_of factor b pos t)))
          (then_tx
             (for_tx (\<lambda>iv. exec_tx flt (sql_insert_input (input_row_of t (fst iv) (snd iv))))
                (enumerate 0 (tx_vin t)))
             (then_tx
                (for_tx (\<lambda>vout. exec_tx flt (sql_insert_output (output_row_of factor t vout))) (tx_vout t))
                (if is_coinbase_tx t then skip_tx
                 else for_tx (link_input flt b t) (enumerate 0 (tx_vin t))))))"

definition insert_block_bundle :: "fault \<Rightarrow> int \<Rightarrow> BlockV2 \<Rightarrow> txn \<Rightarrow> unit result \<times> txn" where
  "insert_block_bundle flt factor b =
     then_tx (exec_tx flt (sql_insert_block (block_row_of factor b)))
       (for_tx (insert_tx_bundle flt factor b) (enumerate 0 (blk_tx b)))"

section \<open>Its effect on the tables\<close>

definition link_effect :: "BlockV2 \<Rightarrow> TxV2 \<Rightarrow> nat \<times> TxIn \<Rightarrow> db \<Rightarrow> db" where
  "link_effect b t iv d =
     (let vinIdx = int (fst iv); vin = snd iv;
          prev = prev_or_zero (sql_select_prevout (in_txid vin) (in_vout vin) d)
      in if in_txid vin = '''' then d
         else sql_mark_spent (tx_txid t) vinIdx (blk_height b) (in_txid vin) (in_vout vin)
                (sql_update_input_prev (fst prev) (snd prev) (tx_txid t) vinIdx d))"

definition inputs_effect :: "TxV2 \<Rightarrow> db \<Rightarrow> db" where
  "inputs_effect t =
     fold (\<lambda>iv. sql_insert_input (input_row_of t (fst iv) (snd iv))) (enumerate 0 (tx_vin t))"

definition outputs_effect :: "int \<Rightarrow> TxV2 \<Rightarrow> db \<Rightarrow> db" where
  "outputs_effect factor t = fold (\<lambda>vout. sql_insert_output (output_row_of factor t vout)) (tx_vout t)"

definition links_effect :: "BlockV2 \<Rightarrow> TxV2 \<Rightarrow> db \<Rightarrow> db" where
  "links_effect b t =
     (if is_coinbase_tx t then id else fold (link_effect b t) (enumerate 0 (tx_vin t)))"

definition tx_effect :: "int \<Rightarrow> BlockV2 \<Rightarrow> nat \<times> TxV2 \<Rightarrow> db \<Rightarrow> db" where
  "tx_effect factor b pt d =
     (let pos = fst pt; t = snd pt
      in links_effect b t (outputs_effect factor t (inputs_effect t
           (sql_insert_tx (tx_row_of factor b pos t) d))))"

definition block_effect :: "int \<Rightarrow> BlockV2 \<Rightarrow> db \<Rightarrow> db" where
  "block_effect factor b d =
     fold (tx_effect factor b) (enumerate 0 (blk_tx b)) (sql_insert_block (block_row_of factor b) d)"

lemma link_input_refines: "tx_refines (link_input flt b t iv) (link_effect b t iv)"
proof (cases "in_txid (snd iv) = ''''")
  case True
  then have "link_effect b t iv = id" "link_input flt b t iv = skip_tx"
    by (auto simp: link_effect_def link_input_def fun_eq_iff Let_def)
  then show ?thesis using tx_refines_skip by simp
next
  case False
  let ?k = "\<lambda>prev. then_tx
      (exec_tx flt (sql_update_input_prev (fst prev) (snd prev) (tx_txid t) (int (fst iv))))
      (exec_tx flt (sql_mark_spent (tx_txid t) (int (fst iv)) (blk_height b) (in_txid (snd iv)) (in_vout (snd iv))))"
  let ?g = "\<lambda>prev. sql_mark_spent (tx_txid t) (int (fst iv)) (blk_height b) (in_txid (snd iv)) (in_vout (snd iv))
      \<circ> sql_update_input_prev (fst prev) (snd prev) (tx_txid t) (int (fst iv))"
  have "tx_refines (?k v) (?g v)" for v
    by (intro tx_refines_then tx_refines_exec)
  moreover have "strict_tx (?k v)" for v by (intro strict_then strict_exec)
  ultimately have "tx_refines
      (query_ignore flt (\<lambda>d. prev_or_zero (sql_select_prevout (in_txid (snd iv)) (in_vout (snd iv)) d))
         (0, None) ?k)
      (\<lambda>d. ?g (prev_or_zero (sql_select_prevout (in_txid (snd iv)) (in_vout (snd iv)) d)) d)"
    by (rule tx_refines_query_ignore)
  moreover have "(\<lambda>d. ?g (prev_or_zero (sql_select_prevout (in_txid (snd iv)) (in_vout (snd iv)) d)) d)
      = link_effect b t iv"
    using False by (intro ext) (simp add: link_effect_def Let_def)
  ultimately show ?thesis using False by (simp add: link_input_def Let_def)
qed

lemma insert_tx_bundle_refines: "tx_refines (insert_tx_bundle flt factor b pt) (tx_effect factor b pt)"
proof -
  let ?t = "snd pt"
  have "tx_refines (if is_coinbase_tx ?t then skip_tx else for_tx (link_input flt b ?t) (enumerate 0 (tx_vin ?t)))
      (links_effect b ?t)"
    by (auto simp: links_effect_def tx_refines_skip intro: tx_refines_for link_input_refines)
  then have "tx_refines (insert_tx_bundle flt factor b pt)
      (((links_effect b ?t \<circ> outputs_effect factor ?t) \<circ> inputs_effect ?t)
        \<circ> sql_insert_tx (tx_row_of factor b (fst pt) ?t))"
    unfolding insert_tx_bundle_def Let_def outputs_effect_def inputs_effect_def
    by (intro tx_refines_then tx_refines_exec tx_refines_for)
  then show ?thesis by (simp add: tx_effect_def [abs_def] comp_def Let_def)
qed

lemma insert_block_bundle_refines:
  "tx_refines (insert_block_bundle flt factor b) (block_effect factor b)"
proof -
  have "tx_refines (insert_block_bundle flt factor b)
      (fold (tx_effect factor b) (enumerate 0 (blk_tx b)) \<circ> sql_insert_block (block_row_of factor b))"
    unfolding insert_block_bundle_def
    by (intro tx_refines_then tx_refines_exec tx_refines_for insert_tx_bundle_refines)
  then show ?thesis by (simp add: block_effect_def [abs_def] comp_def)
qed

section \<open>The ledger a database represents\<close>

text \<open>
  Abstractly, the output table is a ledger: a partial map from outpoints to the value and address
  of the outputs nobody has spent. A transaction adds its outputs and then removes the outpoints
  its inputs name.
\<close>

type_synonym outpoint = "string \<times> int"
type_synonym ledger = "outpoint \<rightharpoonup> int \<times> string option"

definition find_output :: "db \<Rightarrow> outpoint \<Rightarrow> output_row option" where
  "find_output d k = find (\<lambda>r. o_key r = k) (d_outputs d)"

definition utxo :: "db \<Rightarrow> ledger" where
  "utxo d k =
     (case find_output d k of
        None \<Rightarrow> None
      | Some r \<Rightarrow> (if o_spent_by_txid r = None then Some (o_value r, o_address r) else None))"

definition spends :: "TxIn \<Rightarrow> outpoint option" where
  "spends vin = (if in_txid vin = '''' then None
     else map_option (\<lambda>n. (char64 (in_txid vin), n)) (in_vout vin))"

definition ledger_add :: "int \<Rightarrow> TxV2 \<Rightarrow> ledger \<Rightarrow> ledger" where
  "ledger_add factor t L =
     fold (\<lambda>vout L. L((char64 (tx_txid t), out_n vout) \<mapsto>
            (coin_to_base_units (out_value vout) factor,
             null_if_empty (first_address (out_spk vout))))) (tx_vout t) L"

definition ledger_spend :: "TxIn \<Rightarrow> ledger \<Rightarrow> ledger" where
  "ledger_spend vin L = (case spends vin of None \<Rightarrow> L | Some k \<Rightarrow> L(k := None))"

definition ledger_tx :: "int \<Rightarrow> TxV2 \<Rightarrow> ledger \<Rightarrow> ledger" where
  "ledger_tx factor t L =
     (let L' = ledger_add factor t L
      in if is_coinbase_tx t then L' else fold ledger_spend (tx_vin t) L')"

definition ledger_block :: "int \<Rightarrow> BlockV2 \<Rightarrow> ledger \<Rightarrow> ledger" where
  "ledger_block factor b L = fold (ledger_tx factor) (blk_tx b) L"

text \<open>The transaction id and the output numbers are new to the output table.\<close>

definition fresh_tx :: "db \<Rightarrow> TxV2 \<Rightarrow> bool" where
  "fresh_tx d t \<longleftrightarrow> distinct (map out_n (tx_vout t)) \<and> char64 (tx_txid t) \<notin> o_txid ` set (d_outputs d)"

definition fresh_block :: "db \<Rightarrow> BlockV2 \<Rightarrow> bool" where
  "fresh_block d b \<longleftrightarrow>
     distinct (map (\<lambda>t. char64 (tx_txid t)) (blk_tx b)) \<and> (\<forall>t \<in> set (blk_tx b). fresh_tx d t)"

lemma find_map_filter:
  "(\<And>r. p (f r) = p r) \<Longrightarrow> find p (map f xs) = map_option f (find p xs)"
  by (induction xs) auto

lemma find_output_mark:
  "find_output (sql_mark_spent y w h x n d) k =
     map_option (\<lambda>r. if o_txid r = char64 x \<and> Some (o_vout r) = n
        then r\<lparr>o_spent_by_txid := Some (char64 y), o_spent_by_vin := Some w, o_spent_in_height := Some h\<rparr>
        else r) (find_output d k)"
  unfolding find_output_def sql_mark_spent_def update_where_def
  by (simp add: find_map_filter o_key_def)

lemma find_output_key: "find_output d k = Some r \<Longrightarrow> o_key r = k \<and> r \<in> set (d_outputs d)"
  unfolding find_output_def by (auto dest: find_Some_mem)

lemma find_output_frames [table_simps]:
  "find_output (sql_update_input_prev v a x n d) = find_output d"
  "find_output (sql_insert_tx tr d) = find_output d"
  "find_output (sql_insert_input ir d) = find_output d"
  "find_output (sql_insert_block br d) = find_output d"
  by (rule ext, simp add: find_output_def table_simps)+

lemma utxo_frames [table_simps]:
  "utxo (sql_update_input_prev v a x n d) = utxo d"
  "utxo (sql_insert_tx tr d) = utxo d"
  "utxo (sql_insert_input ir d) = utxo d"
  "utxo (sql_insert_block br d) = utxo d"
  by (rule ext, simp add: utxo_def table_simps)+

lemma utxo_mark:
  "utxo (sql_mark_spent y w h x n d) =
     (case n of None \<Rightarrow> utxo d | Some m \<Rightarrow> (utxo d)((char64 x, m) := None))"
proof (rule ext)
  fix k
  show "utxo (sql_mark_spent y w h x n d) k =
     (case n of None \<Rightarrow> utxo d | Some m \<Rightarrow> (utxo d)((char64 x, m) := None)) k"
    using find_output_key [of d k]
    by (cases "find_output d k"; cases n)
      (auto simp: utxo_def find_output_mark o_key_def)
qed

lemma utxo_link: "utxo (link_effect b t iv d) = ledger_spend (snd iv) (utxo d)"
  by (auto simp: link_effect_def ledger_spend_def spends_def utxo_mark table_simps Let_def
      split: option.splits)

lemma utxo_links:
  "utxo (links_effect b t d) =
     (if is_coinbase_tx t then utxo d else fold ledger_spend (tx_vin t) (utxo d))"
proof -
  have "utxo (fold (link_effect b t) (enumerate k vs) d) = fold ledger_spend vs (utxo d)" for k vs
    by (induction vs arbitrary: k d) (simp_all add: utxo_link)
  then show ?thesis by (simp add: links_effect_def)
qed

lemma utxo_insert_output:
  assumes "o_key r \<notin> set (map o_key (d_outputs d))" and "o_spent_by_txid r = None"
  shows "utxo (sql_insert_output r d) = (utxo d)(o_key r \<mapsto> (o_value r, o_address r))"
proof (rule ext)
  fix k
  show "utxo (sql_insert_output r d) k = ((utxo d)(o_key r \<mapsto> (o_value r, o_address r))) k"
    using assms outputs_table.lookup_ins_same [OF assms(1)] outputs_table.lookup_ins_other [of k r d]
    by (cases "k = o_key r") (simp_all add: utxo_def find_output_def)
qed

lemma o_key_row: "o_key (output_row_of factor t vout) = (char64 (tx_txid t), out_n vout)"
  by (simp add: o_key_def output_row_of_def)

lemma output_row_simps [simp]:
  "o_value (output_row_of factor t vout) = coin_to_base_units (out_value vout) factor"
  "o_address (output_row_of factor t vout) = null_if_empty (first_address (out_spk vout))"
  "o_spent_by_txid (output_row_of factor t vout) = None"
  by (simp_all add: output_row_of_def)

lemma outputs_effect_ledger:
  assumes "distinct (map out_n vs)"
    and "\<And>v. v \<in> set vs \<Longrightarrow> (char64 (tx_txid t), out_n v) \<notin> set (map o_key (d_outputs d))"
  shows "utxo (fold (\<lambda>vout. sql_insert_output (output_row_of factor t vout)) vs d) =
     fold (\<lambda>vout L. L((char64 (tx_txid t), out_n vout) \<mapsto>
            (coin_to_base_units (out_value vout) factor,
             null_if_empty (first_address (out_spk vout))))) vs (utxo d)"
  using assms
proof (induction vs arbitrary: d)
  case (Cons v vs)
  let ?r = "output_row_of factor t v"
  have new: "o_key ?r \<notin> set (map o_key (d_outputs d))"
    unfolding o_key_row using Cons.prems(2) [of v] by simp
  have "utxo (sql_insert_output ?r d) = (utxo d)(o_key ?r \<mapsto> (o_value ?r, o_address ?r))"
    by (rule utxo_insert_output [OF new]) simp
  moreover have "(char64 (tx_txid t), out_n w) \<notin> set (map o_key (d_outputs (sql_insert_output ?r d)))"
    if w: "w \<in> set vs" for w
  proof -
    have "out_n w \<noteq> out_n v" using Cons.prems(1) w by (metis distinct.simps(2) image_eqI list.set_map list.simps(9))
    then show ?thesis
      unfolding outputs_table.keys_ins o_key_row using Cons.prems(2) [of w] w by simp
  qed
  ultimately show ?case
    using Cons.IH [of "sql_insert_output ?r d"] Cons.prems(1) by (simp add: o_key_row)
qed simp

lemma inputs_effect_frames [table_simps]:
  "d_outputs (inputs_effect t d) = d_outputs d" "utxo (inputs_effect t d) = utxo d"
  "find_output (inputs_effect t d) = find_output d" "d_blocks (inputs_effect t d) = d_blocks d"
  "d_txs (inputs_effect t d) = d_txs d" "d_chain (inputs_effect t d) = d_chain d"
  "d_algos (inputs_effect t d) = d_algos d"
proof -
  have "d_outputs (fold (\<lambda>iv. sql_insert_input (g iv)) xs d) = d_outputs d \<and>
      utxo (fold (\<lambda>iv. sql_insert_input (g iv)) xs d) = utxo d \<and>
      find_output (fold (\<lambda>iv. sql_insert_input (g iv)) xs d) = find_output d \<and>
      d_blocks (fold (\<lambda>iv. sql_insert_input (g iv)) xs d) = d_blocks d \<and>
      d_txs (fold (\<lambda>iv. sql_insert_input (g iv)) xs d) = d_txs d \<and>
      d_chain (fold (\<lambda>iv. sql_insert_input (g iv)) xs d) = d_chain d \<and>
      d_algos (fold (\<lambda>iv. sql_insert_input (g iv)) xs d) = d_algos d"
    for g :: "nat \<times> TxIn \<Rightarrow> input_row" and xs
    by (induction xs arbitrary: d) (simp_all add: table_simps)
  then show "d_outputs (inputs_effect t d) = d_outputs d" "utxo (inputs_effect t d) = utxo d"
    "find_output (inputs_effect t d) = find_output d" "d_blocks (inputs_effect t d) = d_blocks d"
    "d_txs (inputs_effect t d) = d_txs d" "d_chain (inputs_effect t d) = d_chain d"
    "d_algos (inputs_effect t d) = d_algos d"
    by (simp_all add: inputs_effect_def)
qed

lemma outputs_effect_frames [table_simps]:
  "d_blocks (outputs_effect f t d) = d_blocks d" "d_txs (outputs_effect f t d) = d_txs d"
  "d_inputs (outputs_effect f t d) = d_inputs d" "d_chain (outputs_effect f t d) = d_chain d"
  "d_algos (outputs_effect f t d) = d_algos d"
proof -
  have "d_blocks (fold (\<lambda>v. sql_insert_output (g v)) xs d) = d_blocks d \<and>
      d_txs (fold (\<lambda>v. sql_insert_output (g v)) xs d) = d_txs d \<and>
      d_inputs (fold (\<lambda>v. sql_insert_output (g v)) xs d) = d_inputs d \<and>
      d_chain (fold (\<lambda>v. sql_insert_output (g v)) xs d) = d_chain d \<and>
      d_algos (fold (\<lambda>v. sql_insert_output (g v)) xs d) = d_algos d"
    for g :: "TxOut \<Rightarrow> output_row" and xs
    by (induction xs arbitrary: d) (simp_all add: table_simps)
  then show "d_blocks (outputs_effect f t d) = d_blocks d" "d_txs (outputs_effect f t d) = d_txs d"
    "d_inputs (outputs_effect f t d) = d_inputs d" "d_chain (outputs_effect f t d) = d_chain d"
    "d_algos (outputs_effect f t d) = d_algos d"
    by (simp_all add: outputs_effect_def)
qed

lemma link_effect_frames [table_simps]:
  "d_blocks (link_effect b t iv d) = d_blocks d" "d_txs (link_effect b t iv d) = d_txs d"
  "d_chain (link_effect b t iv d) = d_chain d" "d_algos (link_effect b t iv d) = d_algos d"
  "map o_key (d_outputs (link_effect b t iv d)) = map o_key (d_outputs d)"
  "map i_key (d_inputs (link_effect b t iv d)) = map i_key (d_inputs d)"
  by (simp_all add: link_effect_def Let_def table_simps)
    (simp_all add: sql_mark_spent_def sql_update_input_prev_def map_key_update_where o_key_def i_key_def)

lemma links_effect_frames [table_simps]:
  "d_blocks (links_effect b t d) = d_blocks d" "d_txs (links_effect b t d) = d_txs d"
  "d_chain (links_effect b t d) = d_chain d" "d_algos (links_effect b t d) = d_algos d"
  "map o_key (d_outputs (links_effect b t d)) = map o_key (d_outputs d)"
  "map i_key (d_inputs (links_effect b t d)) = map i_key (d_inputs d)"
proof -
  have "d_blocks (fold (link_effect b t) xs d) = d_blocks d \<and> d_txs (fold (link_effect b t) xs d) = d_txs d \<and>
     d_chain (fold (link_effect b t) xs d) = d_chain d \<and> d_algos (fold (link_effect b t) xs d) = d_algos d \<and>
     map o_key (d_outputs (fold (link_effect b t) xs d)) = map o_key (d_outputs d) \<and>
     map i_key (d_inputs (fold (link_effect b t) xs d)) = map i_key (d_inputs d)" for xs
    by (induction xs arbitrary: d) (simp_all add: table_simps)
  then show "d_blocks (links_effect b t d) = d_blocks d" "d_txs (links_effect b t d) = d_txs d"
    "d_chain (links_effect b t d) = d_chain d" "d_algos (links_effect b t d) = d_algos d"
    "map o_key (d_outputs (links_effect b t d)) = map o_key (d_outputs d)"
    "map i_key (d_inputs (links_effect b t d)) = map i_key (d_inputs d)"
    by (simp_all add: links_effect_def)
qed

text \<open>The keys a transaction adds to the output table all carry its own id.\<close>

lemma outputs_effect_keys:
  "set (map o_key (d_outputs (outputs_effect factor t d))) =
     set (map o_key (d_outputs d)) \<union> (\<lambda>v. (char64 (tx_txid t), out_n v)) ` set (tx_vout t)"
proof -
  have "set (map o_key (d_outputs (fold (\<lambda>v. sql_insert_output (output_row_of factor t v)) vs d))) =
     set (map o_key (d_outputs d)) \<union> (\<lambda>v. (char64 (tx_txid t), out_n v)) ` set vs" for vs
  proof (induction vs arbitrary: d)
    case (Cons v vs)
    have "set (map o_key (d_outputs (fold (\<lambda>v. sql_insert_output (output_row_of factor t v)) (v # vs) d)))
        = set (map o_key (d_outputs (sql_insert_output (output_row_of factor t v) d)))
          \<union> (\<lambda>v. (char64 (tx_txid t), out_n v)) ` set vs"
      by (simp only: fold_simps Cons.IH)
    then show ?case unfolding outputs_table.keys_ins o_key_row by auto
  qed simp
  then show ?thesis by (simp only: outputs_effect_def)
qed

lemma tx_effect_keys:
  "set (map o_key (d_outputs (tx_effect factor b pt d))) =
     set (map o_key (d_outputs d)) \<union> (\<lambda>v. (char64 (tx_txid (snd pt)), out_n v)) ` set (tx_vout (snd pt))"
  by (simp only: tx_effect_def Let_def links_effect_frames outputs_effect_keys inputs_effect_frames
      sql_frames)

lemma fresh_tx_keys: "fresh_tx d t \<Longrightarrow> (char64 (tx_txid t), n) \<notin> set (map o_key (d_outputs d))"
  by (force simp: fresh_tx_def o_key_def)

lemma tx_effect_ledger:
  assumes "fresh_tx d (snd pt)"
  shows "utxo (tx_effect factor b pt d) = ledger_tx factor (snd pt) (utxo d)"
proof -
  let ?t = "snd pt" and ?d1 = "inputs_effect (snd pt) (sql_insert_tx (tx_row_of factor b (fst pt) (snd pt)) d)"
  have "utxo (outputs_effect factor ?t ?d1) = ledger_add factor ?t (utxo d)"
    using outputs_effect_ledger [of "tx_vout ?t" ?t ?d1 factor] assms fresh_tx_keys [OF assms]
    by (simp add: outputs_effect_def ledger_add_def fresh_tx_def table_simps)
  then show ?thesis by (simp add: tx_effect_def ledger_tx_def utxo_links Let_def)
qed

lemma o_txid_keys: "o_txid ` set (d_outputs d) = fst ` set (map o_key (d_outputs d))"
  by (force simp: o_key_def)

lemma tx_effect_txids:
  "o_txid ` set (d_outputs (tx_effect factor b pt d)) \<subseteq>
     insert (char64 (tx_txid (snd pt))) (o_txid ` set (d_outputs d))"
  unfolding o_txid_keys tx_effect_keys by (auto simp: image_Un)

lemma fresh_after_tx:
  assumes "fresh_tx d t" and "char64 (tx_txid t) \<noteq> char64 (tx_txid (snd pt))"
  shows "fresh_tx (tx_effect factor b pt d) t"
  using assms tx_effect_txids [of factor b pt d] by (auto simp: fresh_tx_def)

lemma block_effect_ledger:
  assumes "fresh_block d b"
  shows "utxo (block_effect factor b d) = ledger_block factor b (utxo d)"
proof -
  have "utxo (fold (tx_effect factor b) (enumerate k ts) e) = fold (ledger_tx factor) ts (utxo e)"
    if "distinct (map (\<lambda>t. char64 (tx_txid t)) ts)" and "\<forall>t \<in> set ts. fresh_tx e t" for ts k e
    using that
  proof (induction ts arbitrary: k e)
    case (Cons t ts)
    have "\<forall>u \<in> set ts. fresh_tx (tx_effect factor b (k, t) e) u"
      using Cons.prems by (auto intro!: fresh_after_tx) (metis image_eqI)
    then show ?case
      using Cons tx_effect_ledger [of e "(k, t)" factor b] by simp
  qed simp
  moreover have "fresh_tx (sql_insert_block r d) t = fresh_tx d t" for r t
    by (simp add: fresh_tx_def table_simps)
  ultimately show ?thesis
    using assms by (simp add: block_effect_def ledger_block_def fresh_block_def table_simps)
qed

section \<open>Linking inputs to the outputs they spend\<close>

text \<open>
  A ledger transition is valid when every input of a transaction that is not a coinbase names an
  unspent outpoint, each at most once. The databases the indexer builds from valid blocks keep the
  input and output tables linked both ways: a spent output names an input row that carries its
  value and address, and an input row with an address names the output it spent.
\<close>

definition wf_vin :: "TxIn \<Rightarrow> bool" where
  "wf_vin vin \<longleftrightarrow> in_coinbase vin = '''' \<and> trim_space (in_txid vin) \<noteq> '''' \<and> in_vout vin \<noteq> None"

primrec valid_inputs :: "TxIn list \<Rightarrow> ledger \<Rightarrow> bool" where
  "valid_inputs [] L = True"
| "valid_inputs (v # vs) L =
     (wf_vin v \<and> (case spends v of None \<Rightarrow> False | Some k \<Rightarrow> L k \<noteq> None) \<and>
      valid_inputs vs (ledger_spend v L))"

definition valid_tx :: "int \<Rightarrow> TxV2 \<Rightarrow> ledger \<Rightarrow> bool" where
  "valid_tx factor t L \<longleftrightarrow> is_coinbase_tx t \<or> valid_inputs (tx_vin t) (ledger_add factor t L)"

primrec valid_txs :: "int \<Rightarrow> TxV2 list \<Rightarrow> ledger \<Rightarrow> bool" where
  "valid_txs factor [] L = True"
| "valid_txs factor (t # ts) L = (valid_tx factor t L \<and> valid_txs factor ts (ledger_tx factor t L))"

definition spent_key :: "output_row \<Rightarrow> outpoint option" where
  "spent_key r = (case (o_spent_by_txid r, o_spent_by_vin r) of (Some t, Some v) \<Rightarrow> Some (t, v) | _ \<Rightarrow> None)"

definition prev_key :: "input_row \<Rightarrow> outpoint option" where
  "prev_key r = (case (i_prev_txid r, i_prev_vout r) of (Some t, Some v) \<Rightarrow> Some (t, v) | _ \<Rightarrow> None)"

definition carries :: "input_row \<Rightarrow> output_row \<Rightarrow> bool" where
  "carries i r \<longleftrightarrow> prev_key i = Some (o_key r) \<and> spent_key r = Some (i_key i) \<and>
     i_prev_value i = Some (o_value r) \<and> i_prev_address i = o_address r"

definition linked :: "db \<Rightarrow> bool" where
  "linked d \<longleftrightarrow>
     (\<forall>r \<in> set (d_outputs d). o_spent_by_txid r \<noteq> None \<longrightarrow> (\<exists>i \<in> set (d_inputs d). carries i r)) \<and>
     (\<forall>i \<in> set (d_inputs d). i_prev_address i \<noteq> None \<longrightarrow> (\<exists>r \<in> set (d_outputs d). carries i r))"

definition wf_keys :: "db \<Rightarrow> bool" where
  "wf_keys d \<longleftrightarrow> distinct (map b_hash (d_blocks d)) \<and> distinct (map t_txid (d_txs d)) \<and>
     distinct (map i_key (d_inputs d)) \<and> distinct (map o_key (d_outputs d))"

text \<open>A row the link step has not reached yet.\<close>

definition unlinked_row :: "input_row \<Rightarrow> outpoint \<Rightarrow> bool" where
  "unlinked_row i k \<longleftrightarrow> i_prev_value i = None \<and> i_prev_address i = None \<and> prev_key i = Some k"

lemma find_output_Some:
  "distinct (map o_key (d_outputs d)) \<Longrightarrow> r \<in> set (d_outputs d) \<Longrightarrow> find_output d (o_key r) = Some r"
  unfolding find_output_def by (rule find_distinct_key)

lemma select_prevout_find:
  "sql_select_prevout x (Some n) d =
     map_option (\<lambda>r. (o_value r, o_address r)) (find_output d (char64 x, n))"
  by (simp add: sql_select_prevout_def select_one_def find_output_def o_key_def)

definition set_prev :: "int \<Rightarrow> string option \<Rightarrow> input_row \<Rightarrow> input_row" where
  "set_prev v a i = i\<lparr>i_prev_value := Some v, i_prev_address := a\<rparr>"

definition set_spent :: "string \<Rightarrow> int \<Rightarrow> int \<Rightarrow> output_row \<Rightarrow> output_row" where
  "set_spent y w h r = r\<lparr>o_spent_by_txid := Some y, o_spent_by_vin := Some w, o_spent_in_height := Some h\<rparr>"

lemma set_prev_simps [simp]:
  "i_key (set_prev v a i) = i_key i" "prev_key (set_prev v a i) = prev_key i"
  "i_prev_value (set_prev v a i) = Some v" "i_prev_address (set_prev v a i) = a"
  by (simp_all add: set_prev_def i_key_def prev_key_def)

lemma set_spent_simps [simp]:
  "o_key (set_spent y w h r) = o_key r" "spent_key (set_spent y w h r) = Some (y, w)"
  "o_value (set_spent y w h r) = o_value r" "o_address (set_spent y w h r) = o_address r"
  "o_spent_by_txid (set_spent y w h r) = Some y"
  by (simp_all add: set_spent_def o_key_def spent_key_def)

text \<open>What one link step does to the two tables when the spent output is there.\<close>

lemma link_effect_tables:
  assumes "wf_keys d" and "r \<in> set (d_outputs d)" and "spends vin = Some (o_key r)"
  shows "d_inputs (link_effect b t (k, vin) d) =
      update_where (\<lambda>i. i_key i = (char64 (tx_txid t), int k)) (set_prev (o_value r) (o_address r)) (d_inputs d)"
    and "d_outputs (link_effect b t (k, vin) d) =
      update_where (\<lambda>q. o_key q = o_key r) (set_spent (char64 (tx_txid t)) (int k) (blk_height b)) (d_outputs d)"
proof -
  from assms(3) obtain n where n: "in_txid vin \<noteq> ''''" "in_vout vin = Some n"
    "o_key r = (char64 (in_txid vin), n)"
    by (auto simp: spends_def split: if_splits)
  have "find_output d (o_key r) = Some r"
    using assms(1,2) by (intro find_output_Some) (auto simp: wf_keys_def)
  then have sel: "sql_select_prevout (in_txid vin) (in_vout vin) d = Some (o_value r, o_address r)"
    by (simp add: n select_prevout_find)
  have ik: "(i_txid i = x \<and> i_vin i = m) = (i_key i = (x, m))" for i x m by (auto simp: i_key_def)
  have ok: "(o_txid q = char64 (in_txid vin) \<and> o_vout q = n) = (o_key q = o_key r)" for q
    by (auto simp: o_key_def n(3) [unfolded o_key_def])
  show "d_inputs (link_effect b t (k, vin) d) =
      update_where (\<lambda>i. i_key i = (char64 (tx_txid t), int k)) (set_prev (o_value r) (o_address r)) (d_inputs d)"
    using n(1) by (simp add: link_effect_def sel prev_or_zero_def sql_frames Let_def ik
        sql_update_input_prev_def set_prev_def [abs_def])
  show "d_outputs (link_effect b t (k, vin) d) =
      update_where (\<lambda>q. o_key q = o_key r) (set_spent (char64 (tx_txid t)) (int k) (blk_height b)) (d_outputs d)"
    using n(1,2) by (simp add: link_effect_def sel prev_or_zero_def sql_frames Let_def ok
        sql_mark_spent_def sql_update_input_prev_def set_spent_def [abs_def])
qed

lemma link_step_linked:
  assumes wf: "wf_keys d" and lk: "linked d"
    and i0: "i0 \<in> set (d_inputs d)" "i_key i0 = (char64 (tx_txid t), int k)" "unlinked_row i0 (o_key r)"
    and r: "r \<in> set (d_outputs d)" "o_spent_by_txid r = None" "spends vin = Some (o_key r)"
  shows "linked (link_effect b t (k, vin) d)"
proof -
  let ?y = "char64 (tx_txid t)"
  let ?i' = "set_prev (o_value r) (o_address r) i0" and ?r' = "set_spent ?y (int k) (blk_height b) r"
  define f where "f i = (if i_key i = (?y, int k) then set_prev (o_value r) (o_address r) i else i)" for i
  define g where "g q = (if o_key q = o_key r then set_spent ?y (int k) (blk_height b) q else q)" for q
  have I: "set (d_inputs (link_effect b t (k, vin) d)) = f ` set (d_inputs d)"
    and O: "set (d_outputs (link_effect b t (k, vin) d)) = g ` set (d_outputs d)"
    using link_effect_tables [OF wf r(1,3)] by (simp_all add: set_update_where f_def g_def)
  have inj_i: "i = i0" if "i \<in> set (d_inputs d)" "i_key i = (?y, int k)" for i
    using distinct_map_key_eq [of i_key "d_inputs d" i i0] wf that i0 by (simp add: wf_keys_def)
  have inj_o: "q = r" if "q \<in> set (d_outputs d)" "o_key q = o_key r" for q
    using distinct_map_key_eq [of o_key "d_outputs d" q r] wf that r by (simp add: wf_keys_def)
  have new: "carries ?i' ?r'"
    using i0(2,3) by (simp add: carries_def unlinked_row_def)
  have i0': "f i0 = ?i'" and r': "g r = ?r'" using i0(2) by (simp_all add: f_def g_def)
  have keep: "carries i q \<Longrightarrow> i \<in> set (d_inputs d) \<Longrightarrow> q \<in> set (d_outputs d) \<Longrightarrow> f i = i \<and> g q = q" for i q
  proof -
    assume c: "carries i q" and mem: "i \<in> set (d_inputs d)" "q \<in> set (d_outputs d)"
    have "i_key i \<noteq> (?y, int k)"
      using c inj_i [OF mem(1)] i0(3) by (auto simp: carries_def unlinked_row_def)
    moreover have "o_key q \<noteq> o_key r"
      using c inj_o [OF mem(2)] r(2) by (auto simp: carries_def spent_key_def)
    ultimately show ?thesis by (simp add: f_def g_def)
  qed
  show ?thesis
    unfolding linked_def I O
  proof (intro conjI ballI impI; elim imageE)
    fix q' q assume q: "q' = g q" "q \<in> set (d_outputs d)" and sp: "o_spent_by_txid q' \<noteq> None"
    show "\<exists>i\<in>f ` set (d_inputs d). carries i q'"
    proof (cases "o_key q = o_key r")
      case True
      then show ?thesis using inj_o [OF q(2)] q(1) new i0(1) i0' r' by (metis image_eqI)
    next
      case False
      then have "o_spent_by_txid q \<noteq> None" using q(1) sp by (simp add: g_def)
      then obtain i where i: "i \<in> set (d_inputs d)" "carries i q" using lk q(2) by (auto simp: linked_def)
      then show ?thesis using keep [OF i(2,1) q(2)] q(1) by (metis image_eqI)
    qed
  next
    fix i' i assume i: "i' = f i" "i \<in> set (d_inputs d)" and ad: "i_prev_address i' \<noteq> None"
    show "\<exists>q\<in>g ` set (d_outputs d). carries i' q"
    proof (cases "i_key i = (?y, int k)")
      case True
      then show ?thesis using inj_i [OF i(2)] i(1) new r(1) i0' r' by (metis image_eqI)
    next
      case False
      then have "i_prev_address i \<noteq> None" using i(1) ad by (simp add: f_def)
      then obtain q where q: "q \<in> set (d_outputs d)" "carries i q" using lk i(2) by (auto simp: linked_def)
      then show ?thesis using keep [OF q(2) i(2) q(1)] i(1) by (metis image_eqI)
    qed
  qed
qed

lemma wf_keys_link: "wf_keys d \<Longrightarrow> wf_keys (link_effect b t iv d)"
  by (simp add: wf_keys_def table_simps)

lemma spends_utxo_row:
  assumes "utxo d k \<noteq> None"
  obtains r where "r \<in> set (d_outputs d)" "o_key r = k" "o_spent_by_txid r = None"
  using assms find_output_key [of d k] by (auto simp: utxo_def split: option.splits if_splits)

text \<open>The rows of the inputs from number \<open>k\<close> on are there and not linked yet.\<close>

definition rows_pending :: "TxV2 \<Rightarrow> nat \<Rightarrow> TxIn list \<Rightarrow> db \<Rightarrow> bool" where
  "rows_pending t k vs d \<longleftrightarrow>
     (\<forall>j < length vs. \<forall>key. spends (vs ! j) = Some key \<longrightarrow>
        (\<exists>i \<in> set (d_inputs d). i_key i = (char64 (tx_txid t), int (k + j)) \<and> unlinked_row i key))"

lemma rows_pending_step:
  assumes "rows_pending t k (v # vs) d" and "wf_keys d"
    and "r \<in> set (d_outputs d)" and "spends v = Some (o_key r)"
  shows "rows_pending t (Suc k) vs (link_effect b t (k, v) d)"
  unfolding rows_pending_def
proof (intro allI impI)
  fix j key assume j: "j < length vs" "spends (vs ! j) = Some key"
  have "Suc j < length (v # vs)" "spends ((v # vs) ! Suc j) = Some key" using j by simp_all
  then obtain i where i: "i \<in> set (d_inputs d)" "i_key i = (char64 (tx_txid t), int (k + Suc j))"
    "unlinked_row i key"
    using assms(1) unfolding rows_pending_def by blast
  then have "i \<in> set (d_inputs (link_effect b t (k, v) d))"
    unfolding link_effect_tables(1) [OF assms(2-4)] set_update_where by (auto intro: rev_image_eqI)
  with i show "\<exists>i\<in>set (d_inputs (link_effect b t (k, v) d)).
      i_key i = (char64 (tx_txid t), int (Suc k + j)) \<and> unlinked_row i key" by auto
qed

lemma links_fold_linked:
  assumes "wf_keys d" and "linked d" and "rows_pending t k vs d" and "valid_inputs vs (utxo d)"
  shows "linked (fold (link_effect b t) (enumerate k vs) d)"
  using assms
proof (induction vs arbitrary: k d)
  case (Cons v vs)
  from Cons.prems(4) obtain key where key: "spends v = Some key" "utxo d key \<noteq> None"
    by (auto split: option.splits)
  then obtain r where r: "r \<in> set (d_outputs d)" "o_key r = key" "o_spent_by_txid r = None"
    using spends_utxo_row [OF key(2)] by metis
  have sp: "spends v = Some (o_key r)" using key r by simp
  from Cons.prems(3) sp obtain i where i: "i \<in> set (d_inputs d)"
    "i_key i = (char64 (tx_txid t), int k)" "unlinked_row i (o_key r)"
    using Cons.prems(3) unfolding rows_pending_def
    by (metis add_0_right length_greater_0_conv list.distinct(1) nth_Cons_0)
  let ?d = "link_effect b t (k, v) d"
  have "linked ?d" by (rule link_step_linked [OF Cons.prems(1,2) i r(1,3) sp])
  moreover have "rows_pending t (Suc k) vs ?d"
    by (rule rows_pending_step [OF Cons.prems(3,1) r(1) sp])
  moreover have "valid_inputs vs (utxo ?d)" using Cons.prems(4) by (simp add: utxo_link)
  ultimately have "linked (fold (link_effect b t) (enumerate (Suc k) vs) ?d)"
    using Cons.IH [of ?d "Suc k"] wf_keys_link [OF Cons.prems(1)] by blast
  then show ?case by simp
qed simp

text \<open>Inserting fresh rows keeps both directions.\<close>

lemma linked_mono:
  assumes "linked d" and "\<And>r. r \<in> set (d_outputs e) \<Longrightarrow> r \<in> set (d_outputs d) \<or> o_spent_by_txid r = None"
    and "\<And>i. i \<in> set (d_inputs e) \<Longrightarrow> i \<in> set (d_inputs d) \<or> i_prev_address i = None"
    and "set (d_outputs d) \<subseteq> set (d_outputs e)" and "set (d_inputs d) \<subseteq> set (d_inputs e)"
  shows "linked e"
  using assms unfolding linked_def by (meson subsetD)

lemma input_row_simps [simp]:
  "i_key (input_row_of t n v) = (char64 (tx_txid t), int n)"
  "i_prev_address (input_row_of t n v) = None" "i_prev_value (input_row_of t n v) = None"
  by (simp_all add: input_row_of_def i_key_def)

lemma unlinked_input_row:
  "wf_vin v \<Longrightarrow> spends v = Some key \<Longrightarrow> unlinked_row (input_row_of t n v) key"
  by (auto simp: unlinked_row_def wf_vin_def spends_def input_row_of_def prev_key_def null_if_empty_def
      split: if_splits)

lemma inputs_effect_rows:
  "set (d_inputs d) \<subseteq> set (d_inputs (inputs_effect t d))"
  "i \<in> set (d_inputs (inputs_effect t d)) \<Longrightarrow> i \<in> set (d_inputs d) \<or> i_prev_address i = None"
  unfolding inputs_effect_def
  using inputs_table.rows_fold_mono inputs_table.rows_fold_mem by fastforce+

lemma outputs_effect_rows:
  "set (d_outputs d) \<subseteq> set (d_outputs (outputs_effect factor t d))"
  "r \<in> set (d_outputs (outputs_effect factor t d)) \<Longrightarrow> r \<in> set (d_outputs d) \<or> o_spent_by_txid r = None"
  unfolding outputs_effect_def
  using outputs_table.rows_fold_mono outputs_table.rows_fold_mem by fastforce+

text \<open>No input row carries the transaction's id yet.\<close>

definition fresh_inputs :: "db \<Rightarrow> TxV2 \<Rightarrow> bool" where
  "fresh_inputs d t \<longleftrightarrow> char64 (tx_txid t) \<notin> i_txid ` set (d_inputs d)"

lemma fresh_inputs_key: "fresh_inputs d t \<Longrightarrow> (char64 (tx_txid t), n) \<notin> set (map i_key (d_inputs d))"
  by (force simp: fresh_inputs_def i_key_def)

lemma inputs_effect_new:
  assumes "fresh_inputs d t"
  shows "d_inputs (inputs_effect t d) =
     d_inputs d @ map (\<lambda>iv. input_row_of t (fst iv) (snd iv)) (enumerate 0 (tx_vin t))"
  unfolding inputs_effect_def
proof (rule inputs_table.rows_fold_new)
  have "map (\<lambda>x. i_key (input_row_of t (fst x) (snd x))) (enumerate 0 (tx_vin t)) =
      map (\<lambda>n. (char64 (tx_txid t), int n)) (map fst (enumerate 0 (tx_vin t)))"
    by (simp only: map_map comp_def input_row_simps)
  then show "distinct (map (\<lambda>x. i_key (input_row_of t (fst x) (snd x))) (enumerate 0 (tx_vin t)))"
    by (simp add: distinct_map inj_on_def)
qed (use fresh_inputs_key [OF assms] in simp)

lemma inputs_effect_pending:
  assumes "fresh_inputs d t" and wf: "\<And>v. v \<in> set (tx_vin t) \<Longrightarrow> wf_vin v"
  shows "rows_pending t 0 (tx_vin t) (inputs_effect t d)"
  unfolding rows_pending_def
proof (intro allI impI)
  fix j key assume j: "j < length (tx_vin t)" "spends (tx_vin t ! j) = Some key"
  let ?i = "input_row_of t j (tx_vin t ! j)"
  have "(j, tx_vin t ! j) \<in> set (enumerate 0 (tx_vin t))" using j by (simp add: in_set_enumerate_eq)
  then have "?i \<in> set (d_inputs (inputs_effect t d))"
    unfolding inputs_effect_new [OF assms(1)] by (auto intro!: image_eqI [of _ _ "(j, tx_vin t ! j)"])
  moreover have "unlinked_row ?i key" using wf j by (intro unlinked_input_row) simp_all
  ultimately show "\<exists>i\<in>set (d_inputs (inputs_effect t d)).
      i_key i = (char64 (tx_txid t), int (0 + j)) \<and> unlinked_row i key" by (intro bexI [of _ ?i]) simp_all
qed

lemma valid_inputs_wf: "valid_inputs vs L \<Longrightarrow> v \<in> set vs \<Longrightarrow> wf_vin v"
  by (induction vs arbitrary: L) auto

lemma wf_keys_effects:
  "wf_keys d \<Longrightarrow> wf_keys (inputs_effect t d)" "wf_keys d \<Longrightarrow> wf_keys (outputs_effect factor t d)"
  "wf_keys d \<Longrightarrow> wf_keys (sql_insert_tx tr d)" "wf_keys d \<Longrightarrow> wf_keys (sql_insert_block br d)"
  "wf_keys d \<Longrightarrow> wf_keys (links_effect b t d)"
  by (simp_all add: wf_keys_def table_simps txs_table.distinct_ins blocks_table.distinct_ins)
    (simp_all add: inputs_effect_def outputs_effect_def inputs_table.distinct_fold outputs_table.distinct_fold)

lemma tx_effect_wf_keys: "wf_keys d \<Longrightarrow> wf_keys (tx_effect factor b pt d)"
  by (simp add: tx_effect_def Let_def wf_keys_effects)

lemma tx_effect_linked:
  assumes wf: "wf_keys d" and lk: "linked d" and fr: "fresh_tx d (snd pt)" "fresh_inputs d (snd pt)"
    and val: "valid_tx factor (snd pt) (utxo d)"
  shows "linked (tx_effect factor b pt d)"
proof -
  let ?t = "snd pt"
  define d1 where "d1 = sql_insert_tx (tx_row_of factor b (fst pt) ?t) d"
  define d2 where "d2 = inputs_effect ?t d1"
  define d3 where "d3 = outputs_effect factor ?t d2"
  have eff: "tx_effect factor b pt d = links_effect b ?t d3"
    by (simp add: tx_effect_def d1_def d2_def d3_def Let_def)
  have wf1: "wf_keys d1" and wf2: "wf_keys d2" and wf3: "wf_keys d3"
    using wf by (simp_all add: d1_def d2_def d3_def wf_keys_effects)
  have d1: "d_inputs d1 = d_inputs d" "d_outputs d1 = d_outputs d" "utxo d1 = utxo d"
    by (simp_all add: d1_def table_simps)
  have lk1: "linked d1" using lk by (simp add: linked_def d1)
  have lk2: "linked d2"
    using lk1 by (rule linked_mono) (use inputs_effect_rows in \<open>auto simp: d2_def table_simps\<close>)
  have lk3: "linked d3"
    using lk2 by (rule linked_mono) (use outputs_effect_rows in \<open>auto simp: d3_def table_simps\<close>)
  show ?thesis
  proof (cases "is_coinbase_tx ?t")
    case True
    then show ?thesis using lk3 by (simp add: eff links_effect_def)
  next
    case False
    have ut: "utxo d3 = ledger_add factor ?t (utxo d)"
      using outputs_effect_ledger [of "tx_vout ?t" ?t d2 factor] fr(1) fresh_tx_keys [OF fr(1)]
      by (simp add: d3_def outputs_effect_def ledger_add_def fresh_tx_def d2_def table_simps d1)
    then have vi: "valid_inputs (tx_vin ?t) (utxo d3)" using val False by (simp add: valid_tx_def)
    have "fresh_inputs d1 ?t" using fr(2) by (simp add: fresh_inputs_def d1)
    then have "rows_pending ?t 0 (tx_vin ?t) d2"
      unfolding d2_def using valid_inputs_wf [OF vi] by (rule inputs_effect_pending)
    then have "rows_pending ?t 0 (tx_vin ?t) d3" by (simp add: rows_pending_def d3_def table_simps)
    then show ?thesis
      using links_fold_linked [OF wf3 lk3 _ vi] False by (simp add: eff links_effect_def)
  qed
qed

lemma i_txid_keys: "i_txid ` set (d_inputs d) = fst ` set (map i_key (d_inputs d))"
  by (force simp: i_key_def)

lemma tx_effect_input_txids:
  "i_txid ` set (d_inputs (tx_effect factor b pt d)) \<subseteq>
     insert (char64 (tx_txid (snd pt))) (i_txid ` set (d_inputs d))"
proof -
  have "set (map i_key (d_inputs (tx_effect factor b pt d))) =
      set (map i_key (d_inputs d)) \<union> (\<lambda>iv. i_key (input_row_of (snd pt) (fst iv) (snd iv))) ` set (enumerate 0 (tx_vin (snd pt)))"
    by (simp only: tx_effect_def Let_def links_effect_frames outputs_effect_frames inputs_effect_def
        inputs_table.keys_fold sql_frames)
  then show ?thesis unfolding i_txid_keys by (auto simp: image_Un)
qed

lemma fresh_inputs_after_tx:
  assumes "fresh_inputs d t" and "char64 (tx_txid t) \<noteq> char64 (tx_txid (snd pt))"
  shows "fresh_inputs (tx_effect factor b pt d) t"
  using assms tx_effect_input_txids [of factor b pt d] unfolding fresh_inputs_def by blast

text \<open>A block whose transactions are new to the database.\<close>

definition new_block :: "db \<Rightarrow> BlockV2 \<Rightarrow> bool" where
  "new_block d b \<longleftrightarrow> fresh_block d b \<and> (\<forall>t \<in> set (blk_tx b). fresh_inputs d t)"

lemma block_effect_invariants:
  assumes "wf_keys d" and "linked d" and "new_block d b" and "valid_txs factor (blk_tx b) (utxo d)"
  shows "wf_keys (block_effect factor b d)" and "linked (block_effect factor b d)"
proof -
  have "wf_keys (fold (tx_effect factor b) (enumerate k ts) e) \<and>
      linked (fold (tx_effect factor b) (enumerate k ts) e)"
    if "wf_keys e" "linked e" "distinct (map (\<lambda>t. char64 (tx_txid t)) ts)"
      "\<forall>t \<in> set ts. fresh_tx e t \<and> fresh_inputs e t" "valid_txs factor ts (utxo e)" for ts k e
    using that
  proof (induction ts arbitrary: k e)
    case (Cons t ts)
    let ?e = "tx_effect factor b (k, t) e"
    have other: "char64 (tx_txid u) \<noteq> char64 (tx_txid t)" if "u \<in> set ts" for u
      using Cons.prems(3) that by (auto simp: image_iff)
    have "\<forall>u \<in> set ts. fresh_tx ?e u \<and> fresh_inputs ?e u"
      using Cons.prems(4) other fresh_after_tx [of e _ "(k, t)"] fresh_inputs_after_tx [of e _ "(k, t)"]
      by simp
    moreover have "utxo ?e = ledger_tx factor t (utxo e)"
      using tx_effect_ledger [of e "(k, t)"] Cons.prems(4) by simp
    moreover have "linked ?e"
      using tx_effect_linked [of e "(k, t)" factor b] Cons.prems by simp
    ultimately show ?case
      using Cons.IH [of ?e "Suc k"] Cons.prems tx_effect_wf_keys [of e] by simp
  qed simp
  moreover have "linked (sql_insert_block r d) = linked d" "fresh_tx (sql_insert_block r d) = fresh_tx d"
    "fresh_inputs (sql_insert_block r d) = fresh_inputs d" for r
    by (simp_all add: linked_def fresh_tx_def fresh_inputs_def fun_eq_iff table_simps)
  ultimately have "wf_keys (block_effect factor b d) \<and> linked (block_effect factor b d)"
    using assms by (simp add: block_effect_def new_block_def fresh_block_def wf_keys_effects utxo_frames)
  then show "wf_keys (block_effect factor b d)" "linked (block_effect factor b d)" by simp_all
qed

section \<open>The block table is write-once\<close>

lemma tx_effect_blocks [table_simps]:
  "d_blocks (tx_effect factor b pt d) = d_blocks d" "d_chain (tx_effect factor b pt d) = d_chain d"
  "d_algos (tx_effect factor b pt d) = d_algos d"
  by (simp_all add: tx_effect_def Let_def table_simps)

lemma tx_effect_txs: "d_txs (tx_effect factor b pt d) = d_txs (sql_insert_tx (tx_row_of factor b (fst pt) (snd pt)) d)"
  by (simp add: tx_effect_def Let_def table_simps)

lemma block_effect_blocks:
  "d_blocks (block_effect factor b d) = d_blocks (sql_insert_block (block_row_of factor b) d)"
  "d_chain (block_effect factor b d) = d_chain d" "d_algos (block_effect factor b d) = d_algos d"
proof -
  have "d_blocks (fold (tx_effect factor b) xs e) = d_blocks e \<and> d_chain (fold (tx_effect factor b) xs e) = d_chain e
      \<and> d_algos (fold (tx_effect factor b) xs e) = d_algos e" for xs e
    by (induction xs arbitrary: e) (simp_all add: table_simps)
  then show "d_blocks (block_effect factor b d) = d_blocks (sql_insert_block (block_row_of factor b) d)"
    "d_chain (block_effect factor b d) = d_chain d" "d_algos (block_effect factor b d) = d_algos d"
    by (simp_all add: block_effect_def table_simps)
qed

lemma block_row_simps [simp]:
  "b_hash (block_row_of factor b) = char64 (blk_hash b)" "b_height (block_row_of factor b) = blk_height b"
  "b_in_best_chain (block_row_of factor b)"
  "b_algo_id (block_row_of factor b) = decode_algo (blk_version b)"
  "b_algo_name (block_row_of factor b) = algo_id_to_name (decode_algo (blk_version b))"
  "b_tx_count (block_row_of factor b) = int (length (blk_tx b))"
  by (simp_all add: block_row_of_def Let_def)


section \<open>Properties\<close>

text \<open>C2: a run of \<open>insertBlockBundle\<close> that reports success on a block whose transactions are
  new has turned the unspent outputs of the database into exactly those of the abstract ledger
  transition of the block (add every output, then remove every outpoint an input of a transaction
  that is not a coinbase names), whatever the fault schedule of the database.\<close>

theorem insert_block_bundle_ledger:
  assumes "insert_block_bundle flt factor b x = (Inr u, x')" and "\<not> x_aborted x"
    and "fresh_block (x_db x) b"
  shows "utxo (x_db x') = ledger_block factor b (utxo (x_db x)) \<and> \<not> x_aborted x'"
  using tx_refinesD(3,4) [OF insert_block_bundle_refines assms(1)] assms(2) block_effect_ledger [OF assms(3)]
  by simp

text \<open>C27: \<open>insertBlockBundle\<close> is all or nothing for the transaction it runs in: when any of its
  statements fails (also the read whose error the code discards), it reports an error or leaves the
  transaction in a state PostgreSQL refuses to commit, and when it reports success every row of the
  block, and nothing else, was written.\<close>

theorem insert_block_bundle_atomic:
  "case insert_block_bundle flt factor b x of
     (Inl e, x') \<Rightarrow> x_aborted x'
   | (Inr u, x') \<Rightarrow> if x_aborted x then x_aborted x'
                  else \<not> x_aborted x' \<and> x_db x' = block_effect factor b (x_db x)"
proof -
  obtain r x' where run: "insert_block_bundle flt factor b x = (r, x')" by fastforce
  note R = tx_refinesD [OF insert_block_bundle_refines run]
  show ?thesis using R run by (cases r) (simp_all add: is_ok_def)
qed

text \<open>C12: ingesting a new, valid block keeps the input and output tables linked both ways: every spent
  output names an input row that carries its value and its address, every input row with a previous
  address names the output it spent, and all primary keys stay unique.\<close>

theorem insert_block_bundle_links:
  assumes "insert_block_bundle flt factor b x = (Inr u, x')" and "\<not> x_aborted x"
    and "wf_keys (x_db x)" and "linked (x_db x)" and "new_block (x_db x) b"
    and "valid_txs factor (blk_tx b) (utxo (x_db x))"
  shows "wf_keys (x_db x') \<and> linked (x_db x')"
  using tx_refinesD(3) [OF insert_block_bundle_refines assms(1)] assms(2)
    block_effect_invariants [OF assms(3-6)] by simp

text \<open>The block table is write-once: a block row, once stored, survives every later
  \<open>insertBlockBundle\<close> unchanged (a competing block of the same height does not replace it and
  does not clear its \<open>in_best_chain\<close> flag), and the only row a call adds is the one of its own
  block.\<close>

theorem block_rows_write_once:
  assumes "insert_block_bundle flt factor b x = (Inr u, x')" and "\<not> x_aborted x"
  shows "set (d_blocks (x_db x)) \<subseteq> set (d_blocks (x_db x')) \<and>
     set (d_blocks (x_db x')) \<subseteq> insert (block_row_of factor b) (set (d_blocks (x_db x)))"
proof -
  have "x_db x' = block_effect factor b (x_db x)"
    using tx_refinesD(3) [OF insert_block_bundle_refines assms(1)] assms(2) by simp
  then show ?thesis
    using blocks_table.write_once blocks_table.ins_mem [of _ "block_row_of factor b" "x_db x"]
    by (auto simp: block_effect_blocks)
qed

text \<open>A concrete chain for the witnesses: a coinbase of 20 coins, then a transaction that spends it.\<close>

definition sample_spk :: "string \<Rightarrow> ScriptPubKey" where
  "sample_spk a = \<lparr>spk_asm = '''', spk_hex = ''76a9'', spk_type = ''pubkeyhash'', spk_address = a, spk_addresses = []\<rparr>"

definition sample_coinbase :: TxV2 where
  "sample_coinbase = \<lparr>tx_txid = ''t1'', tx_version = Some 1, tx_locktime = Some 0, tx_size = Some 100,
     tx_vsize = None, tx_weight = None,
     tx_vin = [\<lparr>in_txid = '''', in_vout = None, in_script_sig = \<lparr>ss_asm = '''', ss_hex = ''''\<rparr>,
                in_sequence = Some 0, in_coinbase = ''51''\<rparr>],
     tx_vout = [\<lparr>out_value = Fin 20, out_n = 0, out_spk = sample_spk ''bAlice''\<rparr>]\<rparr>"

definition sample_spend :: TxV2 where
  "sample_spend = \<lparr>tx_txid = ''t2'', tx_version = Some 1, tx_locktime = Some 0, tx_size = Some 200,
     tx_vsize = None, tx_weight = None,
     tx_vin = [\<lparr>in_txid = ''t1'', in_vout = Some 0, in_script_sig = \<lparr>ss_asm = '''', ss_hex = ''48''\<rparr>,
                in_sequence = Some 0, in_coinbase = ''''\<rparr>],
     tx_vout = [\<lparr>out_value = Fin 5, out_n = 0, out_spk = sample_spk ''bBob''\<rparr>,
                \<lparr>out_value = Fin 15, out_n = 1, out_spk = sample_spk ''bAlice''\<rparr>]\<rparr>"

definition sample_block :: "int \<Rightarrow> BlockV2" where
  "sample_block h = \<lparr>blk_hash = ''b'' @ itoa h, blk_confirmations = 1, blk_size = 500, blk_weight = 2000,
     blk_height = h, blk_version = 4, blk_merkle_root = ''m'', blk_time = 1400000000, blk_nonce = 7,
     blk_bits = ''1d00ffff'', blk_difficulty = Fin 1, blk_chain_work = '''', blk_prev_hash = '''',
     blk_algo_id = None, blk_algo_name = '''', blk_auxpow = False, blk_auxpow_sign = '''',
     blk_core_version = '''', blk_tx = (if h = 0 then [sample_coinbase, sample_spend] else [])\<rparr>"

definition no_faults :: fault where
  "no_faults n = None"

definition sample_txn :: txn where
  "sample_txn = \<lparr>x_db = empty_db, x_aborted = False, x_clock = 0\<rparr>"


lemma sample_run:
  "insert_block_bundle no_faults 100000000 (sample_block 0) sample_txn =
     (Inr (), snd (insert_block_bundle no_faults 100000000 (sample_block 0) sample_txn))"
  by code_simp

lemma sample_start:
  "\<not> x_aborted sample_txn" "fresh_block (x_db sample_txn) (sample_block 0)"
  "new_block (x_db sample_txn) (sample_block 0)" "wf_keys (x_db sample_txn)" "linked (x_db sample_txn)"
  "valid_txs 100000000 (blk_tx (sample_block 0)) (utxo (x_db sample_txn))"
  by code_simp+

theorem insert_block_bundle_ledger_witness:
  "utxo (x_db (snd (insert_block_bundle no_faults 100000000 (sample_block 0) sample_txn))) =
     ledger_block 100000000 (sample_block 0) (utxo (x_db sample_txn)) \<and>
   ledger_block 100000000 (sample_block 0) (utxo (x_db sample_txn)) (char64 ''t2'', 1) =
     Some (1500000000, Some ''bAlice'') \<and>
   ledger_block 100000000 (sample_block 0) (utxo (x_db sample_txn)) (char64 ''t1'', 0) = None"
proof -
  have "ledger_block 100000000 (sample_block 0) (utxo (x_db sample_txn)) (char64 ''t2'', 1) =
      Some (1500000000, Some ''bAlice'')"
    "ledger_block 100000000 (sample_block 0) (utxo (x_db sample_txn)) (char64 ''t1'', 0) = None"
    by code_simp+
  then show ?thesis using insert_block_bundle_ledger [OF sample_run sample_start(1,2)] by simp
qed

theorem insert_block_bundle_links_witness:
  "linked (x_db (snd (insert_block_bundle no_faults 100000000 (sample_block 0) sample_txn)))"
  using insert_block_bundle_links [OF sample_run sample_start(1,4,5,3,6)] by simp

theorem block_rows_write_once_witness:
  "set (d_blocks (x_db (snd (insert_block_bundle no_faults 100000000 (sample_block 0) sample_txn)))) \<subseteq>
     insert (block_row_of 100000000 (sample_block 0)) (set (d_blocks (x_db sample_txn)))"
  using block_rows_write_once [OF sample_run sample_start(1)] by simp

end
