(* ===== verification/Ingest_Range.thy ===== *)
theory Ingest_Range
  imports Ingest_Block
begin

text \<open>
  The indexer's interaction with the node and the database around a block:
  \<open>retryGetBlockCount\<close> with its back-off schedule, \<open>ingestRange\<close> with one database
  transaction per batch, and the chain-state statements
  (\<open>indexer/internal/ingest/ingestor.go\<close>). The environment (node answers, statement
  faults, commit acknowledgements, cancellation) is an arbitrary function of the number of
  interactions so far, so every theorem holds for every behaviour of node and database. The
  locale \<open>backoff\<close> is the contract of a clamped delay schedule.
\<close>

section \<open>Back-off schedules\<close>

text \<open>
  A list of delays indexed by an attempt counter that is clamped to the last entry. The client
  learns that delays never shrink and never exceed the last entry, which is the one used from
  the end of the list on.
\<close>

locale backoff =
  fixes delays :: "int list" and delay :: "nat \<Rightarrow> int"
  assumes nonempty: "delays \<noteq> []" and ascending: "sorted delays"
    and clamped: "delay n = delays ! min n (length delays - 1)"
begin

lemma index_ok: "min n (length delays - 1) < length delays"
  using nonempty by (cases delays) auto

lemma delay_mono: "m \<le> n \<Longrightarrow> delay m \<le> delay n"
  unfolding clamped by (rule sorted_nth_mono [OF ascending _ index_ok]) auto

lemma delay_last: "length delays - 1 \<le> n \<Longrightarrow> delay n = last delays"
  using nonempty by (simp add: clamped last_conv_nth)

lemma delay_le_last: "delay n \<le> last delays"
  using delay_mono [of n "max n (length delays - 1)"] delay_last [of "max n (length delays - 1)"] by simp

lemma delay_mem: "delay n \<in> set delays"
  unfolding clamped by (rule nth_mem [OF index_ok])

end

text \<open>Seconds, as in \<open>rpcRetryBackoff\<close>; the index is \<open>min(attempt, len-1)\<close>.\<close>

definition rpc_retry_backoff :: "int list" where
  "rpc_retry_backoff = [5, 10, 20, 30, 60, 120, 300, 600, 600]"

definition retry_delay :: "nat \<Rightarrow> int" where
  "retry_delay attempt =
     rpc_retry_backoff ! nat (min_int (int attempt) (int (length rpc_retry_backoff) - 1))"

interpretation retry: backoff rpc_retry_backoff retry_delay
proof
  show "retry_delay n = rpc_retry_backoff ! min n (length rpc_retry_backoff - 1)" for n
  proof -
    have len: "length rpc_retry_backoff = 9" by (simp add: rpc_retry_backoff_def)
    have "nat (min_int (int n) (int 9 - 1)) = min n (9 - 1)" by (auto simp: min_int_def)
    then show ?thesis unfolding retry_delay_def len by simp
  qed
qed (simp_all add: rpc_retry_backoff_def)

section \<open>The environment\<close>

text \<open>
  Interaction number \<open>n\<close>: what the database answers to a statement (\<open>e_fault\<close>), what the
  node answers to the three calls, whether a commit that reports an error took effect all the
  same, and whether the context is cancelled by then.
\<close>

record env =
  e_fault :: fault
  e_commit_applied :: "nat \<Rightarrow> bool"
  e_block_count :: "nat \<Rightarrow> int result"
  e_block_hash :: "nat \<Rightarrow> int \<Rightarrow> string result"
  e_block :: "nat \<Rightarrow> string \<Rightarrow> BlockV2 result"
  e_cancelled :: "nat \<Rightarrow> bool"

record world =
  w_db :: db
  w_clock :: nat

definition err_ctx :: string where
  "err_ctx = ''context canceled''"

text \<open>The \<open>fmt.Errorf\<close> texts of the source.\<close>

definition err_block_count :: "string \<Rightarrow> string" where
  "err_block_count e = ''rpc getblockcount: '' @ e"

definition err_begin :: "string \<Rightarrow> string" where
  "err_begin e = ''begin tx: '' @ e"

definition err_block_hash :: "int \<Rightarrow> string \<Rightarrow> string" where
  "err_block_hash h e = ''getblockhash('' @ itoa h @ ''): '' @ e"

definition err_get_block :: "string \<Rightarrow> string \<Rightarrow> string" where
  "err_get_block hash e = ''getblock('' @ hash @ '',2): '' @ e"

definition err_insert :: "int \<Rightarrow> string \<Rightarrow> string \<Rightarrow> string" where
  "err_insert h hash e = ''insert height='' @ itoa h @ '' hash='' @ short hash @ '': '' @ e"

definition err_commit :: "int \<Rightarrow> int \<Rightarrow> string \<Rightarrow> string" where
  "err_commit a b e = ''commit batch '' @ itoa a @ ''-'' @ itoa b @ '': '' @ e"

section \<open>retryGetBlockCount\<close>

text \<open>
  The loop retries until the call succeeds, fails permanently or the context is cancelled; it may
  run forever, so it takes fuel and \<open>None\<close> means that the fuel did not suffice. The result
  carries the clock after the call and the delays slept, in seconds.
\<close>

fun retry_get_block_count :: "nat \<Rightarrow> env \<Rightarrow> nat \<Rightarrow> nat \<Rightarrow> (int result \<times> nat \<times> int list) option" where
  "retry_get_block_count 0 env attempt clk = None"
| "retry_get_block_count (Suc fuel) env attempt clk =
     (case e_block_count env clk of
        Inr n \<Rightarrow> Some (Inr n, Suc clk, [])
      | Inl err \<Rightarrow>
          if e_cancelled env (Suc clk) then Some (Inl err_ctx, Suc clk, [])
          else if \<not> is_transient_rpc_err err then Some (Inl (err_block_count err), Suc clk, [])
          else (let delay = retry_delay attempt
                in if e_cancelled env (Suc (Suc clk)) then Some (Inl err_ctx, Suc (Suc clk), [delay])
                   else map_option (\<lambda>(r, clk', ds). (r, clk', delay # ds))
                          (retry_get_block_count fuel env (Suc attempt) (Suc (Suc clk)))))"

text \<open>
  If the node answers after \<open>k\<close> transient failures, the call returns that answer, and the
  time slept is the first \<open>k\<close> entries of the schedule.
\<close>

lemma retry_returns_from:
  assumes "\<And>j. j < k \<Longrightarrow> \<exists>err. e_block_count env (clk + 2 * j) = Inl err \<and> is_transient_rpc_err err"
    and "e_block_count env (clk + 2 * k) = Inr n"
    and "\<And>c. c \<le> clk + 2 * k \<Longrightarrow> \<not> e_cancelled env c"
    and "k < fuel"
  shows "retry_get_block_count fuel env attempt clk =
     Some (Inr n, Suc (clk + 2 * k), map (\<lambda>i. retry_delay (attempt + i)) [0 ..< k])"
  using assms
proof (induction k arbitrary: fuel attempt clk)
  case 0
  then show ?case by (cases fuel) simp_all
next
  case (Suc k)
  from Suc.prems(4) obtain f where f: "fuel = Suc f" "k < f" by (cases fuel) auto
  from Suc.prems(1) [of 0] obtain err where err: "e_block_count env clk = Inl err" "is_transient_rpc_err err"
    by auto
  have "retry_get_block_count f env (Suc attempt) (Suc (Suc clk)) =
      Some (Inr n, Suc (Suc (Suc clk) + 2 * k), map (\<lambda>i. retry_delay (Suc attempt + i)) [0 ..< k])"
  proof (rule Suc.IH)
    show "\<exists>err. e_block_count env (Suc (Suc clk) + 2 * j) = Inl err \<and> is_transient_rpc_err err" if "j < k" for j
      using Suc.prems(1) [of "Suc j"] that by simp
    show "e_block_count env (Suc (Suc clk) + 2 * k) = Inr n" using Suc.prems(2) by simp
    show "\<not> e_cancelled env c" if "c \<le> Suc (Suc clk) + 2 * k" for c using Suc.prems(3) [of c] that by simp
  qed (rule f)
  moreover have "map (\<lambda>i. retry_delay (attempt + i)) [0 ..< Suc k] =
      retry_delay attempt # map (\<lambda>i. retry_delay (Suc attempt + i)) [0 ..< k]"
    by (simp only: map_upt_Suc) simp
  ultimately show ?case
    using f err Suc.prems(3) by (simp add: Let_def del: upt_Suc)
qed

text \<open>Everything the call can return, whatever the node does.\<close>

lemma retry_result:
  assumes "retry_get_block_count fuel env attempt clk = Some (r, clk', ds)"
  shows "(\<exists>n. r = Inr n) \<or> (r = Inl err_ctx \<and> e_cancelled env clk') \<or>
         (\<exists>err. r = Inl (err_block_count err) \<and> \<not> is_transient_rpc_err err)"
  using assms
proof (induction fuel arbitrary: attempt clk r clk' ds)
  case (Suc fuel)
  show ?case
  proof (cases "e_block_count env clk")
    case (Inl err)
    show ?thesis
    proof (cases "e_cancelled env (Suc clk) \<or> \<not> is_transient_rpc_err err \<or> e_cancelled env (Suc (Suc clk))")
      case True
      then show ?thesis using Suc.prems Inl by (auto simp: Let_def split: if_splits)
    next
      case False
      then obtain ds' where "retry_get_block_count fuel env (Suc attempt) (Suc (Suc clk)) = Some (r, clk', ds')"
        using Suc.prems Inl by (auto simp: Let_def)
      then show ?thesis by (rule Suc.IH)
    qed
  next
    case (Inr n)
    then have "r = Inr n" using Suc.prems by simp
    then show ?thesis by blast
  qed
qed simp

lemma retry_clock:
  "retry_get_block_count fuel env attempt clk = Some (r, clk', ds) \<Longrightarrow> clk < clk'"
proof (induction fuel arbitrary: attempt clk r clk' ds)
  case (Suc fuel)
  show ?case
  proof (cases "\<exists>ds'. retry_get_block_count fuel env (Suc attempt) (Suc (Suc clk)) = Some (r, clk', ds')")
    case True
    then show ?thesis using Suc.IH by fastforce
  next
    case False
    then show ?thesis using Suc.prems by (auto simp: Let_def split: sum.splits if_splits)
  qed
qed simp

section \<open>ingestRange\<close>

text \<open>One height: hash, block, rows. The transaction's clock counts the RPC calls as well.\<close>

definition tick :: "txn \<Rightarrow> txn" where
  "tick x = x\<lparr>x_clock := Suc (x_clock x)\<rparr>"

definition ingest_height :: "env \<Rightarrow> int \<Rightarrow> int \<Rightarrow> txn \<Rightarrow> BlockV2 result \<times> txn" where
  "ingest_height env factor h x =
     (case e_block_hash env (x_clock x) h of
        Inl e \<Rightarrow> (Inl (err_block_hash h e), tick x)
      | Inr hash \<Rightarrow>
          (case e_block env (x_clock (tick x)) hash of
             Inl e \<Rightarrow> (Inl (err_get_block hash e), tick (tick x))
           | Inr blk \<Rightarrow>
               (case insert_block_bundle (e_fault env) factor blk (tick (tick x)) of
                  (Inl e, x') \<Rightarrow> (Inl (err_insert (blk_height blk) (blk_hash blk) e), x')
                | (Inr _, x') \<Rightarrow> (Inr blk, x'))))"

text \<open>The inner loop, with \<open>lastHeight\<close> and \<open>lastHash\<close> as its state.\<close>

fun ingest_heights :: "env \<Rightarrow> int \<Rightarrow> int list \<Rightarrow> int \<times> string \<Rightarrow> txn \<Rightarrow> (int \<times> string) result \<times> txn" where
  "ingest_heights env factor [] tip x = (Inr tip, x)"
| "ingest_heights env factor (h # hs) tip x =
     (case ingest_height env factor h x of
        (Inl e, x') \<Rightarrow> (Inl e, x')
      | (Inr blk, x') \<Rightarrow> ingest_heights env factor hs (blk_height blk, blk_hash blk) x')"

definition zero_hash :: string where
  "zero_hash = replicate 64 (CHR ''0'')"

text \<open>
  One batch: begin, the heights, the chain state, commit; an error rolls back, which leaves the
  database as it was before the transaction began.
\<close>

definition ingest_batch :: "env \<Rightarrow> int \<Rightarrow> int \<Rightarrow> int \<Rightarrow> world \<Rightarrow> unit result \<times> world" where
  "ingest_batch env factor batchStart batchEnd w =
     (case e_fault env (w_clock w) of
        Some e \<Rightarrow> (Inl (err_begin e), w\<lparr>w_clock := Suc (w_clock w)\<rparr>)
      | None \<Rightarrow>
          (let x0 = \<lparr>x_db = w_db w, x_aborted = False, x_clock = Suc (w_clock w)\<rparr>
           in case ingest_heights env factor [batchStart .. batchEnd] (-1, zero_hash) x0 of
                (Inl e, x1) \<Rightarrow> (Inl e, w\<lparr>w_clock := Suc (x_clock x1)\<rparr>)
              | (Inr (lastHeight, lastHash), x1) \<Rightarrow>
                  (case exec_tx (e_fault env) (sql_update_chain_state lastHeight lastHash) x1 of
                     (Inl e, x2) \<Rightarrow> (Inl e, w\<lparr>w_clock := Suc (x_clock x2)\<rparr>)
                   | (Inr _, x2) \<Rightarrow>
                       (case e_fault env (x_clock x2) of
                          Some e \<Rightarrow>
                            (Inl (err_commit batchStart batchEnd e),
                             \<lparr>w_db = (if e_commit_applied env (x_clock x2) then x_db x2 else w_db w),
                              w_clock = Suc (x_clock x2)\<rparr>)
                        | None \<Rightarrow> (Inr (), \<lparr>w_db = x_db x2, w_clock = Suc (x_clock x2)\<rparr>)))))"

text \<open>The end of the batch that starts at \<open>batchStart\<close>, in Go's arithmetic.\<close>

definition batch_end :: "int \<Rightarrow> int \<Rightarrow> int \<Rightarrow> int" where
  "batch_end batchBlocks batchStart endHeight =
     (let e = wrap64 (batchStart + batchBlocks - 1) in if e > endHeight then endHeight else e)"

fun ingest_range :: "nat \<Rightarrow> env \<Rightarrow> int \<Rightarrow> int \<Rightarrow> int \<Rightarrow> int \<Rightarrow> world \<Rightarrow> (unit result \<times> world) option" where
  "ingest_range 0 env factor batchBlocks batchStart endHeight w = None"
| "ingest_range (Suc fuel) env factor batchBlocks batchStart endHeight w =
     (if batchStart > endHeight then Some (Inr (), w)
      else if e_cancelled env (w_clock w) then Some (Inl err_ctx, w)
      else (let batchEnd = batch_end batchBlocks batchStart endHeight
            in case ingest_batch env factor batchStart batchEnd w of
                 (Inl e, w') \<Rightarrow> Some (Inl e, w')
               | (Inr _, w') \<Rightarrow>
                   ingest_range fuel env factor batchBlocks (wrap64 (batchEnd + 1)) endHeight w'))"

text \<open>\<open>ensureChainState\<close> and \<open>getDBTip\<close>; a missing \<open>chain_state\<close> row is an error.\<close>

definition ensure_chain_state :: "env \<Rightarrow> world \<Rightarrow> unit result \<times> world" where
  "ensure_chain_state env w =
     (case e_fault env (w_clock w) of
        Some e \<Rightarrow> (Inl e, w\<lparr>w_clock := Suc (w_clock w)\<rparr>)
      | None \<Rightarrow> (Inr (), \<lparr>w_db = sql_ensure_chain_state (w_db w), w_clock = Suc (w_clock w)\<rparr>))"

definition get_db_tip :: "env \<Rightarrow> world \<Rightarrow> (int \<times> string) result \<times> world" where
  "get_db_tip env w =
     (case e_fault env (w_clock w) of
        Some e \<Rightarrow> (Inl e, w\<lparr>w_clock := Suc (w_clock w)\<rparr>)
      | None \<Rightarrow> ((case d_chain (w_db w) of
                   None \<Rightarrow> Inl ''no rows in result set''
                 | Some (h, hash) \<Rightarrow> Inr (h, hash)), w\<lparr>w_clock := Suc (w_clock w)\<rparr>))"


section \<open>The database as a function of the chain\<close>

text \<open>
  Writing the chain state commutes with the statements of a block, so a database can be described
  by the blocks it holds and its tip.
\<close>

definition set_chain :: "(int \<times> string) option \<Rightarrow> db \<Rightarrow> db" where
  "set_chain c d = d\<lparr>d_chain := c\<rparr>"

lemma set_chain_sql:
  "sql_insert_block r (set_chain c d) = set_chain c (sql_insert_block r d)"
  "sql_insert_tx t (set_chain c d) = set_chain c (sql_insert_tx t d)"
  "sql_insert_input i (set_chain c d) = set_chain c (sql_insert_input i d)"
  "sql_insert_output p (set_chain c d) = set_chain c (sql_insert_output p d)"
  "sql_update_input_prev v a x n (set_chain c d) = set_chain c (sql_update_input_prev v a x n d)"
  "sql_mark_spent u m h y k (set_chain c d) = set_chain c (sql_mark_spent u m h y k d)"
  "sql_select_prevout x k (set_chain c d) = sql_select_prevout x k d"
  "set_chain c (set_chain c' d) = set_chain c d" "d_chain (set_chain c d) = c"
  by (simp_all add: set_chain_def sql_insert_block_def sql_insert_tx_def sql_insert_input_def
      sql_insert_output_def sql_update_input_prev_def sql_mark_spent_def sql_select_prevout_def)

lemma fold_set_chain:
  "(\<And>a d. f a (set_chain c d) = set_chain c (f a d)) \<Longrightarrow> fold f as (set_chain c d) = set_chain c (fold f as d)"
  by (induction as arbitrary: d) simp_all

lemma tx_effect_set_chain: "tx_effect factor b pt (set_chain c d) = set_chain c (tx_effect factor b pt d)"
  by (simp add: tx_effect_def links_effect_def outputs_effect_def inputs_effect_def link_effect_def
      Let_def set_chain_sql fold_set_chain)

lemma block_effect_set_chain: "block_effect factor b (set_chain c d) = set_chain c (block_effect factor b d)"
  by (simp add: block_effect_def set_chain_sql fold_set_chain tx_effect_set_chain)

definition tip_of :: "(int \<Rightarrow> BlockV2) \<Rightarrow> int \<Rightarrow> int \<times> string" where
  "tip_of chain k = (if k < 0 then (-1, zero_hash) else (k, char64 (blk_hash (chain k))))"

text \<open>The database after the blocks \<open>0 .. k\<close> of the chain, from \<open>d0\<close>.\<close>

definition snapshot :: "int \<Rightarrow> (int \<Rightarrow> BlockV2) \<Rightarrow> db \<Rightarrow> int \<Rightarrow> db" where
  "snapshot factor chain d0 k =
     set_chain (Some (tip_of chain k)) (fold (block_effect factor) (map chain [0 .. k]) d0)"

text \<open>
  The node serves one chain: every answer it gives (now or later) for a height that fits \<open>int64\<close> is the block of
  that chain. It may fail, be slow or be restarted at any time.
\<close>

definition height_ok :: "int \<Rightarrow> bool" where
  "height_ok h \<longleftrightarrow> 0 \<le> h \<and> in64 h"

lemma heights_ok: "0 \<le> s \<Longrightarrow> e < 2 ^ 63 \<Longrightarrow> \<forall>h \<in> set [s .. e]. height_ok h"
  by (auto simp: height_ok_def in64_def)

definition serves :: "env \<Rightarrow> (int \<Rightarrow> BlockV2) \<Rightarrow> bool" where
  "serves env chain \<longleftrightarrow>
     (\<forall>h. height_ok h \<longrightarrow> blk_height (chain h) = h) \<and>
     (\<forall>n h hash. height_ok h \<longrightarrow> e_block_hash env n h = Inr hash \<longrightarrow> hash = blk_hash (chain h)) \<and>
     (\<forall>n h b. height_ok h \<longrightarrow> e_block env n (blk_hash (chain h)) = Inr b \<longrightarrow> b = chain h)"

lemma ingest_height_ok:
  assumes "serves env chain" and "ingest_height env factor h x = (Inr blk, x')" and "\<not> x_aborted x" and "height_ok h"
  shows "blk = chain h" and "x_db x' = block_effect factor (chain h) (x_db x)" and "\<not> x_aborted x'"
proof -
  from assms(2) obtain hash where hash: "e_block_hash env (x_clock x) h = Inr hash"
    by (auto simp: ingest_height_def split: sum.splits prod.splits)
  with assms(2) obtain b where b: "e_block env (x_clock (tick x)) hash = Inr b"
    by (auto simp: ingest_height_def split: sum.splits prod.splits)
  with hash assms(2) obtain u where run: "insert_block_bundle (e_fault env) factor b (tick (tick x)) = (Inr u, x')"
    and eq: "b = blk"
    by (auto simp: ingest_height_def split: sum.splits prod.splits)
  have "hash = blk_hash (chain h)" using assms(1,4) hash by (auto simp: serves_def)
  then have bc: "b = chain h" using assms(1,4) b by (auto simp: serves_def)
  then show "blk = chain h" using eq by simp
  note R = tx_refinesD [OF insert_block_bundle_refines run]
  show "x_db x' = block_effect factor (chain h) (x_db x)" "\<not> x_aborted x'"
    using R(3,4) assms(3) bc by (simp_all add: tick_def)
qed

lemma ingest_heights_ok:
  assumes "serves env chain" and "ingest_heights env factor hs tip x = (Inr tip', x')" and "\<not> x_aborted x"
    and "\<forall>h \<in> set hs. height_ok h"
  shows "x_db x' = fold (block_effect factor) (map chain hs) (x_db x)" and "\<not> x_aborted x'"
    and "tip' = (if hs = [] then tip else (last hs, blk_hash (chain (last hs))))"
proof -
  have "x_db x' = fold (block_effect factor) (map chain hs) (x_db x) \<and> \<not> x_aborted x' \<and>
      tip' = (if hs = [] then tip else (last hs, blk_hash (chain (last hs))))"
    using assms(2,3,4)
  proof (induction hs arbitrary: tip x)
    case (Cons h hs)
    obtain r x1 where h1: "ingest_height env factor h x = (r, x1)" by fastforce
    with Cons.prems(1) obtain blk where r: "r = Inr blk"
      and rest: "ingest_heights env factor hs (blk_height blk, blk_hash blk) x1 = (Inr tip', x')"
      by (cases r) auto
    note H = ingest_height_ok [OF assms(1) h1 [unfolded r] Cons.prems(2)]
    have h: "height_ok h" "blk_height (chain h) = h" using assms(1) Cons.prems(3) by (simp_all add: serves_def)
    show ?case using Cons.IH [OF rest] H [OF h(1)] h(2) Cons.prems(3) by auto
  qed simp
  then show "x_db x' = fold (block_effect factor) (map chain hs) (x_db x)" "\<not> x_aborted x'"
    "tip' = (if hs = [] then tip else (last hs, blk_hash (chain (last hs))))" by auto
qed


text \<open>
  A batch is atomic: it ends in the snapshot before it or in the one at its last height, and
  success means the latter. A commit whose acknowledgement is lost may be either.
\<close>

lemma ingest_batch_snapshot:
  assumes sv: "serves env chain" and w: "w_db w = snapshot factor chain d0 (s - 1)" and s: "0 \<le> s" "s \<le> e" "e < 2 ^ 63"
    and run: "ingest_batch env factor s e w = (r, w')"
  shows "w_db w' = snapshot factor chain d0 e \<or> (w_db w' = snapshot factor chain d0 (s - 1) \<and> \<not> is_ok r)"
proof (cases "e_fault env (w_clock w)")
  case (Some err)
  then have "w_db w' = w_db w" "\<not> is_ok r" using run by (auto simp: ingest_batch_def)
  then show ?thesis using w by simp
next
  case None
  define x0 where "x0 = \<lparr>x_db = w_db w, x_aborted = False, x_clock = Suc (w_clock w)\<rparr>"
  obtain r1 x1 where hs: "ingest_heights env factor [s .. e] (-1, zero_hash) x0 = (r1, x1)" by fastforce
  note run' = run [unfolded ingest_batch_def None option.case Let_def, folded x0_def, unfolded hs]
  show ?thesis
  proof (cases r1)
    case (Inl err)
    then have "w_db w' = w_db w" "\<not> is_ok r" using run' by auto
    then show ?thesis using w by simp
  next
    case (Inr tip)
    have x0: "\<not> x_aborted x0" "x_db x0 = w_db w" by (simp_all add: x0_def)
    note H = ingest_heights_ok [OF sv hs [unfolded Inr] x0(1) heights_ok [OF s(1,3)], unfolded x0(2)]
    have ne: "[s .. e] \<noteq> []" "last [s .. e] = e" using s(2) by (simp_all add: upto_rec2)
    with H(3) s(2) have tip: "tip = (e, blk_hash (chain e))" by simp
    have split: "[0 .. e] = [0 .. s - 1] @ [s .. e]" using s(1,2) by (rule upto_split1)
    have "x_db x1 = set_chain (Some (tip_of chain (s - 1))) (fold (block_effect factor) (map chain [0 .. e]) d0)"
      by (simp add: H(1) w snapshot_def split fold_set_chain block_effect_set_chain)
    then have x2: "sql_update_chain_state e (blk_hash (chain e)) (x_db x1) = snapshot factor chain d0 e"
      using s by (simp add: sql_update_chain_state_def set_chain_def snapshot_def tip_of_def)
    obtain r2 x2' where ex: "exec_tx (e_fault env) (sql_update_chain_state e (blk_hash (chain e))) x1 = (r2, x2')"
      by fastforce
    show ?thesis
    proof (cases r2)
      case (Inl err)
      then have "w_db w' = w_db w" "\<not> is_ok r" using run' Inr tip ex by auto
      then show ?thesis using w by simp
    next
      case r2: (Inr u)
      have "x_db x2' = snapshot factor chain d0 e"
        using tx_refinesD(3) [OF tx_refines_exec ex] r2 H(2) x2 by simp
      then show ?thesis using run' Inr tip ex r2 w by (auto split: option.splits)
    qed
  qed
qed

lemma batch_end_bounds:
  assumes "1 \<le> B" and "s \<le> endH" and "- (2 ^ 63) \<le> s" and "endH + B < 2 ^ 63"
  shows "batch_end B s endH = min (s + B - 1) endH" and "s \<le> batch_end B s endH" and "batch_end B s endH \<le> endH"
    and "wrap64 (batch_end B s endH + 1) = batch_end B s endH + 1"
proof -
  have "wrap64 (s + B - 1) = s + B - 1" by (rule wrap64_id) (use assms in \<open>simp add: in64_def\<close>)
  then show eq: "batch_end B s endH = min (s + B - 1) endH" by (simp add: batch_end_def Let_def)
  show "s \<le> batch_end B s endH" "batch_end B s endH \<le> endH" using assms by (simp_all add: eq)
  then show "wrap64 (batch_end B s endH + 1) = batch_end B s endH + 1"
    using assms by (intro wrap64_id) (simp add: in64_def)
qed

text \<open>Whatever happens, the database ends in a snapshot at or above the one it started from.\<close>

lemma ingest_range_snapshot:
  assumes "serves env chain" and "1 \<le> B" and "endH + B < 2 ^ 63"
    and "w_db w = snapshot factor chain d0 k" and "-1 \<le> k"
    and "ingest_range fuel env factor B (k + 1) endH w = Some (r, w')"
  shows "\<exists>k'. k \<le> k' \<and> k' \<le> max k endH \<and> w_db w' = snapshot factor chain d0 k' \<and> (is_ok r \<longrightarrow> k' = max k endH)"
  using assms(4-6)
proof (induction fuel arbitrary: k w)
  case (Suc fuel)
  show ?case
  proof (cases "k + 1 > endH \<or> e_cancelled env (w_clock w)")
    case True
    then show ?thesis using Suc.prems by (intro exI [of _ k]) (auto split: if_splits)
  next
    case False
    then have le: "k + 1 \<le> endH" by simp
    define e where "e = batch_end B (k + 1) endH"
    have bnd: "k + 1 \<le> e" "e \<le> endH" "wrap64 (e + 1) = e + 1"
      using batch_end_bounds(2-4) [OF assms(2) le _ assms(3)] Suc.prems(2) by (simp_all add: e_def)
    obtain r1 w1 where b: "ingest_batch env factor (k + 1) e w = (r1, w1)" by fastforce
    have db: "w_db w1 = snapshot factor chain d0 e \<or> (w_db w1 = snapshot factor chain d0 k \<and> \<not> is_ok r1)"
      using ingest_batch_snapshot [OF assms(1) _ _ bnd(1) _ b, of d0] Suc.prems bnd(2) assms(2,3) by simp
    note run = Suc.prems(3) [simplified, folded e_def, unfolded b bnd(3)]
    show ?thesis
    proof (cases r1)
      case (Inl err)
      then have "w' = w1" "\<not> is_ok r" using run False le by (auto simp: Let_def b e_def [symmetric])
      then show ?thesis using db bnd le by (elim disjE conjE) (rule exI [of _ e], simp, rule exI [of _ k], simp)
    next
      case (Inr u)
      then have "ingest_range fuel env factor B (e + 1) endH w1 = Some (r, w')"
        using Suc.prems(3) False le b bnd(3) by (simp add: Let_def e_def [symmetric])
      moreover have "w_db w1 = snapshot factor chain d0 e" using db Inr by simp
      ultimately obtain k' where "e \<le> k'" "k' \<le> max e endH" "w_db w' = snapshot factor chain d0 k'"
        "is_ok r \<longrightarrow> k' = max e endH"
        using Suc.IH [of w1 e] bnd(1) Suc.prems(2) by auto
      then show ?thesis using bnd le by (intro exI [of _ k']) auto
    qed
  qed
qed simp


section \<open>Termination and success\<close>

text \<open>Every batch advances, so one unit of fuel per height is enough.\<close>

lemma ingest_range_terminates:
  assumes "1 \<le> B" and "endH + B < 2 ^ 63" and "- (2 ^ 63) \<le> s" and "nat (endH - s + 1) < fuel"
  shows "\<exists>r w'. ingest_range fuel env factor B s endH w = Some (r, w')"
  using assms(3,4)
proof (induction fuel arbitrary: s w)
  case (Suc fuel)
  show ?case
  proof (cases "s > endH \<or> e_cancelled env (w_clock w)")
    case True
    then show ?thesis by auto
  next
    case False
    define e where "e = batch_end B s endH"
    have bnd: "s \<le> e" "e \<le> endH" "wrap64 (e + 1) = e + 1"
      using batch_end_bounds(2-4) [OF assms(1) _ Suc.prems(1) assms(2)] False by (simp_all add: e_def)
    obtain r1 w1 where b: "ingest_batch env factor s e w = (r1, w1)" by fastforce
    have "\<exists>r w'. ingest_range fuel env factor B (e + 1) endH w1 = Some (r, w')"
      by (rule Suc.IH) (use bnd Suc.prems in linarith)+
    then show ?thesis using False bnd(3) by (cases r1) (auto simp: Let_def e_def [symmetric] b)
  qed
qed simp

text \<open>A program that succeeds whenever the database accepts its statements.\<close>

definition smooth_tx :: "(txn \<Rightarrow> unit result \<times> txn) \<Rightarrow> bool" where
  "smooth_tx m \<longleftrightarrow> (\<forall>x. \<not> x_aborted x \<longrightarrow> is_ok (fst (m x)) \<and> \<not> x_aborted (snd (m x)))"

lemma smooth_exec: "smooth_tx (exec_tx (\<lambda>_. None) f)"
  by (simp add: smooth_tx_def exec_tx_def)

lemma smooth_skip: "smooth_tx skip_tx"
  by (simp add: smooth_tx_def skip_tx_def)

lemma smooth_then:
  assumes "smooth_tx m" and "smooth_tx k"
  shows "smooth_tx (then_tx m k)"
  unfolding smooth_tx_def
proof (intro allI impI)
  fix x :: txn assume "\<not> x_aborted x"
  with assms(1) obtain u x1 where "m x = (Inr u, x1)" "\<not> x_aborted x1"
    unfolding smooth_tx_def by (metis is_okE prod.collapse)
  then show "is_ok (fst (then_tx m k x)) \<and> \<not> x_aborted (snd (then_tx m k x))"
    using assms(2) by (simp add: then_tx_def smooth_tx_def)
qed

lemma smooth_for: "(\<And>a. smooth_tx (body a)) \<Longrightarrow> smooth_tx (for_tx body as)"
proof (induction as)
  case (Cons a as)
  then have "smooth_tx (then_tx (body a) (for_tx body as))" by (intro smooth_then) auto
  then show ?case by (simp add: smooth_tx_def)
qed (simp add: smooth_tx_def)

lemma smooth_query_ignore: "(\<And>v. smooth_tx (k v)) \<Longrightarrow> smooth_tx (query_ignore (\<lambda>_. None) q dflt k)"
  by (simp add: smooth_tx_def query_ignore_def query_tx_def)

lemma smooth_block: "smooth_tx (insert_block_bundle (\<lambda>_. None) factor b)"
proof -
  have link: "smooth_tx (link_input (\<lambda>_. None) b t iv)" for t iv
  proof (cases "in_txid (snd iv) = ''''")
    case False
    then show ?thesis unfolding link_input_def [abs_def] Let_def
      using smooth_query_ignore [OF smooth_then [OF smooth_exec smooth_exec]] by (simp add: smooth_tx_def)
  qed (simp add: link_input_def [abs_def] Let_def smooth_skip smooth_tx_def skip_tx_def)
  have "smooth_tx (insert_tx_bundle (\<lambda>_. None) factor b pt)" for pt
    unfolding insert_tx_bundle_def Let_def
    by (intro smooth_then smooth_exec smooth_for) (auto intro: smooth_skip smooth_for link)
  then show ?thesis unfolding insert_block_bundle_def by (intro smooth_then smooth_exec smooth_for)
qed

text \<open>A node that answers up to the height \<open>hi\<close> and a database that accepts everything, without cancellation.\<close>

definition healthy :: "env \<Rightarrow> (int \<Rightarrow> BlockV2) \<Rightarrow> int \<Rightarrow> bool" where
  "healthy env chain hi \<longleftrightarrow>
     (\<forall>n. e_fault env n = None) \<and> (\<forall>n. \<not> e_cancelled env n) \<and>
     (\<forall>n. \<forall>h \<in> {0 .. hi}. e_block_hash env n h = Inr (blk_hash (chain h))) \<and>
     (\<forall>n. \<forall>h \<in> {0 .. hi}. e_block env n (blk_hash (chain h)) = Inr (chain h))"

lemma healthy_heights:
  assumes "healthy env chain hi" and "\<not> x_aborted x" and "set hs \<subseteq> {0 .. hi}"
  shows "\<exists>tip' x'. ingest_heights env factor hs tip x = (Inr tip', x') \<and> \<not> x_aborted x'"
  using assms(2,3)
proof (induction hs arbitrary: tip x)
  case (Cons h hs)
  have ft: "e_fault env = (\<lambda>_. None)" using assms(1) by (auto simp: healthy_def)
  let ?run = "insert_block_bundle (\<lambda>_. None) factor (chain h) (tick (tick x))"
  have "is_ok (fst ?run) \<and> \<not> x_aborted (snd ?run)"
    using smooth_block [of factor "chain h"] Cons.prems by (simp add: smooth_tx_def tick_def)
  then obtain u x1 where x1: "?run = (Inr u, x1)" "\<not> x_aborted x1" by (cases ?run) (auto elim: is_okE)
  have "ingest_height env factor h x = (Inr (chain h), x1)"
    using assms(1) Cons.prems(2) x1 by (simp add: ingest_height_def healthy_def ft)
  then show ?case using Cons.IH [OF x1(2)] Cons.prems(2) by simp
qed simp

lemma healthy_batch:
  assumes "healthy env chain hi" and "0 \<le> s" and "e \<le> hi"
  shows "is_ok (fst (ingest_batch env factor s e w))"
proof -
  have ft: "e_fault env = (\<lambda>_. None)" using assms(1) by (auto simp: healthy_def)
  obtain tip x1 where x1: "ingest_heights env factor [s .. e] (-1, zero_hash)
      \<lparr>x_db = w_db w, x_aborted = False, x_clock = Suc (w_clock w)\<rparr> = (Inr tip, x1)" "\<not> x_aborted x1"
    using healthy_heights [OF assms(1), of "\<lparr>x_db = w_db w, x_aborted = False, x_clock = Suc (w_clock w)\<rparr>" "[s .. e]"] assms(2,3)
    by fastforce
  then show ?thesis by (simp add: ingest_batch_def ft Let_def exec_tx_def split: prod.splits)
qed

lemma ingest_range_healthy:
  assumes "healthy env chain hi" and "1 \<le> B" and "endH + B < 2 ^ 63" and "endH \<le> hi" and "0 \<le> s"
    and "nat (endH - s + 1) < fuel"
  shows "\<exists>w'. ingest_range fuel env factor B s endH w = Some (Inr (), w')"
  using assms(5,6)
proof (induction fuel arbitrary: s w)
  case (Suc fuel)
  show ?case
  proof (cases "s > endH")
    case False
    define e where "e = batch_end B s endH"
    have bnd: "s \<le> e" "e \<le> endH" "wrap64 (e + 1) = e + 1"
      using batch_end_bounds(2-4) [OF assms(2) _ _ assms(3)] Suc.prems(1) False by (simp_all add: e_def)
    obtain u w1 where b: "ingest_batch env factor s e w = (Inr u, w1)"
      using healthy_batch [OF assms(1) Suc.prems(1), of e factor w] bnd(2) assms(4)
      by (cases "ingest_batch env factor s e w") (auto elim: is_okE)
    have "\<exists>w'. ingest_range fuel env factor B (e + 1) endH w1 = Some (Inr (), w')"
      by (rule Suc.IH) (use bnd Suc.prems in linarith)+
    then show ?thesis using False bnd(3) assms(1) by (simp add: Let_def e_def [symmetric] b healthy_def)
  qed simp
qed simp

text \<open>
  When the end of the batch overflows, the batch is empty: it writes no block and resets the
  chain state to "nothing indexed".
\<close>

lemma batch_end_overflow:
  assumes "in64 B" and "in64 s" and "2 ^ 63 \<le> s + B - 1" and "0 \<le> endH"
  shows "batch_end B s endH = s + B - 1 - 2 ^ 64" and "batch_end B s endH < s"
proof -
  have "(s + B - 1 + 2 ^ 63) mod 2 ^ 64 = (s + B - 1 - 2 ^ 63) mod (2 ^ 64 :: int)"
    by (simp add: mod_eq_dvd_iff)
  also have "\<dots> = s + B - 1 - 2 ^ 63" by (rule mod_pos_pos_trivial) (use assms in \<open>simp_all add: in64_def\<close>)
  finally have "wrap64 (s + B - 1) = s + B - 1 - 2 ^ 64" by (simp add: wrap64_def)
  then show "batch_end B s endH = s + B - 1 - 2 ^ 64" "batch_end B s endH < s"
    using assms by (auto simp: batch_end_def Let_def in64_def)
qed

lemma ingest_batch_empty:
  assumes "e < s" and "\<And>n. e_fault env n = None" and "d_chain (w_db w) \<noteq> None"
  shows "\<exists>w'. ingest_batch env factor s e w = (Inr (), w') \<and>
     w_db w' = set_chain (Some (-1, zero_hash)) (w_db w)"
proof -
  have "char64 zero_hash = zero_hash" by (simp add: char64_def zero_hash_def)
  with assms show ?thesis
    by (auto simp: ingest_batch_def Let_def exec_tx_def sql_update_chain_state_def set_chain_def)
qed


section \<open>Properties\<close>

text \<open>C4: crash consistency of \<open>ingestRange\<close>. Let the node serve one chain and the database hold the
  blocks up to its recorded tip \<open>k\<close>. Then, whatever happens during the run (node errors,
  statement errors at any point, cancellation, a lost commit acknowledgement), the database ends
  holding exactly the blocks up to some height between \<open>k\<close> and the target, with the recorded tip
  at that height; it never holds part of a batch. If the run reports success it holds them all.\<close>

theorem ingest_range_crash_consistent:
  assumes "serves env chain" and "1 \<le> B" and "endH + B < 2 ^ 63"
    and "w_db w = snapshot factor chain d0 k" and "-1 \<le> k"
    and "ingest_range fuel env factor B (k + 1) endH w = Some (r, w')"
  shows "\<exists>k'. k \<le> k' \<and> k' \<le> max k endH \<and> w_db w' = snapshot factor chain d0 k' \<and>
     (is_ok r \<longrightarrow> k' = max k endH)"
  using assms by (rule ingest_range_snapshot)

text \<open>C26: \<open>ingestRange\<close> returns: with a positive batch size and no overflow, one loop iteration per
  height is enough, whatever node and database answer; when they answer without errors and nobody
  cancels, it returns success with the database at the target height.\<close>

theorem ingest_range_returns:
  assumes "1 \<le> B" and "endH + B < 2 ^ 63" and "-1 \<le> k" and "nat (endH - k) < fuel"
  shows "(\<exists>r w'. ingest_range fuel env factor B (k + 1) endH w = Some (r, w')) \<and>
     (healthy env chain endH \<and> serves env chain \<and> w_db w = snapshot factor chain d0 k \<longrightarrow>
        (\<exists>w'. ingest_range fuel env factor B (k + 1) endH w = Some (Inr (), w') \<and>
              w_db w' = snapshot factor chain d0 (max k endH)))"
proof (intro conjI impI)
  have lo: "- (2 ^ 63) \<le> k + 1" using assms(3) by simp
  have fu: "nat (endH - (k + 1) + 1) < fuel" using assms(4) by simp
  show "\<exists>r w'. ingest_range fuel env factor B (k + 1) endH w = Some (r, w')"
    by (rule ingest_range_terminates [OF assms(1,2) lo fu])
  assume H: "healthy env chain endH \<and> serves env chain \<and> w_db w = snapshot factor chain d0 k"
  then obtain w' where w': "ingest_range fuel env factor B (k + 1) endH w = Some (Inr (), w')"
    using ingest_range_healthy [OF _ assms(1,2) order.refl _ fu, of env chain factor w] assms(3) by auto
  then show "\<exists>w'. ingest_range fuel env factor B (k + 1) endH w = Some (Inr (), w') \<and>
      w_db w' = snapshot factor chain d0 (max k endH)"
    using ingest_range_snapshot [OF _ assms(1,2) _ assms(3) w', of chain d0] H by auto
qed

text \<open>C39: if \<open>getblockcount\<close> fails \<open>k\<close> times with transient errors and then answers, and nobody
  cancels, \<open>retryGetBlockCount\<close> returns that answer after exactly \<open>k\<close> sleeps, whose lengths are the
  schedule 5, 10, 20, 30, 60, 120, 300, 600 seconds and 600 from then on.\<close>

theorem retry_get_block_count_backoff:
  assumes "\<And>j. j < k \<Longrightarrow> \<exists>err. e_block_count env (clk + 2 * j) = Inl err \<and> is_transient_rpc_err err"
    and "e_block_count env (clk + 2 * k) = Inr n" and "\<And>c. \<not> e_cancelled env c" and "k < fuel"
  shows "\<exists>sleeps. retry_get_block_count fuel env 0 clk = Some (Inr n, Suc (clk + 2 * k), sleeps) \<and>
     length sleeps = k \<and> sorted sleeps \<and> (\<forall>i < k. sleeps ! i = (if i < 8 then rpc_retry_backoff ! i else 600))"
proof -
  let ?s = "map (\<lambda>i. retry_delay (0 + i)) [0 ..< k]"
  have run: "retry_get_block_count fuel env 0 clk = Some (Inr n, Suc (clk + 2 * k), ?s)"
    by (rule retry_returns_from) (use assms in auto)
  have "sorted ?s" by (auto simp: sorted_iff_nth_mono intro: retry.delay_mono)
  moreover have "?s ! i = (if i < 8 then rpc_retry_backoff ! i else 600)" if "i < k" for i
  proof (cases "i < 8")
    case True
    then have "min i (length rpc_retry_backoff - 1) = i" by (simp add: rpc_retry_backoff_def)
    then show ?thesis using that True by (simp add: retry.clamped)
  next
    case False
    then show ?thesis using that retry.delay_last [of i] by (simp add: rpc_retry_backoff_def)
  qed
  ultimately show ?thesis using run by auto
qed

text \<open>A batch size so large that \<open>batchStart + BatchBlocks - 1\<close> overflows makes the batch empty: with
  a database that accepts every statement, the batch commits without reading a block and resets the
  recorded tip to -1.\<close>

theorem oversized_batch_resets_tip:
  assumes "in64 B" and "in64 s" and "2 ^ 63 \<le> s + B - 1" and "0 \<le> endH"
    and "\<And>n. e_fault env n = None" and "d_chain (w_db w) \<noteq> None"
  shows "\<exists>w'. ingest_batch env factor s (batch_end B s endH) w = (Inr (), w') \<and>
     d_chain (w_db w') = Some (-1, zero_hash) \<and> d_blocks (w_db w') = d_blocks (w_db w)"
  using ingest_batch_empty [OF batch_end_overflow(2) [OF assms(1-4)] assms(5,6), of factor]
  by (auto simp: set_chain_def)

text \<open>The classification of errors looks for the characters 503 anywhere in the text, so that any
  error at a height whose decimal contains them, however permanent, counts as transient and is retried
  for ever.\<close>

theorem permanent_error_looks_transient:
  assumes "contains (itoa h) ''503''"
  shows "is_transient_rpc_err (err_block_hash h e)"
proof -
  obtain a b where "itoa h = a @ ''503'' @ b" using assms unfolding contains_iff by blast
  then have "contains (err_block_hash h e) ''503''"
    unfolding contains_iff err_block_hash_def
    by (intro exI [of _ "''getblockhash('' @ a"] exI [of _ "b @ ''): '' @ e"]) simp
  then show ?thesis by (simp add: is_transient_rpc_err_def)
qed

theorem permanent_error_looks_transient_witness:
  "is_transient_rpc_err (err_block_hash 250300 ''rpc error -8: Block height out of range'')"
  by (rule permanent_error_looks_transient) code_simp

text \<open>A chain and an environment for the witnesses: the node refuses two connections, then answers;
  one statement of the second batch fails.\<close>

definition sample_env :: "fault \<Rightarrow> env" where
  "sample_env flt = \<lparr>e_fault = flt, e_commit_applied = (\<lambda>_. False),
     e_block_count = (\<lambda>n. if n < 4 then Inl ''dial tcp: connection refused'' else Inr 2),
     e_block_hash = (\<lambda>_ h. Inr (blk_hash (sample_block h))),
     e_block = (\<lambda>_ hash. case read_int (drop 1 hash) of None \<Rightarrow> Inl ''Block not found''
        | Some h \<Rightarrow> Inr (sample_block h)),
     e_cancelled = (\<lambda>_. False)\<rparr>"

definition one_fault :: "nat \<Rightarrow> fault" where
  "one_fault k n = (if n = k then Some ''server closed the connection'' else None)"

definition sample_world :: world where
  "sample_world = \<lparr>w_db = sql_ensure_chain_state empty_db, w_clock = 0\<rparr>"

lemma serves_sample: "serves (sample_env flt) sample_block"
  by (auto simp: serves_def sample_env_def sample_block_def read_int_itoa)

lemma sample_world_snapshot: "w_db sample_world = snapshot factor sample_block empty_db (-1)"
  by (simp add: sample_world_def snapshot_def sql_ensure_chain_state_def empty_db_def set_chain_def
      tip_of_def zero_hash_def)

lemma sample_interrupted:
  "ingest_range 5 (sample_env (one_fault 19)) 100000000 1 (-1 + 1) 2 sample_world =
     Some (Inl (err_insert 1 ''b1'' ''server closed the connection''),
       snd (the (ingest_range 5 (sample_env (one_fault 19)) 100000000 1 0 2 sample_world)))"
  by code_simp

theorem ingest_range_crash_consistent_witness:
  "\<exists>k'. -1 \<le> k' \<and> k' \<le> 2 \<and>
     w_db (snd (the (ingest_range 5 (sample_env (one_fault 19)) 100000000 1 0 2 sample_world))) =
       snapshot 100000000 sample_block empty_db k'"
  using ingest_range_crash_consistent [OF serves_sample _ _ sample_world_snapshot _ sample_interrupted] by simp

lemma healthy_sample: "healthy (sample_env no_faults) sample_block hi"
  by (simp add: healthy_def sample_env_def no_faults_def sample_block_def read_int_itoa)

theorem ingest_range_returns_witness:
  "\<exists>w'. ingest_range 4 (sample_env no_faults) 100000000 500 0 2 sample_world = Some (Inr (), w') \<and>
     w_db w' = snapshot 100000000 sample_block empty_db 2"
  using ingest_range_returns [of 500 2 "-1" 4 "sample_env no_faults" 100000000 sample_world sample_block empty_db]
    healthy_sample serves_sample sample_world_snapshot by simp

theorem retry_get_block_count_backoff_witness:
  "\<exists>sleeps. retry_get_block_count 3 (sample_env no_faults) 0 0 = Some (Inr 2, 5, sleeps) \<and> length sleeps = 2"
proof -
  have "is_transient_rpc_err ''dial tcp: connection refused''" by code_simp
  then have "\<exists>err. e_block_count (sample_env no_faults) (0 + 2 * j) = Inl err \<and> is_transient_rpc_err err"
    if "j < 2" for j using that by (simp add: sample_env_def)
  then show ?thesis
    using retry_get_block_count_backoff [of 2 "sample_env no_faults" 0 2 3] by (auto simp: sample_env_def)
qed

theorem oversized_batch_resets_tip_witness:
  "\<exists>w'. ingest_batch (sample_env no_faults) 100000000 3 (batch_end (2 ^ 63 - 1) 3 10) sample_world = (Inr (), w') \<and>
     d_chain (w_db w') = Some (-1, zero_hash)"
  using oversized_batch_resets_tip [of "2 ^ 63 - 1" 3 10 "sample_env no_faults" sample_world 100000000]
  by (auto simp: in64_def sample_env_def no_faults_def sample_world_def sql_ensure_chain_state_def empty_db_def)

end
