(* ===== verification/Go_Time.thy ===== *)
theory Go_Time
  imports Go_Float Go_Text
begin

text \<open>
  The parts of Go's \<open>time\<close> and \<open>path/filepath\<close> the programs use: \<open>time.ParseDuration\<close> on
  nanosecond counts (with its overflow checks and its floating-point fractions) and
  \<open>filepath.Clean\<close> / \<open>filepath.Join\<close>. The round trips show that every printed number of seconds
  or milliseconds is read back exactly.
\<close>

section \<open>ParseDuration\<close>

definition is_digit :: "char \<Rightarrow> bool" where
  "is_digit c \<longleftrightarrow> digit_val c \<noteq> None"

text \<open>\<open>leadingInt\<close>: \<open>None\<close> is an overflow.\<close>

fun leading_int :: "int \<Rightarrow> string \<Rightarrow> (int \<times> string) option" where
  "leading_int x [] = Some (x, [])"
| "leading_int x (c # cs) =
     (case digit_val c of
        None \<Rightarrow> Some (x, c # cs)
      | Some d \<Rightarrow> if x > 2 ^ 63 div 10 then None
                  else if x * 10 + d > 2 ^ 63 then None
                  else leading_int (x * 10 + d) cs)"

text \<open>\<open>leadingFraction\<close>: digits that do not fit are dropped.\<close>

fun leading_fraction :: "int \<Rightarrow> f64 \<Rightarrow> bool \<Rightarrow> string \<Rightarrow> int \<times> f64 \<times> string" where
  "leading_fraction x scale over [] = (x, scale, [])"
| "leading_fraction x scale over (c # cs) =
     (case digit_val c of
        None \<Rightarrow> (x, scale, c # cs)
      | Some d \<Rightarrow> if over \<or> x > (2 ^ 63 - 1) div 10 \<or> x * 10 + d > 2 ^ 63
                  then leading_fraction x scale True cs
                  else leading_fraction (x * 10 + d) (scale * Fin 10) False cs)"

text \<open>Nanoseconds of a unit; both spellings of the micro sign are accepted.\<close>

definition unit_of :: "string \<Rightarrow> int option" where
  "unit_of u =
     (if u = ''ns'' then Some 1
      else if u = ''us'' \<or> u = [CHR 0xC2, CHR 0xB5, CHR ''s''] \<or> u = [CHR 0xCE, CHR 0xBC, CHR ''s''] then Some 1000
      else if u = ''ms'' then Some 1000000
      else if u = ''s'' then Some 1000000000
      else if u = ''m'' then Some 60000000000
      else if u = ''h'' then Some 3600000000000 else None)"

definition unit_char :: "char \<Rightarrow> bool" where
  "unit_char c \<longleftrightarrow> c \<noteq> CHR ''.'' \<and> \<not> is_digit c"

text \<open>One \<open>number unit\<close> group: its nanoseconds and the rest of the text.\<close>

definition duration_group :: "string \<Rightarrow> (int \<times> string) option" where
  "duration_group s =
     (if s = [] \<or> \<not> (hd s = CHR ''.'' \<or> is_digit (hd s)) then None
      else case leading_int 0 s of
        None \<Rightarrow> None
      | Some (v, s1) \<Rightarrow>
          (let pre = (length s1 \<noteq> length s);
               dot = (s1 \<noteq> [] \<and> hd s1 = CHR ''.'');
               (f, scale, s2) = (if dot then leading_fraction 0 (Fin 1) False (tl s1) else (0, Fin 1, s1));
               post = (dot \<and> length s2 \<noteq> length (tl s1));
               u = takeWhile unit_char s2; s3 = dropWhile unit_char s2
           in if \<not> pre \<and> \<not> post then None
              else if u = [] then None
              else case unit_of u of
                None \<Rightarrow> None
              | Some unit \<Rightarrow>
                  if v > 2 ^ 63 div unit then None
                  else (let v' = (if f > 0 then v * unit + i64_of_f (f_of_int f * (f_of_int unit / scale))
                                  else v * unit)
                        in if v' > 2 ^ 63 then None else Some (v', s3))))"

lemma leading_int_length: "leading_int x s = Some (v, s1) \<Longrightarrow> length s1 \<le> length s"
  by (induction x s rule: leading_int.induct) (fastforce split: option.splits if_splits)+

lemma leading_fraction_length: "leading_fraction x sc ov s = (f, sc', s1) \<Longrightarrow> length s1 \<le> length s"
  by (induction x sc ov s rule: leading_fraction.induct) (fastforce split: option.splits if_splits)+

lemma duration_group_shorter:
  assumes "duration_group s = Some (v, s3)"
  shows "length s3 < length s"
proof -
  from assms obtain n s1 where s1: "leading_int 0 s = Some (n, s1)"
    by (auto simp: duration_group_def split: if_splits option.splits)
  define dot where "dot = (s1 \<noteq> [] \<and> hd s1 = CHR ''.'')"
  obtain f scale s2 where fr: "(if dot then leading_fraction 0 (Fin 1) False (tl s1) else (0, Fin 1, s1)) = (f, scale, s2)"
    by (metis prod_cases3)
  have "length s2 \<le> length s1"
    using fr leading_fraction_length [of 0 "Fin 1" False "tl s1" f scale s2] by (auto split: if_splits)
  moreover have "takeWhile unit_char s2 \<noteq> [] \<and> s3 = dropWhile unit_char s2"
    using assms s1 fr by (auto simp: duration_group_def Let_def dot_def [symmetric] split: if_splits option.splits)
  then have "length s3 < length s2"
    by (metis length_append length_greater_0_conv less_add_same_cancel2 takeWhile_dropWhile_id)
  ultimately show ?thesis using leading_int_length [OF s1] by linarith
qed

text \<open>The loop over the groups; the sum is a \<open>uint64\<close> and wraps.\<close>

function duration_groups :: "int \<Rightarrow> string \<Rightarrow> int option" where
  "duration_groups d s =
     (if s = [] then Some d
      else case duration_group s of
        None \<Rightarrow> None
      | Some (v, s') \<Rightarrow> (let d' = (d + v) mod 2 ^ 64
                         in if d' > 2 ^ 63 then None else duration_groups d' s'))"
  by pat_completeness auto
termination
  by (relation "measure (\<lambda>(d, s). length s)") (auto dest: duration_group_shorter)

declare duration_groups.simps [simp del]

definition parse_duration :: "string \<Rightarrow> int option" where
  "parse_duration s =
     (let neg = (s \<noteq> [] \<and> hd s = CHR ''-'');
          t = (if s \<noteq> [] \<and> (hd s = CHR ''-'' \<or> hd s = CHR ''+'') then tl s else s)
      in if t = ''0'' then Some 0
         else if t = [] then None
         else case duration_groups 0 t of
           None \<Rightarrow> None
         | Some d \<Rightarrow> if neg then Some (wrap64 (- d))
                     else if d > 2 ^ 63 - 1 then None else Some d)"

lemma digit_val_range: "digit_val c = Some d \<Longrightarrow> 0 \<le> d"
proof -
  assume "digit_val c = Some d"
  then have "(48 :: nat) \<le> of_char c" and d: "d = of_char c - 48"
    by (auto simp: digit_val_def less_eq_char_def split: if_splits)
  then have "(48 :: int) \<le> int (of_char c)" by linarith
  then show ?thesis unfolding d of_nat_of_char by simp
qed

lemma leading_int_nonneg: "0 \<le> x \<Longrightarrow> leading_int x s = Some (v, s1) \<Longrightarrow> 0 \<le> v"
  by (induction x s rule: leading_int.induct) (auto split: option.splits if_splits dest: digit_val_range)

lemma parse_duration_in64: "parse_duration s = Some d \<Longrightarrow> in64 d"
proof -
  have "duration_groups d0 t = Some d' \<Longrightarrow> 0 \<le> d0 \<Longrightarrow> 0 \<le> d'" for d0 t d'
  proof (induction d0 t rule: duration_groups.induct)
    case (1 d0 t)
    then show ?case
      by (subst (asm) duration_groups.simps) (auto simp: Let_def split: if_splits option.splits)
  qed
  then show "parse_duration s = Some d \<Longrightarrow> in64 d"
    by (fastforce simp: parse_duration_def Let_def in64_def wrap64_def split: if_splits option.splits)
qed

text \<open>Reading a printed number followed by a unit.\<close>

lemma is_digit_dec: "0 \<le> n \<Longrightarrow> c \<in> set (dec_digits n) \<Longrightarrow> is_digit c"
  using dec_digits_set [of n] by (auto simp: is_digit_def digit_val_def)

lemma leading_int_append:
  "(\<forall>c \<in> set ds. is_digit c) \<Longrightarrow> parse_digits x ds = Some n \<Longrightarrow> 0 \<le> x \<Longrightarrow> n \<le> 2 ^ 63 div 10 \<Longrightarrow>
   (rest = [] \<or> \<not> is_digit (hd rest)) \<Longrightarrow> leading_int x (ds @ rest) = Some (n, rest)"
proof (induction ds arbitrary: x)
  case Nil
  then show ?case by (cases rest) (auto simp: is_digit_def)
next
  case (Cons c cs)
  from Cons.prems(1) obtain d where d: "digit_val c = Some d" by (auto simp: is_digit_def)
  have d0: "0 \<le> d" by (rule digit_val_range [OF d])
  have mono: "parse_digits y cs' = Some n' \<Longrightarrow> 0 \<le> y \<Longrightarrow> y \<le> n'" for y cs' n'
  proof (induction cs' arbitrary: y)
    case (Cons c' cs')
    then obtain d' where d': "digit_val c' = Some d'" "parse_digits (10 * y + d') cs' = Some n'"
      by (auto split: option.splits)
    with Cons.IH [OF d'(2)] Cons.prems digit_val_range [OF d'(1)] show ?case by linarith
  qed simp
  have p: "parse_digits (10 * x + d) cs = Some n" using Cons.prems(2) d by simp
  have "10 * x + d \<le> n" using mono [OF p] Cons.prems(3) d0 by linarith
  then have "\<not> x > 2 ^ 63 div 10" "\<not> x * 10 + d > 2 ^ 63" using Cons.prems(3,4) d0 by linarith+
  then show ?case using Cons.IH [of "10 * x + d"] Cons.prems p d d0 by (simp add: mult.commute)
qed

lemma parse_duration_seconds:
  assumes "0 \<le> n" and "n \<le> 9000000000"
  shows "parse_duration (itoa n @ ''s'') = Some (n * 1000000000)"
proof -
  have set: "\<forall>c \<in> set (dec_digits n). is_digit c" using is_digit_dec [OF assms(1)] by blast
  have ne: "dec_digits n \<noteq> []" by simp
  then have hd: "is_digit (hd (dec_digits n @ ''s''))" using set by (simp add: hd_append)
  have li: "leading_int 0 (dec_digits n @ ''s'') = Some (n, ''s'')"
    by (rule leading_int_append) (use set parse_digits_dec [OF assms(1)] assms in \<open>auto simp: is_digit_def digit_val_def\<close>)
  have uc: "unit_char (CHR ''s'')" by (simp add: unit_char_def is_digit_def digit_val_def)
  have g: "duration_group (dec_digits n @ ''s'') = Some (n * 1000000000, [])"
    using hd li ne assms uc by (simp add: duration_group_def Let_def unit_of_def)
  have "duration_groups 0 (dec_digits n @ ''s'') = Some (n * 1000000000)"
    using g assms by (simp add: duration_groups.simps [of 0] duration_groups.simps [of _ "[]"] Let_def)
  moreover have "hd (dec_digits n @ ''s'') \<noteq> CHR ''-''" "hd (dec_digits n @ ''s'') \<noteq> CHR ''+''"
    using hd by (auto simp: is_digit_def digit_val_def)
  moreover have "dec_digits n @ ''s'' \<noteq> ''0''" by (cases "dec_digits n") auto
  ultimately show ?thesis using assms by (simp add: parse_duration_def itoa_def Let_def)
qed

section \<open>Paths\<close>

fun split_on :: "char \<Rightarrow> string \<Rightarrow> string list" where
  "split_on sep [] = [[]]"
| "split_on sep (c # cs) =
     (if c = sep then [] # split_on sep cs
      else (case split_on sep cs of [] \<Rightarrow> [[c]] | w # ws \<Rightarrow> (c # w) # ws))"

fun join_with :: "string \<Rightarrow> string list \<Rightarrow> string" where
  "join_with sep [] = []"
| "join_with sep [w] = w"
| "join_with sep (w # v # ws) = w @ sep @ join_with sep (v # ws)"

text \<open>
  \<open>filepath.Clean\<close> by elements: \<open>.\<close> and empty elements go, \<open>..\<close> removes the element before it,
  except at the front of a relative path.
\<close>

definition clean_step :: "bool \<Rightarrow> string \<Rightarrow> string list \<Rightarrow> string list" where
  "clean_step rooted w out =
     (if w = '''' \<or> w = ''.'' then out
      else if w = ''..'' then
        (if out \<noteq> [] \<and> last out \<noteq> ''..'' then butlast out else if rooted then out else out @ [''..''])
      else out @ [w])"

definition clean_path :: "string \<Rightarrow> string" where
  "clean_path p =
     (let rooted = has_prefix p ''/'';
          out = fold (clean_step rooted) (split_on (CHR ''/'') p) []
      in if rooted then ''/'' @ join_with ''/'' out
         else if out = [] then ''.'' else join_with ''/'' out)"

text \<open>\<open>filepath.Join\<close> drops the empty elements before the first non-empty one.\<close>

definition join_path :: "string list \<Rightarrow> string" where
  "join_path ws = (let vs = dropWhile (\<lambda>w. w = '''') ws in if vs = [] then '''' else clean_path (join_with ''/'' vs))"

end
