(* ===== verification/Indexer_Config.thy ===== *)
theory Indexer_Config
  imports Go_Time
begin

text \<open>
  \<open>indexer/internal/config/config.go\<close>: the \<open>settings.conf\<close> parser, the lookup that lets the process
  environment override the file, and \<open>build\<close> with its defaults, validation and clamping. The
  operating system is three functions: \<open>getenv\<close> (an unset variable is the empty string), \<open>stat\<close>
  (whether a path exists) and the contents of \<open>settings.conf\<close> (\<open>None\<close> when it cannot be opened).
\<close>

record RPCConfig =
  r_url :: string
  r_user :: string
  r_pass :: string
  r_cookie_file :: string
  r_timeout :: int
  r_insecure_tls :: bool
  r_max_response_size :: int

record Config =
  c_postgres_dsn :: string
  c_confirmations :: int
  c_batch_blocks :: int
  c_poll_interval :: int
  c_log_verbose :: bool
  c_base_unit_factor :: int
  c_zmq_endpoint :: string
  c_rpc :: RPCConfig

datatype config_error = PgDsnRequired | AuthRequired | UrlRequired | UrlScheme string
datatype conf_error = OpenFailed | TokenTooLong

section \<open>Parsing of values\<close>

definition parse_int_def :: "string \<Rightarrow> int \<Rightarrow> int" where
  "parse_int_def s d = (case parse_int64 s of None \<Rightarrow> d | Some n \<Rightarrow> n)"

definition parse_int64_def :: "string \<Rightarrow> int \<Rightarrow> int" where
  "parse_int64_def s d = (case parse_int64 s of None \<Rightarrow> d | Some n \<Rightarrow> n)"

definition parse_dur_def :: "string \<Rightarrow> int \<Rightarrow> int" where
  "parse_dur_def s d = (case parse_duration s of None \<Rightarrow> d | Some n \<Rightarrow> n)"

definition parse_bool_def :: "string \<Rightarrow> bool \<Rightarrow> bool" where
  "parse_bool_def s d =
     (let t = to_lower s
      in if t = '''' then d else t = ''1'' \<or> t = ''true'' \<or> t = ''yes'' \<or> t = ''y'')"

section \<open>The file\<close>

text \<open>
  \<open>bufio.Scanner\<close> with \<open>ScanLines\<close>: the text between newlines, a final line without one, no
  carriage return at the end; a line that does not fit the 64 KiB buffer ends the scan.
\<close>

definition drop_cr :: "string \<Rightarrow> string" where
  "drop_cr l = (if l \<noteq> [] \<and> last l = CHR 0x0D then butlast l else l)"

definition raw_lines :: "string \<Rightarrow> string list" where
  "raw_lines s = (let ws = split_on (CHR 0x0A) s in if last ws = [] then butlast ws else ws)"

definition fits :: "string \<Rightarrow> bool" where
  "fits l \<longleftrightarrow> int (length l) < 65536"

definition scan_lines :: "string \<Rightarrow> string list" where
  "scan_lines s = map drop_cr (takeWhile fits (raw_lines s))"

text \<open>One line: a binding, or nothing for blank lines, comments and lines without a key.\<close>

definition conf_line :: "string \<Rightarrow> (string \<times> string) option" where
  "conf_line l =
     (let line = trim_space l
      in if line = '''' \<or> has_prefix line ''#'' then None
         else case index_byte line (CHR ''='') of
           None \<Rightarrow> None
         | Some idx \<Rightarrow> if idx < 1 then None
                       else Some (trim_space (take idx line), trim_space (drop (Suc idx) line)))"

definition conf_step :: "string \<Rightarrow> (string \<rightharpoonup> string) \<Rightarrow> (string \<rightharpoonup> string)" where
  "conf_step l vals = (case conf_line l of None \<Rightarrow> vals | Some (k, v) \<Rightarrow> vals(k \<mapsto> v))"

definition parse_conf_file :: "string option \<Rightarrow> (string \<rightharpoonup> string) option \<times> conf_error option" where
  "parse_conf_file content =
     (case content of
        None \<Rightarrow> (None, Some OpenFailed)
      | Some s \<Rightarrow> (Some (fold conf_step (scan_lines s) Map.empty),
                   if list_all fits (raw_lines s) then None else Some TokenTooLong))"

section \<open>Lookup and build\<close>

text \<open>A missing key of a Go map reads as the empty string.\<close>

definition make_lookup :: "(string \<Rightarrow> string) \<Rightarrow> (string \<rightharpoonup> string) option \<Rightarrow> string \<Rightarrow> string \<Rightarrow> string" where
  "make_lookup getenv fileVals k d =
     (let v = trim_space (getenv k)
      in if v \<noteq> '''' then v
         else case fileVals of
           None \<Rightarrow> d
         | Some m \<Rightarrow> (let w = trim_space (case m k of None \<Rightarrow> '''' | Some w \<Rightarrow> w)
                      in if w \<noteq> '''' then w else d))"

definition cookie_candidates :: "(string \<Rightarrow> string) \<Rightarrow> string list" where
  "cookie_candidates getenv =
     [join_path [getenv ''HOME'', ''.bitmark'', ''.cookie''], ''/home/coins/.bitmark/.cookie'']"

definition resolve_cookie :: "(string \<Rightarrow> string) \<Rightarrow> (string \<Rightarrow> bool) \<Rightarrow> string \<Rightarrow> string \<Rightarrow> string" where
  "resolve_cookie getenv stat explicit pass =
     (if explicit = '''' \<and> pass = ''''
      then (case find stat (cookie_candidates getenv) of None \<Rightarrow> '''' | Some p \<Rightarrow> p)
      else explicit)"

definition build_rpc :: "(string \<Rightarrow> string) \<Rightarrow> (string \<Rightarrow> bool) \<Rightarrow> (string \<Rightarrow> string \<Rightarrow> string) \<Rightarrow> RPCConfig" where
  "build_rpc getenv stat look =
     \<lparr>r_url = look ''RPC_URL'' '''', r_user = look ''RPC_USER'' '''', r_pass = look ''RPC_PASS'' '''',
      r_cookie_file = resolve_cookie getenv stat (look ''RPC_COOKIE_FILE'' '''') (look ''RPC_PASS'' ''''),
      r_timeout = parse_dur_def (look ''RPC_TIMEOUT'' ''15s'') 15000000000,
      r_insecure_tls = parse_bool_def (look ''RPC_INSECURE_TLS'' ''false'') False,
      r_max_response_size = parse_int64_def (look ''RPC_MAX_RESPONSE_BYTES'' ''83886080'') (push_bit 20 80)\<rparr>"

definition has_auth :: "RPCConfig \<Rightarrow> bool" where
  "has_auth r \<longleftrightarrow> (r_user r \<noteq> '''' \<and> r_pass r \<noteq> '''') \<or> r_cookie_file r \<noteq> ''''"

definition has_scheme :: "string \<Rightarrow> bool" where
  "has_scheme url \<longleftrightarrow> has_prefix url ''http://'' \<or> has_prefix url ''https://''"

definition build :: "(string \<Rightarrow> string) \<Rightarrow> (string \<Rightarrow> bool) \<Rightarrow> (string \<Rightarrow> string \<Rightarrow> string) \<Rightarrow> config_error + Config" where
  "build getenv stat look =
     (let r = build_rpc getenv stat look;
          dsn = look ''PG_DSN'' '''';
          conf = parse_int_def (look ''CONFIRMATIONS'' ''0'') 0;
          batch = parse_int_def (look ''BATCH_SIZE'' ''500'') 500;
          poll = parse_dur_def (look ''POLL_INTERVAL'' ''2s'') 2000000000
      in if dsn = '''' then Inl PgDsnRequired
         else if \<not> has_auth r then Inl AuthRequired
         else if r_url r = '''' then Inl UrlRequired
         else if \<not> has_scheme (r_url r) then Inl (UrlScheme (r_url r))
         else Inr \<lparr>c_postgres_dsn = dsn,
                   c_confirmations = (if conf < 0 then 0 else conf),
                   c_batch_blocks = (if batch < 1 then 1 else batch),
                   c_poll_interval = (if poll < 200000000 then 200000000 else poll),
                   c_log_verbose = parse_bool_def (look ''VERBOSE'' ''false'') False,
                   c_base_unit_factor = 100000000,
                   c_zmq_endpoint = look ''ZMQ_ENDPOINT'' '''', c_rpc = r\<rparr>)"

definition load_config :: "(string \<Rightarrow> string) \<Rightarrow> (string \<Rightarrow> bool) \<Rightarrow> string option \<Rightarrow> config_error + Config" where
  "load_config getenv stat content = build getenv stat (make_lookup getenv (fst (parse_conf_file content)))"

definition load_from_env :: "(string \<Rightarrow> string) \<Rightarrow> (string \<Rightarrow> bool) \<Rightarrow> config_error + Config" where
  "load_from_env getenv stat = build getenv stat (make_lookup getenv None)"

section \<open>What build guarantees\<close>

definition valid_config :: "Config \<Rightarrow> bool" where
  "valid_config c \<longleftrightarrow>
     c_postgres_dsn c \<noteq> '''' \<and> 0 \<le> c_confirmations c \<and> in64 (c_confirmations c) \<and>
     1 \<le> c_batch_blocks c \<and> in64 (c_batch_blocks c) \<and> 200000000 \<le> c_poll_interval c \<and>
     in64 (c_poll_interval c) \<and> c_base_unit_factor c = 100000000 \<and>
     has_auth (c_rpc c) \<and> has_scheme (r_url (c_rpc c)) \<and> in64 (r_timeout (c_rpc c))"

lemma parse_defaults_in64:
  "in64 d \<Longrightarrow> in64 (parse_int_def s d)" "in64 d \<Longrightarrow> in64 (parse_dur_def s d)"
  by (auto simp: parse_int_def_def parse_dur_def_def split: option.splits
      dest: parse_int64_in64 parse_duration_in64)

lemma build_valid:
  assumes "build getenv stat look = Inr c"
  shows "valid_config c"
proof -
  let ?r = "build_rpc getenv stat look"
  have c: "look ''PG_DSN'' '''' \<noteq> ''''" "has_auth ?r" "has_scheme (r_url ?r)"
    "c_postgres_dsn c = look ''PG_DSN'' ''''" "c_rpc c = ?r" "c_base_unit_factor c = 100000000"
    "c_confirmations c = max 0 (parse_int_def (look ''CONFIRMATIONS'' ''0'') 0)"
    "c_batch_blocks c = max 1 (parse_int_def (look ''BATCH_SIZE'' ''500'') 500)"
    "c_poll_interval c = max 200000000 (parse_dur_def (look ''POLL_INTERVAL'' ''2s'') 2000000000)"
    using assms by (auto simp: build_def Let_def split: if_splits)
  have m: "in64 a \<Longrightarrow> in64 b \<Longrightarrow> in64 (max a b)" for a b by (simp add: max_def)
  have "in64 (r_timeout ?r)" by (simp add: build_rpc_def parse_defaults_in64 in64_def [of 15000000000])
  then show ?thesis
    unfolding valid_config_def c
    using c(1-3) by (intro conjI m parse_defaults_in64 max.cobounded1) (simp_all add: in64_def)
qed

lemma build_accepts_iff:
  "is_ok (build getenv stat look) \<longleftrightarrow>
     look ''PG_DSN'' '''' \<noteq> '''' \<and> has_auth (build_rpc getenv stat look) \<and>
     has_scheme (look ''RPC_URL'' '''')"
proof -
  have "has_scheme [] = False" by (simp add: has_scheme_def has_prefix_def)
  moreover have "r_url (build_rpc getenv stat look) = look ''RPC_URL'' ''''" by (simp add: build_rpc_def)
  ultimately show ?thesis by (auto simp: build_def Let_def)
qed

section \<open>Reading a file back\<close>

definition conf_entry :: "string \<times> string \<Rightarrow> string" where
  "conf_entry kv = fst kv @ ''='' @ snd kv"

definition render_conf :: "(string \<times> string) list \<Rightarrow> string" where
  "render_conf kvs = concat (map (\<lambda>kv. conf_entry kv @ [CHR 0x0A]) kvs)"

definition edges_graphic :: "string \<Rightarrow> bool" where
  "edges_graphic s \<longleftrightarrow> s = [] \<or> (graphic (hd s) \<and> graphic (last s))"

definition conf_writable :: "string \<times> string \<Rightarrow> bool" where
  "conf_writable kv \<longleftrightarrow>
     fst kv \<noteq> [] \<and> hd (fst kv) \<noteq> CHR ''#'' \<and> CHR ''='' \<notin> set (fst kv) \<and>
     edges_graphic (fst kv) \<and> edges_graphic (snd kv) \<and>
     CHR 0x0A \<notin> set (fst kv) \<and> CHR 0x0A \<notin> set (snd kv) \<and> fits (conf_entry kv)"

lemma edges_trim: "edges_graphic s \<Longrightarrow> trim_space s = s"
  by (cases "s = []") (auto simp: edges_graphic_def intro: trim_space_graphic)

lemma split_on_app: "sep \<notin> set w \<Longrightarrow> split_on sep (w @ sep # rest) = w # split_on sep rest"
  by (induction w) auto

lemma split_on_ne [simp]: "split_on sep s \<noteq> []"
  by (induction s) (auto split: list.splits)

lemma index_byte_app: "b \<notin> set w \<Longrightarrow> index_byte (w @ b # rest) b = Some (length w)"
  by (induction w) auto

lemma conf_entry_line:
  assumes "conf_writable kv"
  shows "conf_line (conf_entry kv) = Some kv" and "drop_cr (conf_entry kv) = conf_entry kv"
    and "CHR 0x0A \<notin> set (conf_entry kv)" and "fits (conf_entry kv)"
proof -
  obtain k v where kv: "kv = (k, v)" by fastforce
  have k: "k \<noteq> []" "hd k \<noteq> CHR ''#''" "CHR ''='' \<notin> set k" "edges_graphic k" "edges_graphic v"
    using assms kv by (simp_all add: conf_writable_def)
  have last: "graphic (last (k @ CHR ''='' # v))"
    using k(5) by (auto simp: edges_graphic_def graphic_def)
  have hd: "graphic (hd (k @ CHR ''='' # v))" using k(1,4) by (simp add: edges_graphic_def)
  have t: "trim_space (k @ CHR ''='' # v) = k @ CHR ''='' # v"
    by (rule trim_space_graphic) (use hd last in auto)
  have "\<not> has_prefix (k @ CHR ''='' # v) ''#''" using k(1,2) by (cases k) (auto simp: has_prefix_def)
  then show "conf_line (conf_entry kv) = Some kv"
    using k t index_byte_app [OF k(3), of v] by (simp add: conf_line_def conf_entry_def kv edges_trim)
  have "last (k @ CHR ''='' # v) \<noteq> CHR 0x0D" using last by (auto simp: graphic_def)
  then show "drop_cr (conf_entry kv) = conf_entry kv" by (simp add: drop_cr_def conf_entry_def kv)
  show "CHR 0x0A \<notin> set (conf_entry kv)" "fits (conf_entry kv)"
    using assms kv by (auto simp: conf_writable_def conf_entry_def fits_def)
qed

lemma raw_lines_render:
  "\<forall>kv \<in> set kvs. conf_writable kv \<Longrightarrow> raw_lines (render_conf kvs) = map conf_entry kvs"
proof -
  assume "\<forall>kv \<in> set kvs. conf_writable kv"
  then have "split_on (CHR 0x0A) (render_conf kvs) = map conf_entry kvs @ [[]]"
    by (induction kvs) (simp_all add: render_conf_def split_on_app conf_entry_line(3))
  then show ?thesis by (simp add: raw_lines_def Let_def)
qed

lemma parse_render:
  assumes "\<forall>kv \<in> set kvs. conf_writable kv"
  shows "parse_conf_file (Some (render_conf kvs)) = (Some (map_of (rev kvs)), None)"
proof -
  have tw: "takeWhile fits (map conf_entry kvs) = map conf_entry kvs" "list_all fits (map conf_entry kvs)"
    using assms conf_entry_line(4) by (auto simp: takeWhile_eq_all_conv list_all_iff)
  have "fold conf_step (map drop_cr (map conf_entry kvs)) m = m ++ map_of (rev kvs)" for m
    using assms
  proof (induction kvs arbitrary: m)
    case (Cons kv kvs)
    then have "conf_step (drop_cr (conf_entry kv)) m = m(fst kv \<mapsto> snd kv)"
      using conf_entry_line(1,2) [of kv] by (simp add: conf_step_def split: prod.splits)
    then show ?case using Cons by (simp add: map_add_def fun_eq_iff split: option.splits)
  qed simp
  then show ?thesis
    unfolding parse_conf_file_def option.case scan_lines_def raw_lines_render [OF assms] tw(1)
    by (simp add: tw(2))
qed

section \<open>Properties\<close>

text \<open>A configuration that \<open>build\<close> accepts is safe to run with, whatever the environment and
  the file hold: a connection string is set, there are credentials or a cookie file, the URL has an
  HTTP scheme, the batch size is a positive and the confirmations a non-negative 64-bit number and the
  poll interval is at least 200 milliseconds. It is accepted exactly when the first three hold.\<close>

theorem load_config_valid:
  "(case load_config getenv stat content of
      Inr c \<Rightarrow> valid_config c
    | Inl e \<Rightarrow> True) \<and>
   (is_ok (load_config getenv stat content) \<longleftrightarrow>
      (let look = make_lookup getenv (fst (parse_conf_file content))
       in look ''PG_DSN'' '''' \<noteq> '''' \<and> has_auth (build_rpc getenv stat look) \<and>
          has_scheme (look ''RPC_URL'' '''')))"
  by (auto simp: load_config_def Let_def build_accepts_iff intro: build_valid split: sum.split)

text \<open>C37: the parser reads back every settings file that has been written from bindings: keys without
  \<open>=\<close> that do not start a comment, values without line breaks, no white space at the edges, lines
  within the scanner's buffer; a key bound twice has its last value.\<close>

theorem conf_file_roundtrip:
  assumes "\<forall>kv \<in> set kvs. conf_writable kv"
  shows "parse_conf_file (Some (render_conf kvs)) = (Some (map_of (rev kvs)), None)"
  using assms by (rule parse_render)

theorem conf_file_roundtrip_witness:
  "parse_conf_file (Some (render_conf [(''BATCH_SIZE'', ''100''), (''PG_DSN'', ''host=a b''), (''BATCH_SIZE'', '''')])) =
     (Some (map_of [(''BATCH_SIZE'', ''''), (''PG_DSN'', ''host=a b''), (''BATCH_SIZE'', ''100'')]), None)"
proof -
  have "\<forall>kv \<in> set [(''BATCH_SIZE'', ''100''), (''PG_DSN'', ''host=a b''), (''BATCH_SIZE'', '''')]. conf_writable kv"
    by code_simp
  from conf_file_roundtrip [OF this] show ?thesis by simp
qed

end
