(* ===== verification/Go_Clock.thy ===== *)
theory Go_Clock
  imports Go_Time "HOL-Library.Signed_Division"
begin

text \<open>
  Instants and durations of Go's \<open>time\<close> package as the generator uses them: \<open>Duration\<close> in nanoseconds
  with \<open>Round\<close>, \<open>Seconds\<close>, \<open>Minutes\<close>, \<open>Hours\<close> (binary64, as in Go) and \<open>String\<close>, the saturating
  difference of two instants, and the calendar date of an instant for \<open>Format\<close>.
\<close>

section \<open>Durations\<close>

definition ns_second :: int where "ns_second = 1000000000"
definition ns_minute :: int where "ns_minute = 60000000000"
definition ns_hour :: int where "ns_hour = 3600000000000"

text \<open>\<open>t.Sub(u)\<close>, with instants as nanoseconds, saturates.\<close>

definition time_sub :: "int \<Rightarrow> int \<Rightarrow> int" where
  "time_sub t u = max (- (2 ^ 63)) (min (2 ^ 63 - 1) (t - u))"

definition dur_round :: "int \<Rightarrow> int \<Rightarrow> int" where
  "dur_round d m =
     (if m \<le> 0 then d
      else if d < 0 then
        (let r = (- d) mod m
         in if 2 * r < m then d + r
            else (let d1 = wrap64 (d - m + r) in if d1 < d then d1 else - (2 ^ 63)))
      else
        (let r = d mod m
         in if 2 * r < m then d - r
            else (let d1 = wrap64 (d + m - r) in if d1 > d then d1 else 2 ^ 63 - 1)))"

text \<open>\<open>Seconds\<close>, \<open>Minutes\<close>, \<open>Hours\<close>: whole part plus fraction, in floating point.\<close>

definition dur_in :: "int \<Rightarrow> int \<Rightarrow> f64" where
  "dur_in unit d = f_of_int (d sdiv unit) + f_of_int (d smod unit) / f_of_int unit"

definition dur_seconds :: "int \<Rightarrow> f64" where "dur_seconds d = dur_in ns_second d"
definition dur_minutes :: "int \<Rightarrow> f64" where "dur_minutes d = dur_in ns_minute d"
definition dur_hours :: "int \<Rightarrow> f64" where "dur_hours d = dur_in ns_hour d"

text \<open>\<open>String\<close> of a non-negative whole number of seconds.\<close>

definition dur_string :: "int \<Rightarrow> string" where
  "dur_string s =
     (let sec = itoa (s mod 60) @ ''s''; m = s div 60; h = m div 60
      in if m = 0 then sec
         else if h = 0 then itoa m @ ''m'' @ sec
         else itoa h @ ''h'' @ itoa (m mod 60) @ ''m'' @ sec)"

section \<open>Whole units\<close>

lemma sdiv_smod_nonneg: "0 \<le> d \<Longrightarrow> 0 < u \<Longrightarrow> d sdiv u = d div u \<and> d smod u = d mod u" for d u :: int
  by (simp add: signed_divide_int_def signed_modulo_int_def sgn_if minus_mult_div_eq_mod)

lemma round_even_ge: "of_int k \<le> y \<Longrightarrow> k \<le> round_even y"
proof -
  assume "of_int k \<le> y"
  then have "k \<le> \<lfloor>y\<rfloor>" by (simp add: le_floor_iff)
  then show "k \<le> round_even y" by (auto simp: round_even_def Let_def)
qed

lemma round64_nonneg: "0 \<le> q \<Longrightarrow> 0 \<le> round64 q"
proof -
  assume "0 \<le> q"
  then have "0 \<le> round_even (q / pow2 (ulp_exp q))" by (intro round_even_ge) (simp add: less_imp_le)
  then show "0 \<le> round64 q" by (simp add: round64_def Let_def less_imp_le)
qed

lemma round64_ge_int:
  assumes "0 \<le> n" and "of_int n \<le> x" and "x < 2 ^ 53"
  shows "of_int n \<le> round64 x"
proof (cases "x = 0")
  case False
  then have x: "0 < x" using assms by linarith
  have "pow2 (0 + 53) = 2 ^ 53" by (simp add: pow2_nat)
  then have "\<bar>x\<bar> < pow2 (0 + 53)" using x assms(3) by simp
  then have "ulp_exp x \<le> 0" using ulp_exp_le [of x 0] False by simp
  then obtain j where j: "ulp_exp x = - int j" by (metis nonpos_int_cases)
  have u: "pow2 (ulp_exp x) * 2 ^ j = 1" by (simp add: j pow2_def power_int_minus)
  have inv: "x / pow2 (ulp_exp x) = x * 2 ^ j" using u pow2_pos [of "ulp_exp x"] by (simp add: field_simps)
  have "of_int (n * 2 ^ j) \<le> x * 2 ^ j" using assms(2) by simp
  then have "n * 2 ^ j \<le> round_even (x / pow2 (ulp_exp x))" unfolding inv by (rule round_even_ge)
  then have "of_int (n * 2 ^ j) * pow2 (ulp_exp x) \<le> of_int (round_even (x / pow2 (ulp_exp x))) * pow2 (ulp_exp x)"
    by (intro mult_right_mono) (simp_all only: of_int_le_iff pow2_pos [THEN less_imp_le])
  moreover have "of_int (n * 2 ^ j) * pow2 (ulp_exp x) = of_int n" using u by (simp add: mult.assoc mult.commute [of "2 ^ j"])
  ultimately have "of_int n \<le> of_int (round_even (x / pow2 (ulp_exp x))) * pow2 (ulp_exp x)" by (simp only:)
  then show ?thesis by (simp only: round64_def Let_def)
qed (use assms in simp)

text \<open>
  The integer part of such a sum is exact as long as the fraction stays a little below one, which it does
  for whole seconds: 59/60 of a minute, 3599/3600 of an hour.
\<close>

lemma dur_in_trunc:
  assumes "0 \<le> d" and "d < 2 ^ 63" and "ns_second \<le> unit" and "unit < 2 ^ 50" and "5000 * (d mod unit) \<le> 4999 * unit"
  shows "i64_of_f (dur_in unit d) = d div unit"
proof -
  define q r where "q = d div unit" and "r = d mod unit"
  have unit: "0 < unit" using assms(3) by (simp add: ns_second_def)
  have q: "0 \<le> q" "q \<le> 10 ^ 10" and r: "0 \<le> r" "r < unit" "5000 * r \<le> 4999 * unit"
  proof -
    have "d div unit \<le> d div ns_second" using assms(1,3) by (intro zdiv_mono2) (simp_all add: ns_second_def)
    also have "\<dots> \<le> (2 ^ 63) div ns_second" using assms(2) by (intro zdiv_mono1) (simp_all add: ns_second_def)
    finally show "q \<le> 10 ^ 10" by (simp add: q_def ns_second_def)
  qed (use assms unit in \<open>simp_all add: q_def r_def pos_imp_zdiv_nonneg_iff\<close>)
  have qf: "f_of_int q = Fin (of_int q)" "f_of_int r = Fin (of_int r)" "f_of_int unit = Fin (of_int unit)"
    using q r assms(4) unit by (simp_all add: f_of_int_exact)
  have uq: "(0::rat) < of_int unit" using unit by simp
  have frac: "0 \<le> (of_int r :: rat) / of_int unit" "(of_int r :: rat) / of_int unit \<le> 4999 / 5000"
  proof -
    have "(of_int (5000 * r) :: rat) \<le> of_int (4999 * unit)" using r(3) by (simp only: of_int_le_iff)
    then show "(of_int r :: rat) / of_int unit \<le> 4999 / 5000" using uq by (simp add: field_simps)
  qed (use r uq in simp)
  have big: "(100 :: rat) * 10 ^ 10 \<le> pow2 1000"
    using pow2_mono [of 40 1000] by (simp add: pow2_def)
  have qr: "0 \<le> (of_int q :: rat)" "(of_int q :: rat) \<le> 10 ^ 10"
  proof -
    have "(of_int q :: rat) \<le> of_int (10 ^ 10)" using q(2) by (simp only: of_int_le_iff)
    then show "(of_int q :: rat) \<le> 10 ^ 10" by simp
  qed (use q in simp)
  note D = f_div_fin [of "Fin (of_int r)" "Fin (of_int unit)"]
  define f where "f = round64 (of_int r / of_int unit)"
  have "1 \<le> pow2 1000" using big by simp
  then have "\<bar>(of_int r :: rat) / of_int unit\<bar> \<le> pow2 1000" using frac unfolding abs_of_nonneg [OF frac(1)] by linarith
  then have d1: "is_fin (Fin (of_int r) / Fin (of_int unit))" "f_val (Fin (of_int r) / Fin (of_int unit)) = f"
    using D uq by (simp_all add: f_def)
  have fb: "- 1 / 10 ^ 6 \<le> f" "f \<le> 4999 / 5000 + 1 / 10 ^ 6"
  proof -
    define x where "x = (of_int r :: rat) / of_int unit"
    have "\<bar>f - x\<bar> \<le> x / 1000000000000 + 1 / 10 ^ 30" "0 \<le> x" "x \<le> 4999 / 5000"
      using round64_close [of x] frac by (simp_all add: f_def x_def)
    then show "- 1 / 10 ^ 6 \<le> f" "f \<le> 4999 / 5000 + 1 / 10 ^ 6" by (simp_all add: abs_le_iff)
  qed
  have fnn: "0 \<le> f" unfolding f_def by (rule round64_nonneg [OF frac(1)])
  define s where "s = round64 (of_int q + f)"
  have s1: "is_fin (dur_in unit d)" "f_val (dur_in unit d) = s"
  proof -
    have eq: "dur_in unit d = Fin (of_int q) + Fin (of_int r) / Fin (of_int unit)"
      using sdiv_smod_nonneg [OF assms(1) unit] qf by (simp add: dur_in_def q_def r_def)
    show "is_fin (dur_in unit d)" "f_val (dur_in unit d) = s"
      unfolding eq using f_add_fin [of "Fin (of_int q)", OF _ d1(1)] d1(2) fnn fb qr big by (simp_all add: s_def)
  qed
  have "\<bar>s - (of_int q + f)\<bar> \<le> \<bar>of_int q + f\<bar> * pow2 (- 53) + pow2 (- 1075)" unfolding s_def by (rule round64_err)
  also have "\<dots> \<le> (10 ^ 10 + 1) * (1 / 10 ^ 15) + 1 / 10 ^ 30"
    using qr fnn fb pow2_small(2) by (intro add_mono mult_mono) (simp_all add: pow2_def power_int_def power_divide)
  finally have "s - (of_int q + f) \<le> (10 ^ 10 + 1) * (1 / 10 ^ 15) + 1 / 10 ^ 30" by (rule order_trans [OF abs_ge_self])
  then have "s < of_int q + 1" using fb(2) by (simp add: field_simps)
  moreover have "of_int q \<le> s" unfolding s_def using q fnn fb(2) qr(2) by (intro round64_ge_int) simp_all
  ultimately have "\<lfloor>s\<rfloor> = q" "0 \<le> s" using q(1) by linarith+
  then have "trunc_rat s = q" by (simp add: trunc_rat_def)
  moreover from \<open>\<lfloor>s\<rfloor> = q\<close> have "s = 0 \<longrightarrow> q = 0" by auto
  moreover have "in64 q" using q by (simp add: in64_def)
  ultimately show ?thesis using s1 unfolding q_def by (cases "dur_in unit d") (simp_all add: i64_of_f_def is_fin_def f_val_def)
qed

lemma dur_minutes_trunc:
  "0 \<le> d \<Longrightarrow> d < 2 ^ 63 \<Longrightarrow> ns_second dvd d \<Longrightarrow> i64_of_f (dur_minutes d) = d div ns_minute"
proof -
  assume d: "0 \<le> d" "d < 2 ^ 63" "ns_second dvd d"
  then obtain k where "d = 1000000000 * k" by (auto simp: ns_second_def elim: dvdE)
  moreover have "60000000000 = 1000000000 * (60 :: int)" by simp
  ultimately have "d mod ns_minute = 1000000000 * (k mod 60)" by (simp only: ns_minute_def mod_mult_mult1)
  moreover have "k mod 60 \<le> 59" using pos_mod_bound [of 60 k] by linarith
  ultimately show ?thesis unfolding dur_minutes_def using d by (intro dur_in_trunc) (simp_all add: ns_second_def ns_minute_def)
qed

lemma dur_hours_trunc:
  "0 \<le> d \<Longrightarrow> d < 2 ^ 63 \<Longrightarrow> ns_second dvd d \<Longrightarrow> i64_of_f (dur_hours d) = d div ns_hour"
proof -
  assume d: "0 \<le> d" "d < 2 ^ 63" "ns_second dvd d"
  then obtain k where "d = 1000000000 * k" by (auto simp: ns_second_def elim: dvdE)
  moreover have "3600000000000 = 1000000000 * (3600 :: int)" by simp
  ultimately have "d mod ns_hour = 1000000000 * (k mod 3600)" by (simp only: ns_hour_def mod_mult_mult1)
  moreover have "k mod 3600 \<le> 3599" using pos_mod_bound [of 3600 k] by linarith
  ultimately show ?thesis unfolding dur_hours_def using d by (intro dur_in_trunc) (simp_all add: ns_second_def ns_hour_def)
qed

lemma dur_seconds_trunc:
  "0 \<le> d \<Longrightarrow> d < 2 ^ 63 \<Longrightarrow> ns_second dvd d \<Longrightarrow> i64_of_f (dur_seconds d) = d div ns_second"
  unfolding dur_seconds_def by (intro dur_in_trunc) (simp_all add: ns_second_def dvd_eq_mod_eq_0)

text \<open>Rounding to seconds, away from the ends of the range.\<close>

lemma dur_round_second:
  assumes "0 \<le> d" and "d < 2 ^ 63 - 1000000000"
  shows "dur_round d ns_second = (d + 500000000) div 1000000000 * 1000000000"
proof -
  have e: "d = 1000000000 * (d div 1000000000) + d mod 1000000000" "0 \<le> d mod 1000000000" "d mod 1000000000 < 1000000000" by simp_all
  show ?thesis
  proof (cases "2 * (d mod 1000000000) < 1000000000")
    case True
    have "(d + 500000000) div 1000000000 = d div 1000000000" using True e by linarith
    then show ?thesis using True assms by (simp add: dur_round_def ns_second_def Let_def minus_mod_eq_div_mult)
  next
    case False
    have "(d + 500000000) div 1000000000 = d div 1000000000 + 1" using False e by linarith
    moreover have "d + 1000000000 - d mod 1000000000 = (d div 1000000000 + 1) * 1000000000" by (simp add: algebra_simps minus_mod_eq_mult_div)
    moreover have "wrap64 (d + 1000000000 - d mod 1000000000) = d + 1000000000 - d mod 1000000000"
    proof -
      have "0 \<le> d + 1000000000 - d mod 1000000000" "d + 1000000000 - d mod 1000000000 < 2 ^ 63"
        using assms e(2,3) by linarith+
      then show ?thesis by (rule wrap64_small)
    qed
    moreover have "d < d + 1000000000 - d mod 1000000000" using e(3) by simp
    ultimately show ?thesis using False assms by (simp add: dur_round_def ns_second_def Let_def)
  qed
qed

section \<open>The calendar\<close>

text \<open>
  Go's conversion of a day number to year and day of the year: the number of days since 1 January of year 1 is
  cut into 400, 100, 4 and single years; a last cycle of 100 or 1 years that would be the fourth belongs to
  the third.
\<close>

definition drop_fourth :: "int \<Rightarrow> int" where
  "drop_fourth n = n - n div 4"

definition year_day :: "int \<Rightarrow> int \<times> int" where
  "year_day days =
     (let n400 = days div 146097; d1 = days - 146097 * n400;
          n100 = drop_fourth (d1 div 36524); d2 = d1 - 36524 * n100;
          n4 = d2 div 1461; d3 = d2 - 1461 * n4;
          n1 = drop_fourth (d3 div 365); d4 = d3 - 365 * n1
      in (400 * n400 + 100 * n100 + 4 * n4 + n1 + 1, d4))"

definition is_leap :: "int \<Rightarrow> bool" where
  "is_leap y \<longleftrightarrow> y mod 4 = 0 \<and> (y mod 100 \<noteq> 0 \<or> y mod 400 = 0)"

definition days_before :: "int list" where
  "days_before = [0, 31, 59, 90, 120, 151, 181, 212, 243, 273, 304, 334, 365]"

definition month_day :: "bool \<Rightarrow> int \<Rightarrow> int \<times> int" where
  "month_day leap yday =
     (if leap \<and> yday = 59 then (2, 29)
      else (let day = (if leap \<and> yday > 59 then yday - 1 else yday);
                m = day div 31; end0 = days_before ! nat (m + 1)
            in if day \<ge> end0 then (m + 2, day - end0 + 1) else (m + 1, day - days_before ! nat m + 1)))"

definition month_names :: "string list" where
  "month_names = [''Jan'', ''Feb'', ''Mar'', ''Apr'', ''May'', ''Jun'', ''Jul'', ''Aug'', ''Sep'', ''Oct'', ''Nov'', ''Dec'']"

definition pad_zero :: "nat \<Rightarrow> int \<Rightarrow> string" where
  "pad_zero n k = (let s = itoa k in replicate (n - length s) CHR ''0'' @ s)"

text \<open>\<open>UTC().Format("2006-Jan-02 15:04 UTC")\<close> of an instant in Unix seconds.\<close>

definition format_minute :: "int \<Rightarrow> string" where
  "format_minute unix =
     (let (y, yd) = year_day (unix div 86400 + 719162);
          (m, d) = month_day (is_leap y) yd;
          sec = unix mod 86400
      in pad_zero 4 y @ ''-'' @ month_names ! nat (m - 1) @ ''-'' @ pad_zero 2 d @ '' '' @
         pad_zero 2 (sec div 3600) @ '':'' @ pad_zero 2 (sec mod 3600 div 60) @ '' UTC'')"

definition days_before_year :: "int \<Rightarrow> int" where
  "days_before_year y = (let p = y - 1 in 365 * p + p div 4 - p div 100 + p div 400)"

lemma drop_fourth_bounds:
  assumes "0 \<le> d" and "d \<le> 4 * k + r" and "0 < k" and "0 \<le> r" "r < k"
  shows "0 \<le> drop_fourth (d div k) \<and> drop_fourth (d div k) \<le> 3 \<and> 0 \<le> d - k * drop_fourth (d div k) \<and>
     d - k * drop_fourth (d div k) \<le> (if drop_fourth (d div k) = 3 then k + r else k - 1)"
proof -
  have e: "d = k * (d div k) + d mod k" "0 \<le> d mod k" "d mod k < k" using assms(3) by simp_all
  have "d div k \<le> (4 * k + r) div k" using assms by (intro zdiv_mono1) simp_all
  also have "\<dots> = 4" using assms by (simp add: div_pos_pos_trivial)
  finally have le: "d div k \<le> 4" .
  have ge: "0 \<le> d div k" using assms by (simp add: pos_imp_zdiv_nonneg_iff)
  consider "d div k = 4" | "d div k = 3" | "0 \<le> d div k" "d div k \<le> 2" using le ge by linarith
  then show ?thesis
  proof cases
    case 1
    then have "d = 4 * k + d mod k" using e(1) by simp
    moreover have "drop_fourth (d div k) = 3" unfolding 1 by (simp add: drop_fourth_def)
    ultimately show ?thesis using e(2,3) assms(2,3) by (intro conjI; simp; linarith)
  next
    case 2
    then have "d = 3 * k + d mod k" using e(1) by simp
    moreover have "drop_fourth (d div k) = 3" unfolding 2 by (simp add: drop_fourth_def)
    ultimately show ?thesis using e(2,3) assms(3,4) by (intro conjI; simp; linarith)
  next
    case 3
    then have "d div k div 4 = 0" by simp
    then have "drop_fourth (d div k) = d div k" by (simp add: drop_fourth_def)
    moreover have "k * (d div k) \<le> d" "d - k * (d div k) < k" using e by linarith+
    ultimately show ?thesis using 3 by simp
  qed
qed

lemma year_day_correct:
  assumes "0 \<le> days"
  shows "\<exists>y yd. year_day days = (y, yd) \<and> 1 \<le> y \<and> days_before_year y + yd = days \<and> 0 \<le> yd \<and>
     yd < (if is_leap y then 366 else 365)"
proof -
  define n400 d1 where "n400 = days div 146097" and "d1 = days - 146097 * n400"
  define n100 d2 where "n100 = drop_fourth (d1 div 36524)" and "d2 = d1 - 36524 * n100"
  define n4 d3 where "n4 = d2 div 1461" and "d3 = d2 - 1461 * n4"
  define n1 d4 where "n1 = drop_fourth (d3 div 365)" and "d4 = d3 - 365 * n1"
  define p where "p = 400 * n400 + 100 * n100 + 4 * n4 + n1"
  have yd: "year_day days = (p + 1, d4)"
    by (simp add: year_day_def Let_def n400_def d1_def n100_def d2_def n4_def d3_def n1_def d4_def p_def)
  have d1: "d1 = days mod 146097" by (simp add: d1_def n400_def minus_mult_div_eq_mod)
  then have d1b: "0 \<le> d1" "d1 \<le> 4 * 36524 + 0" using pos_mod_bound [of 146097 days] by simp_all
  have pos: "0 < (36524 :: int)" "0 \<le> (0 :: int)" "0 < (365 :: int)" by simp_all
  note C = drop_fourth_bounds [OF d1b pos(1,2,1), folded n100_def, folded d2_def]
  have c: "0 \<le> n100" "n100 \<le> 3" "0 \<le> d2" "d2 \<le> (if n100 = 3 then 36524 else 36523)"
    using C by (simp_all split: if_splits)
  have d3: "d3 = d2 mod 1461" by (simp add: d3_def n4_def minus_mult_div_eq_mod)
  then have d3b: "0 \<le> d3" "d3 \<le> 4 * 365 + 0" using pos_mod_bound [of 1461 d2] by simp_all
  have f: "0 \<le> n4" "n4 \<le> 24"
    using c(3,4) by (simp_all add: n4_def pos_imp_zdiv_nonneg_iff div_le_dividend split: if_splits)
  have g: "0 \<le> n1" "n1 \<le> 3" "0 \<le> d4" "d4 \<le> (if n1 = 3 then 365 else 364)"
    using drop_fourth_bounds [OF d3b pos(3,2,3), folded n1_def, folded d4_def] by (simp_all split: if_splits)
  have days: "days = 146097 * n400 + 36524 * n100 + 1461 * n4 + 365 * n1 + d4"
    by (simp add: d1_def d2_def d3_def d4_def)
  have n400: "0 \<le> n400" using assms by (simp add: n400_def pos_imp_zdiv_nonneg_iff)
  have q: "p div 4 = 100 * n400 + 25 * n100 + n4" "p div 100 = 4 * n400 + n100" "p div 400 = n400"
    using c(1,2) f g(1,2) by (simp_all add: p_def)
  have y4: "(p + 1) mod 4 = 0 \<longleftrightarrow> n1 = 3"
  proof -
    have "p + 1 = (n1 + 1) + 4 * (100 * n400 + 25 * n100 + n4)" by (simp add: p_def)
    then have "(p + 1) mod 4 = (n1 + 1) mod 4" by (simp only: mod_mult_self2)
    then show ?thesis using g(1,2) by (cases "n1 = 3") simp_all
  qed
  have y100: "(p + 1) mod 100 = 0 \<longleftrightarrow> 4 * n4 + n1 = 99"
  proof -
    have "p + 1 = (4 * n4 + n1 + 1) + 100 * (4 * n400 + n100)" by (simp add: p_def)
    then have "(p + 1) mod 100 = (4 * n4 + n1 + 1) mod 100" by (simp only: mod_mult_self2)
    then show ?thesis using f g(1,2) by (cases "4 * n4 + n1 = 99") simp_all
  qed
  have y400: "(p + 1) mod 400 = 0" if "4 * n4 + n1 = 99" "n100 = 3"
  proof -
    have "p + 1 = 400 * (n400 + 1)" using that by (simp add: p_def)
    then show ?thesis by simp
  qed
  have leap: "is_leap (p + 1)" if "d4 = 365"
  proof -
    have n1: "n1 = 3" using g that by (auto split: if_splits)
    have "n100 = 3" if "4 * n4 + n1 = 99"
    proof (rule ccontr)
      assume "n100 \<noteq> 3"
      then have "d2 \<le> 36523" using c(4) by simp
      moreover have "n4 = 24" using that n1 by simp
      ultimately show False using \<open>d4 = 365\<close> n1 by (simp add: d4_def d3_def)
    qed
    then show ?thesis using n1 y4 y100 y400 by (auto simp: is_leap_def)
  qed
  have "days_before_year (p + 1) + d4 = days"
    unfolding days_before_year_def Let_def by (simp add: q days) (simp add: p_def)
  moreover have "d4 < (if is_leap (p + 1) then 366 else 365)"
    using leap g(4) by (cases "d4 = 365") (auto split: if_splits)
  moreover have "1 \<le> p + 1" using n400 c(1) f(1) g(1) by (simp add: p_def)
  ultimately show ?thesis using yd g(3) by blast
qed

text \<open>The day of the year from month and day.\<close>

definition day_of_year :: "bool \<Rightarrow> int \<Rightarrow> int \<Rightarrow> int" where
  "day_of_year leap m d = days_before ! nat (m - 1) + d - 1 + (if leap \<and> 2 < m then 1 else 0)"

lemma month_day_correct:
  assumes "0 \<le> yd" and "yd < (if leap then 366 else 365)"
  shows "case month_day leap yd of (m, d) \<Rightarrow> 1 \<le> m \<and> m \<le> 12 \<and> 1 \<le> d \<and> d \<le> 31 \<and> day_of_year leap m d = yd"
proof -
  have "list_all (\<lambda>leap. list_all (\<lambda>yd. case month_day leap yd of (m, d) \<Rightarrow>
      1 \<le> m \<and> m \<le> 12 \<and> 1 \<le> d \<and> d \<le> 31 \<and> day_of_year leap m d = yd)
      (if leap then [0..365] else [0..364])) [True, False]" by code_simp
  then show ?thesis using assms by (cases leap) (simp_all add: list_all_iff)
qed

end
