(* ===== verification/Go_Fmt.thy ===== *)
theory Go_Fmt
  imports Go_Clock
begin

text \<open>
  The parts of Go's \<open>fmt\<close>, \<open>strconv\<close> and \<open>time\<close> the terminal view formats with: widths counted in UTF-8
  runes, \<open>%.kf\<close>, and date and time of day.
\<close>

section \<open>Runes\<close>

definition byte_in :: "nat \<Rightarrow> nat \<Rightarrow> string \<Rightarrow> nat \<Rightarrow> bool" where
  "byte_in lo hi s i \<longleftrightarrow> i < length s \<and> lo \<le> of_char (s ! i) \<and> of_char (s ! i) \<le> hi"

definition continues :: "string \<Rightarrow> nat \<Rightarrow> bool" where
  "continues s i \<longleftrightarrow> byte_in 0x80 0xBF s i"

text \<open>The bytes of the first rune; an invalid byte is a rune of its own.\<close>

definition rune_len :: "string \<Rightarrow> nat" where
  "rune_len s =
     (let first = (\<lambda>lo hi. byte_in lo hi s 0)
      in if first 0xC2 0xDF \<and> continues s 1 then 2
         else if (first 0xE0 0xE0 \<and> byte_in 0xA0 0xBF s 1 \<or> first 0xE1 0xEC \<and> continues s 1 \<or>
                  first 0xED 0xED \<and> byte_in 0x80 0x9F s 1 \<or> first 0xEE 0xEF \<and> continues s 1) \<and> continues s 2 then 3
         else if (first 0xF0 0xF0 \<and> byte_in 0x90 0xBF s 1 \<or> first 0xF1 0xF3 \<and> continues s 1 \<or>
                  first 0xF4 0xF4 \<and> byte_in 0x80 0x8F s 1) \<and> continues s 2 \<and> continues s 3 then 4
         else 1)"

lemma rune_len_pos: "0 < rune_len s"
  by (simp add: rune_len_def Let_def)

function rune_count :: "string \<Rightarrow> nat" where
  "rune_count s = (if s = [] then 0 else Suc (rune_count (drop (rune_len s) s)))"
  by pat_completeness auto
termination
  by (relation "measure length") (auto simp: rune_len_pos)

declare rune_count.simps [simp del]

text \<open>ASCII text has one rune per byte.\<close>

lemma rune_count_ascii: "\<forall>c \<in> set s. (of_char c :: nat) < 0x80 \<Longrightarrow> rune_count s = length s"
proof (induction s)
  case (Cons c s)
  then have "rune_len (c # s) = 1" by (simp add: rune_len_def byte_in_def Let_def)
  then show ?case using Cons by (simp add: rune_count.simps [of "c # s"])
qed (simp add: rune_count.simps)

section \<open>Widths\<close>

text \<open>\<open>%-ws\<close> and \<open>%ws\<close>.\<close>

definition fmt_left :: "nat \<Rightarrow> string \<Rightarrow> string" where
  "fmt_left w s = s @ replicate (w - rune_count s) (CHR '' '')"

definition fmt_right :: "nat \<Rightarrow> string \<Rightarrow> string" where
  "fmt_right w s = replicate (w - rune_count s) (CHR '' '') @ s"

text \<open>\<open>%.kf\<close>: the exact value rounded to \<open>k\<close> decimals, halves to even.\<close>

definition format_fixed :: "nat \<Rightarrow> f64 \<Rightarrow> string" where
  "format_fixed k x =
     (case x of
        NaN \<Rightarrow> ''NaN''
      | Inf s \<Rightarrow> (if s then ''-Inf'' else ''+Inf'')
      | _ \<Rightarrow> (let n = round_even (\<bar>f_val x\<bar> * 10 ^ k)
             in (if f_neg x then ''-'' else '''') @ itoa (n div 10 ^ k) @
                (if k = 0 then '''' else ''.'' @ pad_zero k (n mod 10 ^ k))))"

section \<open>Date and time\<close>

text \<open>\<open>Format("2006-01-02")\<close> and \<open>Format("15:04:05")\<close> of an instant in Unix seconds, in UTC.\<close>

definition format_date :: "int \<Rightarrow> string" where
  "format_date unix =
     (let (y, yd) = year_day (unix div 86400 + 719162); (m, d) = month_day (is_leap y) yd
      in pad_zero 4 y @ ''-'' @ pad_zero 2 m @ ''-'' @ pad_zero 2 d)"

definition format_time :: "int \<Rightarrow> string" where
  "format_time unix =
     (let sec = unix mod 86400
      in pad_zero 2 (sec div 3600) @ '':'' @ pad_zero 2 (sec mod 3600 div 60) @ '':'' @ pad_zero 2 (sec mod 60))"

end
