(* ===== verification/Go_Json.thy ===== *)
theory Go_Json
  imports Go_Fmt Go_Sha256
begin

text \<open>
  Go's \<open>encoding/json\<close> on byte strings: the values of a JSON text with their number literals, the text
  \<open>Marshal\<close> writes (with its HTML escapes and its replacement of invalid UTF-8), and the scanner and parser
  behind \<open>Unmarshal\<close>. The parser takes fuel; \<open>parse_fuel_enough\<close> shows that twice the length of the
  text is always enough, so that no text is rejected for lack of it. Go's limit of 10000 nested values is left out, and the text of
  a syntax error does not say where it is. The second half shows that a parse only looks at the text it
  consumes; \<open>Go_Json_Print\<close> has the round trip with the printer.
\<close>

section \<open>Values\<close>

datatype json = JNull | JBool bool | JNum string | JStr string | JArr "json list"
  | JObj "(string \<times> json) list"

definition j_int :: "int \<Rightarrow> json" where
  "j_int n = JNum (itoa n)"

definition quote_mark :: char where
  "quote_mark = CHR 0x22"

definition backslash :: char where
  "backslash = CHR 0x5C"

definition byte_val :: "char \<Rightarrow> nat" where
  "byte_val c = of_char c"

section \<open>Writing\<close>

definition hex4 :: "nat \<Rightarrow> string" where
  "hex4 n = [hex_digit (n div 4096 mod 16), hex_digit (n div 256 mod 16), hex_digit (n div 16 mod 16), hex_digit (n mod 16)]"

definition plain_char :: "char \<Rightarrow> bool" where
  "plain_char c \<longleftrightarrow> 0x20 \<le> byte_val c \<and> byte_val c < 0x80 \<and> c \<notin> {quote_mark, backslash, CHR ''<'', CHR ''>'', CHR ''&''}"

definition quote_char :: "char \<Rightarrow> string" where
  "quote_char c =
     (if plain_char c then [c]
      else if c = quote_mark \<or> c = backslash then [backslash, c]
      else if c = CHR 0x08 then [backslash, CHR ''b'']
      else if c = CHR 0x0C then [backslash, CHR ''f'']
      else if c = CHR 0x0A then [backslash, CHR ''n'']
      else if c = CHR 0x0D then [backslash, CHR ''r'']
      else if c = CHR 0x09 then [backslash, CHR ''t'']
      else [backslash, CHR ''u''] @ hex4 (byte_val c))"

text \<open>One rune: an invalid byte becomes the replacement character, the two Unicode line separators are escaped.\<close>

definition quote_rune :: "string \<Rightarrow> string" where
  "quote_rune r =
     (if length r = 1 then (if byte_val (hd r) < 0x80 then quote_char (hd r) else [backslash, CHR ''u''] @ hex4 0xFFFD)
      else if r = [CHR 0xE2, CHR 0x80, CHR 0xA8] then [backslash, CHR ''u''] @ hex4 0x2028
      else if r = [CHR 0xE2, CHR 0x80, CHR 0xA9] then [backslash, CHR ''u''] @ hex4 0x2029
      else r)"

function quote_body :: "string \<Rightarrow> string" where
  "quote_body s =
     (if s = [] then [] else quote_rune (take (rune_len s) s) @ quote_body (drop (rune_len s) s))"
  by pat_completeness auto
termination
  by (relation "measure length") (auto simp: rune_len_pos)

declare quote_body.simps [simp del]

definition quote :: "string \<Rightarrow> string" where
  "quote s = quote_mark # quote_body s @ [quote_mark]"

fun join_commas :: "string list \<Rightarrow> string" where
  "join_commas [] = []"
| "join_commas [x] = x"
| "join_commas (x # y # xs) = x @ CHR '','' # join_commas (y # xs)"

fun print_json :: "json \<Rightarrow> string" where
  "print_json JNull = ''null''"
| "print_json (JBool b) = (if b then ''true'' else ''false'')"
| "print_json (JNum x) = x"
| "print_json (JStr s) = quote s"
| "print_json (JArr js) = CHR ''['' # join_commas (map print_json js) @ '']''"
| "print_json (JObj kvs) =
     CHR ''{'' # join_commas (map (\<lambda>(k, v). quote k @ CHR '':'' # print_json v) kvs) @ ''}''"

section \<open>Reading strings\<close>

text \<open>The UTF-8 text of a rune, and \<open>utf16.DecodeRune\<close>.\<close>

definition utf8 :: "nat \<Rightarrow> string" where
  "utf8 n =
     (if n < 0x80 then [char_of n]
      else if n < 0x800 then [char_of (0xC0 + n div 64), char_of (0x80 + n mod 64)]
      else if n < 0x10000 then [char_of (0xE0 + n div 4096), char_of (0x80 + n div 64 mod 64), char_of (0x80 + n mod 64)]
      else [char_of (0xF0 + n div 262144), char_of (0x80 + n div 4096 mod 64), char_of (0x80 + n div 64 mod 64),
            char_of (0x80 + n mod 64)])"

fun unhex4 :: "string \<Rightarrow> (nat \<times> string) option" where
  "unhex4 (a # b # c # d # s) =
     (case (hex_val a, hex_val b, hex_val c, hex_val d) of
        (Some w, Some x, Some y, Some z) \<Rightarrow> Some (w * 4096 + x * 256 + y * 16 + z, s)
      | _ \<Rightarrow> None)"
| "unhex4 _ = None"

definition get_u4 :: "string \<Rightarrow> (nat \<times> string) option" where
  "get_u4 s = (case s of b # u # t \<Rightarrow> if b = backslash \<and> u = CHR ''u'' then unhex4 t else None | _ \<Rightarrow> None)"

definition is_surrogate :: "nat \<Rightarrow> bool" where
  "is_surrogate n \<longleftrightarrow> 0xD800 \<le> n \<and> n < 0xE000"

definition surrogate_pair :: "nat \<Rightarrow> nat \<Rightarrow> nat option" where
  "surrogate_pair a b =
     (if 0xD800 \<le> a \<and> a < 0xDC00 \<and> 0xDC00 \<le> b \<and> b < 0xE000
      then Some ((a - 0xD800) * 1024 + (b - 0xDC00) + 0x10000) else None)"

text \<open>What follows a backslash: the bytes it stands for and the rest of the text.\<close>

definition unescape_u :: "string \<Rightarrow> (string \<times> string) option" where
  "unescape_u t =
     (case unhex4 t of
        None \<Rightarrow> None
      | Some (n, u) \<Rightarrow>
          if \<not> is_surrogate n then Some (utf8 n, u)
          else (case get_u4 u of
                  None \<Rightarrow> Some (utf8 0xFFFD, u)
                | Some (m, w) \<Rightarrow> (case surrogate_pair n m of
                      None \<Rightarrow> Some (utf8 0xFFFD, u) | Some x \<Rightarrow> Some (utf8 x, w))))"

definition simple_escapes :: "(char \<times> char) list" where
  "simple_escapes = [(quote_mark, quote_mark), (backslash, backslash), (CHR ''/'', CHR ''/''), (CHR ''b'', CHR 0x08),
     (CHR ''f'', CHR 0x0C), (CHR ''n'', CHR 0x0A), (CHR ''r'', CHR 0x0D), (CHR ''t'', CHR 0x09)]"

definition unescape :: "string \<Rightarrow> (string \<times> string) option" where
  "unescape s =
     (case s of
        [] \<Rightarrow> None
      | c # t \<Rightarrow> if c = CHR ''u'' then unescape_u t
          else map_option (\<lambda>d. ([d], t)) (map_of simple_escapes c))"

text \<open>The first rune of a text inside a string and the text it stands for; \<open>None\<close> at the end and on an error.\<close>

definition string_rune :: "string \<Rightarrow> (string \<times> string) option" where
  "string_rune s =
     (case s of
        [] \<Rightarrow> None
      | c # t \<Rightarrow>
          if c = backslash then unescape t
          else if c = quote_mark \<or> byte_val c < 0x20 then None
          else if rune_len s = 1 \<and> 0x80 \<le> byte_val c then Some (utf8 0xFFFD, t)
          else Some (take (rune_len s) s, drop (rune_len s) s))"

lemma unhex4_shorter: "unhex4 s = Some (n, t) \<Longrightarrow> length t < length s"
  by (induction s rule: unhex4.induct) (auto split: option.splits)

lemma get_u4_shorter: "get_u4 s = Some (n, t) \<Longrightarrow> length t < length s"
  by (auto simp: get_u4_def dest: unhex4_shorter split: list.splits if_splits)

lemma unescape_shorter: "unescape s = Some (v, t) \<Longrightarrow> length t < length s"
  by (auto simp: unescape_def unescape_u_def dest: unhex4_shorter get_u4_shorter
      split: list.splits if_splits option.splits prod.splits) (meson less_SucI less_trans get_u4_shorter unhex4_shorter)

lemma string_rune_shorter: "string_rune s = Some (v, t) \<Longrightarrow> length t < length s"
  using rune_len_pos [of s]
  by (auto simp: string_rune_def dest: unescape_shorter split: list.splits if_splits)

text \<open>The text of a string after its opening quotation mark, up to the closing one.\<close>

function unquote :: "string \<Rightarrow> (string \<times> string) option" where
  "unquote s =
     (case s of
        [] \<Rightarrow> None
      | c # t \<Rightarrow>
          if c = quote_mark then Some ([], t)
          else (case string_rune s of
                  None \<Rightarrow> None
                | Some (v, u) \<Rightarrow> map_option (\<lambda>(w, r). (v @ w, r)) (unquote u)))"
  by pat_completeness auto
termination
  by (relation "measure length") (auto dest: string_rune_shorter)

declare unquote.simps [simp del]

section \<open>Reading numbers\<close>

definition is_digit_char :: "char \<Rightarrow> bool" where
  "is_digit_char c \<longleftrightarrow> CHR ''0'' \<le> c \<and> c \<le> CHR ''9''"

definition span_digits :: "string \<Rightarrow> string \<times> string" where
  "span_digits s = (takeWhile is_digit_char s, dropWhile is_digit_char s)"

text \<open>An optional minus sign, the integer part without leading zeros, a fraction and an exponent.\<close>

definition scan_sign :: "string \<Rightarrow> string \<times> string" where
  "scan_sign s = (case s of [] \<Rightarrow> ([], []) | c # t \<Rightarrow> if c = CHR ''-'' then ([c], t) else ([], s))"

definition scan_int_part :: "string \<Rightarrow> (string \<times> string) option" where
  "scan_int_part s =
     (case s of
        [] \<Rightarrow> None
      | c # t \<Rightarrow> if c = CHR ''0'' then Some ([c], t)
          else if is_digit_char c then Some (span_digits s) else None)"

definition some_digits :: "string \<Rightarrow> string \<Rightarrow> (string \<times> string) option" where
  "some_digits pre s = (case span_digits s of (ds, t) \<Rightarrow> if ds = [] then None else Some (pre @ ds, t))"

definition scan_fraction :: "string \<Rightarrow> (string \<times> string) option" where
  "scan_fraction s = (case s of [] \<Rightarrow> Some ([], [])
     | c # t \<Rightarrow> if c = CHR ''.'' then some_digits [c] t else Some ([], s))"

definition scan_exponent :: "string \<Rightarrow> (string \<times> string) option" where
  "scan_exponent s =
     (case s of [] \<Rightarrow> Some ([], [])
      | c # t \<Rightarrow> if c = CHR ''e'' \<or> c = CHR ''E''
          then (case t of [] \<Rightarrow> None
             | d # u \<Rightarrow> if d = CHR ''+'' \<or> d = CHR ''-'' then some_digits [c, d] u else some_digits [c] t)
          else Some ([], s))"

record number =
  n_sign :: string
  n_int :: string
  n_fraction :: string
  n_exponent :: string

definition scan_number :: "string \<Rightarrow> (number \<times> string) option" where
  "scan_number s =
     (case scan_sign s of (sg, s1) \<Rightarrow>
        Option.bind (scan_int_part s1) (\<lambda>(ip, s2).
          Option.bind (scan_fraction s2) (\<lambda>(fr, s3).
            Option.bind (scan_exponent s3) (\<lambda>(ex, s4).
              Some (\<lparr>n_sign = sg, n_int = ip, n_fraction = fr, n_exponent = ex\<rparr>, s4)))))"

definition literal :: "number \<Rightarrow> string" where
  "literal n = n_sign n @ n_int n @ n_fraction n @ n_exponent n"

definition is_number :: "string \<Rightarrow> bool" where
  "is_number x \<longleftrightarrow> (case scan_number x of Some (n, []) \<Rightarrow> True | _ \<Rightarrow> False)"

lemma is_number_iff: "is_number x \<longleftrightarrow> (\<exists>n. scan_number x = Some (n, []))"
  by (auto simp: is_number_def split: option.splits prod.splits list.splits)

text \<open>\<open>strconv.ParseFloat\<close> on a literal: the nearest binary64 number, \<open>None\<close> beyond the range.\<close>

definition digits_value :: "string \<Rightarrow> int" where
  "digits_value s = (case parse_digits 0 s of Some n \<Rightarrow> n | None \<Rightarrow> 0)"

definition exponent_value :: "string \<Rightarrow> int" where
  "exponent_value ex =
     (case ex of c # d # s \<Rightarrow> if d = CHR ''-'' then - digits_value s
        else if d = CHR ''+'' then digits_value s else digits_value (d # s)
      | _ \<Rightarrow> 0)"

definition number_value :: "number \<Rightarrow> rat" where
  "number_value n =
     (let fr = tl (n_fraction n)
      in of_int (digits_value (n_int n @ fr)) / 10 ^ length fr * 10 powi exponent_value (n_exponent n))"

definition parse_float :: "string \<Rightarrow> f64 option" where
  "parse_float x =
     (case scan_number x of
        Some (n, []) \<Rightarrow>
          (let neg = (n_sign n \<noteq> []); q = number_value n; r = fl neg (if neg then - q else q)
           in if is_fin r then Some r else None)
      | _ \<Rightarrow> None)"

section \<open>Reading values\<close>

definition is_space :: "char \<Rightarrow> bool" where
  "is_space c \<longleftrightarrow> c \<in> {CHR '' '', CHR 0x09, CHR 0x0A, CHR 0x0D}"

definition token :: "string \<Rightarrow> (char \<times> string) option" where
  "token s = (case dropWhile is_space s of [] \<Rightarrow> None | c # t \<Rightarrow> Some (c, t))"

definition word_value :: "string \<Rightarrow> (json \<times> string) option" where
  "word_value s =
     (if has_prefix s ''null'' then Some (JNull, drop 4 s)
      else if has_prefix s ''true'' then Some (JBool True, drop 4 s)
      else if has_prefix s ''false'' then Some (JBool False, drop 5 s)
      else map_option (\<lambda>(n, r). (JNum (literal n), r)) (scan_number s))"

text \<open>An opening bracket that is closed at once, and the name of a member with its colon.\<close>

definition next_is :: "char \<Rightarrow> string \<Rightarrow> string option" where
  "next_is e s = (case token s of None \<Rightarrow> None | Some (c, t) \<Rightarrow> if c = e then Some t else None)"

definition member_name :: "string \<Rightarrow> (string \<times> string) option" where
  "member_name s =
     Option.bind (next_is quote_mark s) (\<lambda>t.
       Option.bind (unquote t) (\<lambda>(k, r). map_option (Pair k) (next_is (CHR '':'') r)))"

definition atom_value :: "char \<Rightarrow> string \<Rightarrow> (json \<times> string) option" where
  "atom_value c t = (if c = quote_mark then map_option (\<lambda>(v, r). (JStr v, r)) (unquote t) else word_value (c # t))"

fun pval :: "nat \<Rightarrow> string \<Rightarrow> (json \<times> string) option"
  and pelems :: "nat \<Rightarrow> string \<Rightarrow> (json list \<times> string) option"
  and pmembers :: "nat \<Rightarrow> string \<Rightarrow> ((string \<times> json) list \<times> string) option" where
  "pval 0 s = None"
| "pval (Suc n) s = Option.bind (token s) (\<lambda>(c, t).
     if c = CHR ''{'' then (case next_is (CHR ''}'') t of Some u \<Rightarrow> Some (JObj [], u)
       | None \<Rightarrow> map_option (\<lambda>(kvs, r). (JObj kvs, r)) (pmembers n t))
     else if c = CHR ''['' then (case next_is (CHR '']'') t of Some u \<Rightarrow> Some (JArr [], u)
       | None \<Rightarrow> map_option (\<lambda>(js, r). (JArr js, r)) (pelems n t))
     else atom_value c t)"
| "pelems 0 s = None"
| "pelems (Suc n) s = Option.bind (pval n s) (\<lambda>(j, r). Option.bind (token r) (\<lambda>(c, t).
     if c = CHR '']'' then Some ([j], t)
     else if c = CHR '','' then map_option (\<lambda>(js, u). (j # js, u)) (pelems n t)
     else None))"
| "pmembers 0 s = None"
| "pmembers (Suc n) s = Option.bind (member_name s) (\<lambda>(k, u).
     Option.bind (pval n u) (\<lambda>(v, w). Option.bind (token w) (\<lambda>(e, x).
       if e = CHR ''}'' then Some ([(k, v)], x)
       else if e = CHR '','' then map_option (\<lambda>(kvs, y). ((k, v) # kvs, y)) (pmembers n x)
       else None)))"

definition json_syntax_error :: string where
  "json_syntax_error = ''invalid JSON text''"

definition parse_json :: "string \<Rightarrow> json result" where
  "parse_json s =
     (if list_all is_space s then Inl ''unexpected end of JSON input''
      else case pval (2 * length s + 1) s of
             Some (j, r) \<Rightarrow> if list_all is_space r then Inr j else Inl json_syntax_error
           | None \<Rightarrow> Inl json_syntax_error)"

section \<open>The parser needs no more fuel than twice the text\<close>

lemma token_Some:
  "token s = Some (c, t) \<Longrightarrow> \<not> is_space c \<and> length t < length s \<and> (\<exists>w. list_all is_space w \<and> s = w @ c # t)"
proof -
  assume "token s = Some (c, t)"
  then have d: "dropWhile is_space s = c # t" by (auto simp: token_def split: list.splits)
  have s: "s = takeWhile is_space s @ c # t" using takeWhile_dropWhile_id [of is_space s] d by simp
  have "list_all is_space (takeWhile is_space s)" by (auto simp: list_all_iff dest: set_takeWhileD)
  moreover have "\<not> is_space c" using hd_dropWhile [of is_space s] d by auto
  ultimately show ?thesis using s by (metis length_append length_Cons less_add_Suc1 add.commute add_Suc_right trans_less_add2 lessI)
qed

lemma token_shorter: "token s = Some (c, t) \<Longrightarrow> length t < length s"
  using token_Some by blast

lemma token_skip: "list_all is_space w \<Longrightarrow> \<not> is_space c \<Longrightarrow> token (w @ c # t) = Some (c, t)"
  by (induction w) (auto simp: token_def)

lemma token_here [simp]: "\<not> is_space c \<Longrightarrow> token (c # t) = Some (c, t)"
  by (simp add: token_def)

lemma token_append: "token s = Some (c, t) \<Longrightarrow> token (s @ x) = Some (c, t @ x)"
  using token_Some [of s c t] token_skip [of _ c "t @ x"] by fastforce

lemma unquote_shorter: "unquote s = Some (v, t) \<Longrightarrow> length t < length s"
proof (induction s arbitrary: v rule: unquote.induct)
  case (1 s)
  from "1.prems" obtain c s' where s: "s = c # s'" by (subst (asm) unquote.simps) (auto split: list.splits)
  show ?case
  proof (cases "c = quote_mark")
    case True
    then show ?thesis using "1.prems" s by (subst (asm) unquote.simps) simp
  next
    case False
    then obtain w u x where u: "string_rune s = Some (w, u)" and x: "unquote u = Some (x, t)"
      using "1.prems" s by (subst (asm) unquote.simps) (auto split: option.splits)
    show ?thesis using "1.IH" [OF s False u refl x] string_rune_shorter [OF u] by simp
  qed
qed

lemma span_digits_shorter: "length (snd (span_digits s)) \<le> length s"
  by (simp add: span_digits_def length_dropWhile_le)

lemma some_digits_shorter: "some_digits p s = Some (ds, t) \<Longrightarrow> length t \<le> length s"
  using span_digits_shorter [of s] by (auto simp: some_digits_def split: prod.splits if_splits)

lemma scan_number_shorter: "scan_number s = Some (n, t) \<Longrightarrow> length t < length s"
proof -
  assume a: "scan_number s = Some (n, t)"
  obtain sg s1 where s1: "scan_sign s = (sg, s1)" by fastforce
  obtain ip s2 where s2: "scan_int_part s1 = Some (ip, s2)"
    using a s1 by (auto simp: scan_number_def bind_eq_Some_conv)
  obtain fr s3 where s3: "scan_fraction s2 = Some (fr, s3)"
    using a s1 s2 by (auto simp: scan_number_def bind_eq_Some_conv)
  obtain ex where s4: "scan_exponent s3 = Some (ex, t)"
    using a s1 s2 s3 by (auto simp: scan_number_def bind_eq_Some_conv)
  have "length s1 \<le> length s" using s1 by (auto simp: scan_sign_def split: list.splits if_splits)
  moreover have "length s2 < length s1"
    using s2 by (auto simp: scan_int_part_def span_digits_def less_Suc_eq_le length_dropWhile_le split: list.splits if_splits)
  moreover have "length s3 \<le> length s2"
    using s3 some_digits_shorter by (auto simp: scan_fraction_def le_SucI split: list.splits if_splits)
  moreover have "length t \<le> length s3"
    using s4 some_digits_shorter by (fastforce simp: scan_exponent_def le_SucI split: list.splits if_splits)
  ultimately show ?thesis by linarith
qed

lemma has_prefix_length: "has_prefix s p \<Longrightarrow> length p \<le> length s"
  by (auto simp: has_prefix_iff)

lemma word_value_shorter: "word_value s = Some (j, t) \<Longrightarrow> length t < length s"
  using has_prefix_length [of s "''null''"] has_prefix_length [of s "''true''"] has_prefix_length [of s "''false''"]
  by (auto simp: word_value_def dest: scan_number_shorter split: if_splits)

lemma next_is_shorter: "next_is e s = Some t \<Longrightarrow> length t < length s"
  by (auto simp: next_is_def dest: token_shorter split: option.splits if_splits)

lemma member_name_shorter: "member_name s = Some (k, t) \<Longrightarrow> length t < length s"
  by (auto simp: member_name_def bind_eq_Some_conv dest!: next_is_shorter unquote_shorter)

lemma atom_value_shorter: "token s = Some (c, t) \<Longrightarrow> atom_value c t = Some (j, r) \<Longrightarrow> length r < length s"
  using token_shorter [of s c t] unquote_shorter [of t] word_value_shorter [of "c # t" j r]
  by (fastforce simp: atom_value_def split: if_splits)

lemma parse_shorter:
  "pval n s = Some (j, r) \<Longrightarrow> length r < length s"
  "pelems n s = Some (js, r) \<Longrightarrow> length r < length s"
  "pmembers n s = Some (kvs, r) \<Longrightarrow> length r < length s"
proof (induction n s and n s and n s arbitrary: j r and js r and kvs r rule: pval_pelems_pmembers.induct)
  case (2 n s)
  from "2.prems" obtain c t where ct: "token s = Some (c, t)" by (auto simp: bind_eq_Some_conv)
  show ?case
    using "2.prems" ct token_shorter [OF ct] atom_value_shorter [OF ct, of j r] next_is_shorter [of _ t r]
      "2.IH"(1) [OF ct refl] "2.IH"(2) [OF ct refl]
    by (fastforce split: if_splits option.splits dest: less_trans)
next
  case (4 n s)
  from "4.prems" obtain j' s' where v: "pval n s = Some (j', s')" by (auto simp: bind_eq_Some_conv)
  with "4.prems" obtain c t where ct: "token s' = Some (c, t)" by (auto simp: bind_eq_Some_conv)
  show ?case
    using "4.prems" v ct "4.IH"(1) [OF v] token_shorter [OF ct] "4.IH"(2) [OF v refl ct refl]
    by (fastforce split: if_splits dest: less_trans)
next
  case (6 n s)
  from "6.prems" obtain k u where k: "member_name s = Some (k, u)" by (auto simp: bind_eq_Some_conv)
  with "6.prems" obtain v w where v: "pval n u = Some (v, w)" by (auto simp: bind_eq_Some_conv)
  with "6.prems" k obtain e x where ex: "token w = Some (e, x)" by (auto simp: bind_eq_Some_conv)
  have "length x < length s"
    using member_name_shorter [OF k] "6.IH"(1) [OF k refl v] token_shorter [OF ex] by linarith
  then show ?case
    using "6.prems" k v ex "6.IH"(2) [OF k refl v refl ex refl] by (fastforce split: if_splits dest: less_trans)
qed auto

lemma bind_cong_Some: "x = y \<Longrightarrow> (\<And>a. y = Some a \<Longrightarrow> f a = g a) \<Longrightarrow> Option.bind x f = Option.bind y g"
  by (cases y) auto

lemma fuel_step:
  "2 * length s + 1 \<le> n \<Longrightarrow> pval (Suc n) s = pval n s"
  "2 * length s + 2 \<le> n \<Longrightarrow> pelems (Suc n) s = pelems n s"
  "2 * length s + 2 \<le> n \<Longrightarrow> pmembers (Suc n) s = pmembers n s"
proof (induction n s and n s and n s rule: pval_pelems_pmembers.induct)
  case (2 n s)
  have "pmembers (Suc n) t = pmembers n t" if "token s = Some (c, t)" "c = CHR ''{''" "next_is (CHR ''}'') t = None" for c t
    by (rule "2.IH"(1) [OF that(1) refl that(2,3)]) (use token_shorter [OF that(1)] "2.prems" in linarith)
  moreover have "pelems (Suc n) t = pelems n t"
    if "token s = Some (c, t)" "c \<noteq> CHR ''{''" "c = CHR ''[''" "next_is (CHR '']'') t = None" for c t
    by (rule "2.IH"(2) [OF that(1) refl that(2-4)]) (use token_shorter [OF that(1)] "2.prems" in linarith)
  ultimately show ?case
    unfolding pval.simps(2) [of "Suc n" s] pval.simps(2) [of n s]
    by (auto intro!: bind_cong_Some simp del: pval.simps pelems.simps pmembers.simps split: option.split)
next
  case (4 n s)
  have v: "pval (Suc n) s = pval n s" using "4.IH"(1) "4.prems" by simp
  have "pelems (Suc n) t = pelems n t"
    if "pval n s = Some (j, r)" "token r = Some (c, t)" "c \<noteq> CHR '']''" "c = CHR '',''" for j r c t
    by (rule "4.IH"(2) [OF that(1) refl that(2) refl that(3,4)])
      (use parse_shorter(1) [OF that(1)] token_shorter [OF that(2)] "4.prems" in linarith)
  then show ?case
    unfolding pelems.simps(2) [of "Suc n" s] pelems.simps(2) [of n s] v
    by (auto intro!: bind_cong_Some simp del: pval.simps pelems.simps pmembers.simps)
next
  case (6 n s)
  have v: "pval (Suc n) u = pval n u" if "member_name s = Some (k, u)" for k u
    by (rule "6.IH"(1) [OF that refl]) (use member_name_shorter [OF that] "6.prems" in linarith)
  have "pmembers (Suc n) x = pmembers n x"
    if "member_name s = Some (k, u)" "pval n u = Some (v, w)" "token w = Some (e, x)" "e \<noteq> CHR ''}''" "e = CHR '',''" for k u v w e x
    by (rule "6.IH"(2) [OF that(1) refl that(2) refl that(3) refl that(4,5)])
      (use member_name_shorter [OF that(1)] parse_shorter(1) [OF that(2)] token_shorter [OF that(3)] "6.prems" in linarith)
  then show ?case
    unfolding pmembers.simps(2) [of "Suc n" s] pmembers.simps(2) [of n s]
    by (auto intro!: bind_cong_Some v simp del: pval.simps pelems.simps pmembers.simps)
qed auto

text \<open>More fuel than twice the length of the text changes nothing.\<close>

lemma parse_fuel_enough: "2 * length s + 1 \<le> n \<Longrightarrow> pval n s = pval (2 * length s + 1) s"
proof (induction n)
  case (Suc n)
  then show ?case
    using fuel_step(1) [of s n] by (cases "2 * length s + 1 \<le> n") (auto simp: le_Suc_eq simp del: pval.simps)
qed simp

section \<open>A parse looks only at the text it consumes\<close>

lemma rune_len_le_4: "rune_len s \<in> {1, 2, 3, 4}"
  by (simp add: rune_len_def Let_def)

lemma rune_bytes:
  assumes "rune_len s = m" and "1 < m" and "i < m"
  shows "i < length s \<and> 0x80 \<le> byte_val (s ! i)"
proof -
  define high where "high i \<longleftrightarrow> i < length s \<and> 0x80 \<le> byte_val (s ! i)" for i
  have h: "high i" if "byte_in lo hi s i" "0x80 \<le> lo" for lo hi i
    using that unfolding high_def byte_in_def byte_val_def by linarith
  have hs: "byte_in 194 223 s i \<Longrightarrow> high i" "byte_in 224 224 s i \<Longrightarrow> high i" "byte_in 160 191 s i \<Longrightarrow> high i"
    "byte_in 225 236 s i \<Longrightarrow> high i" "byte_in 237 237 s i \<Longrightarrow> high i" "byte_in 128 159 s i \<Longrightarrow> high i"
    "byte_in 238 239 s i \<Longrightarrow> high i" "byte_in 240 240 s i \<Longrightarrow> high i" "byte_in 144 191 s i \<Longrightarrow> high i"
    "byte_in 241 243 s i \<Longrightarrow> high i" "byte_in 244 244 s i \<Longrightarrow> high i" "byte_in 128 143 s i \<Longrightarrow> high i" for i
    by (rule h, assumption, simp)+
  have c: "high i" if "continues s i" for i
    using h that unfolding continues_def by blast
  have "m = 2 \<and> high 0 \<and> high 1 \<or> m = 3 \<and> high 0 \<and> high 1 \<and> high 2 \<or> m = 4 \<and> high 0 \<and> high 1 \<and> high 2 \<and> high 3"
  proof -
    have "high 0" "high 1"
      using assms(1,2) unfolding rune_len_def Let_def by (auto split: if_splits dest: hs c)
    moreover have "m = 3 \<Longrightarrow> high 2" "m = 4 \<Longrightarrow> high 2 \<and> high 3" "m \<in> {2, 3, 4}"
      using assms(1,2) c unfolding rune_len_def Let_def by (auto split: if_splits)
    ultimately show ?thesis by blast
  qed
  then show ?thesis using assms(3) unfolding high_def by (auto simp: less_Suc_eq numeral_eq_Suc)
qed

lemma rune_len_local:
  assumes "rune_len s = m" and "1 < m" and "\<And>i. i < m \<Longrightarrow> i < length u \<and> u ! i = s ! i"
  shows "rune_len u = m"
proof -
  have "byte_in lo hi u i = byte_in lo hi s i" if "i < m" for lo hi i
    using assms(3) [OF that] rune_bytes [OF assms(1,2) that] by (simp add: byte_in_def)
  note eq = this
  have m: "m \<in> {2, 3, 4}" using rune_len_le_4 [of s] assms(1,2) by auto
  have z: "byte_in lo hi u 0 = byte_in lo hi s 0" "byte_in lo hi u 1 = byte_in lo hi s 1" for lo hi
    using eq assms(2) by auto
  have first: "byte_in lo hi s 0 \<Longrightarrow> byte_in lo' hi' s 0 \<Longrightarrow> lo \<le> hi' \<and> lo' \<le> hi" for lo hi lo' hi'
    by (simp add: byte_in_def)
  show ?thesis
  proof (cases "m = 2")
    case True
    then show ?thesis using assms(1) z unfolding rune_len_def Let_def continues_def by (auto split: if_splits)
  next
    case False
    then have z2: "byte_in lo hi u 2 = byte_in lo hi s 2" for lo hi using eq m by auto
    show ?thesis
    proof (cases "m = 3")
      case True
      then show ?thesis using assms(1) z z2 unfolding rune_len_def Let_def continues_def by (auto split: if_splits)
    next
      case F: False
      then have z3: "byte_in lo hi u 3 = byte_in lo hi s 3" for lo hi using False eq m by auto
      show ?thesis using assms(1) z z2 z3 unfolding rune_len_def Let_def continues_def by (auto split: if_splits)
    qed
  qed
qed

lemma rune_len_append: "1 < rune_len s \<Longrightarrow> rune_len (s @ t) = rune_len s"
  by (rule rune_len_local [OF refl]) (use rune_bytes [OF refl] in \<open>auto simp: nth_append trans_less_add1\<close>)

lemma rune_len_append_ascii:
  assumes "rune_len s = 1" and "c \<in> set s" and "byte_val c < 0x80"
  shows "rune_len (s @ t) = 1"
proof (rule ccontr)
  assume "rune_len (s @ t) \<noteq> 1"
  then have m: "1 < rune_len (s @ t)" using rune_len_pos [of "s @ t"] by linarith
  note bytes = rune_bytes [OF refl m]
  show False
  proof (cases "rune_len (s @ t) \<le> length s")
    case True
    then have "rune_len s = rune_len (s @ t)"
      by (intro rune_len_local [OF refl m]) (auto simp: nth_append)
    then show False using assms(1) m by simp
  next
    case False
    obtain i where "i < length s" "s ! i = c" using assms(2) by (auto simp: in_set_conv_nth)
    then show False using bytes [of i] False assms(3) by (simp add: nth_append)
  qed
qed

lemma unquote_has_mark: "unquote s = Some (v, r) \<Longrightarrow> quote_mark \<in> set s \<and> (\<exists>p. s = p @ quote_mark # r)"
proof (induction s arbitrary: v rule: unquote.induct)
  case (1 s)
  from "1.prems" obtain c s' where s: "s = c # s'" by (subst (asm) unquote.simps) (auto split: list.splits)
  show ?case
  proof (cases "c = quote_mark")
    case True
    then show ?thesis using "1.prems" s by (subst (asm) unquote.simps) auto
  next
    case False
    then obtain w u x where u: "string_rune s = Some (w, u)" and x: "unquote u = Some (x, r)"
      using "1.prems" s by (subst (asm) unquote.simps) (auto split: option.splits)
    have suffix4: "\<exists>p. t = p @ u'" if "unhex4 t = Some (n, u')" for t n u'
      using that by (induction t rule: unhex4.induct) (auto split: option.splits intro: exI [of _ "[_, _, _, _]"])
    have suffix_u4: "\<exists>p. t = p @ u'" if "get_u4 t = Some (n, u')" for t n u'
      using that suffix4 by (fastforce simp: get_u4_def split: list.splits if_splits)
    have "\<exists>p. s = p @ u"
    proof -
      have "\<exists>p. t = p @ u" if un: "unescape t = Some (w, u)" for t
      proof (cases "\<exists>t'. t = CHR ''u'' # t'")
        case True
        then obtain t' where t: "t = CHR ''u'' # t'" by blast
        then obtain n y where y: "unhex4 t' = Some (n, y)"
          using un t by (cases "unhex4 t'") (auto simp: unescape_def unescape_u_def)
        have "y = u \<or> (\<exists>m. get_u4 y = Some (m, u))"
          using un t y by (auto simp: unescape_def unescape_u_def split: option.splits if_splits)
        then show ?thesis using suffix4 [OF y] suffix_u4 t by (metis append.assoc append_Cons)
      next
        case False
        then show ?thesis using un
          by (auto simp: unescape_def split: list.splits if_splits)
      qed
      then show ?thesis using u s
        by (auto simp: string_rune_def split: if_splits) (metis append_Cons append_take_drop_id)+
    qed
    then show ?thesis using "1.IH" [OF s False u refl x] by auto
  qed
qed

lemma unhex4_append: "unhex4 s = Some (n, r) \<Longrightarrow> unhex4 (s @ t) = Some (n, r @ t)"
  by (induction s rule: unhex4.induct) (auto split: option.splits)

lemma unhex4_no_mark: "unhex4 s = Some x \<Longrightarrow> 4 \<le> length s \<and> quote_mark \<notin> set (take 4 s)"
  by (induction s rule: unhex4.induct) (auto split: option.splits simp: hex_val_def quote_mark_def)

lemma unhex4_marked:
  assumes "unhex4 (s @ t) = Some x" and "quote_mark \<in> set s"
  shows "unhex4 s \<noteq> None"
proof -
  have "quote_mark \<notin> set (take 4 (s @ t))" using unhex4_no_mark [OF assms(1)] by simp
  then have "4 \<le> length s" using assms(2) by (cases "4 \<le> length s") auto
  then obtain a b c d u where "s = a # b # c # d # u"
    by (auto simp: numeral_eq_Suc Suc_le_length_iff)
  then show ?thesis using assms(1) by (auto split: option.splits)
qed

lemma get_u4_append: "get_u4 s = Some (n, r) \<Longrightarrow> get_u4 (s @ t) = Some (n, r @ t)"
  by (auto simp: get_u4_def dest: unhex4_append split: list.splits if_splits)

lemma get_u4_marked:
  assumes "get_u4 s = None" and "quote_mark \<in> set s"
  shows "get_u4 (s @ t) = None"
proof (rule ccontr)
  assume "get_u4 (s @ t) \<noteq> None"
  then obtain v x where v: "s @ t = backslash # CHR ''u'' # v" "unhex4 v = Some x"
    by (auto simp: get_u4_def split: list.splits if_splits)
  then have "\<exists>w. s = backslash # CHR ''u'' # w"
    using assms(2) by (cases s; cases "tl s") (auto simp: quote_mark_def backslash_def)
  then obtain w where w: "s = backslash # CHR ''u'' # w" by blast
  then have "unhex4 (w @ t) = Some x" "quote_mark \<in> set w"
    using v assms(2) by (auto simp: quote_mark_def backslash_def)
  then show False using assms(1) w unhex4_marked by (fastforce simp: get_u4_def)
qed

lemma unescape_append:
  assumes "unescape s = Some (v, r)" and "quote_mark \<in> set r"
  shows "unescape (s @ t) = Some (v, r @ t)"
proof (cases "\<exists>s'. s = CHR ''u'' # s'")
  case True
  then obtain s' where s: "s = CHR ''u'' # s'" by blast
  with assms(1) obtain n y where y: "unhex4 s' = Some (n, y)"
    by (cases "unhex4 s'") (auto simp: unescape_def unescape_u_def)
  note ya = unhex4_append [OF y, of t]
  show ?thesis
  proof (cases "is_surrogate n \<and> get_u4 y = None")
    case True
    then have "y = r" using assms(1) s y by (auto simp: unescape_def unescape_u_def)
    then have "get_u4 (y @ t) = None" using get_u4_marked [of y t] True assms(2) by simp
    then show ?thesis using assms(1) s y ya True by (auto simp: unescape_def unescape_u_def)
  next
    case False
    show ?thesis
    proof (cases "is_surrogate n")
      case True
      with False obtain m w where m: "get_u4 y = Some (m, w)" by auto
      show ?thesis using assms(1) s y ya m get_u4_append [OF m, of t] True
        by (auto simp: unescape_def unescape_u_def split: option.splits)
    qed (use assms(1) s y ya in \<open>auto simp: unescape_def unescape_u_def\<close>)
  qed
qed (use assms(1) in \<open>auto simp: unescape_def split: list.splits\<close>)

lemma string_rune_append:
  assumes "string_rune s = Some (v, r)" and "quote_mark \<in> set r"
  shows "string_rune (s @ t) = Some (v, r @ t)"
proof -
  obtain c s' where s: "s = c # s'" using assms(1) by (cases s) (auto simp: string_rune_def)
  consider "c = backslash" | "c \<noteq> backslash" "1 < rune_len s" | "c \<noteq> backslash" "rune_len s = 1"
    using rune_len_pos [of s] by linarith
  then show ?thesis
  proof cases
    case 1
    then show ?thesis using assms s unescape_append [of s' v r t] by (simp add: string_rune_def)
  next
    case 2
    have "rune_len s \<le> length s" using rune_bytes [OF refl 2(2), of "rune_len s - 1"] 2(2) by linarith
    then have "take (rune_len s) (s @ t) = take (rune_len s) s" "drop (rune_len s) (s @ t) = drop (rune_len s) s @ t"
      by simp_all
    then show ?thesis using 2 assms rune_len_append [OF 2(2), of t] unfolding s
      by (auto simp: string_rune_def split: if_splits)
  next
    case 3
    have "quote_mark \<in> set s" using 3 assms s
      by (auto simp: string_rune_def split: if_splits dest: in_set_dropD)
    then have "rune_len (s @ t) = 1"
      by (rule rune_len_append_ascii [OF 3(2)]) (simp add: quote_mark_def byte_val_def)
    then show ?thesis using 3 assms s by (auto simp: string_rune_def split: if_splits)
  qed
qed

lemma unquote_append: "unquote s = Some (v, r) \<Longrightarrow> unquote (s @ t) = Some (v, r @ t)"
proof (induction s arbitrary: v rule: unquote.induct)
  case (1 s)
  from "1.prems" obtain c s' where s: "s = c # s'" by (subst (asm) unquote.simps) (auto split: list.splits)
  show ?case
  proof (cases "c = quote_mark")
    case True
    then show ?thesis using "1.prems" s by (subst unquote.simps, subst (asm) unquote.simps) simp
  next
    case False
    then obtain w u x where u: "string_rune s = Some (w, u)" and x: "unquote u = Some (x, r)" and v: "v = w @ x"
      using "1.prems" s by (subst (asm) unquote.simps) (auto split: option.splits)
    note ua = string_rune_append [OF u] unquote_has_mark [OF x]
    show ?thesis using s v False ua "1.IH" [OF s False u refl x] by (subst unquote.simps) simp
  qed
qed

text \<open>
  A number goes on as long as it can: with something left that ends it, or before a character that cannot
  continue it, it does not depend on what follows.
\<close>

definition ends_number :: "string \<Rightarrow> bool" where
  "ends_number t \<longleftrightarrow> (case t of [] \<Rightarrow> False | c # u \<Rightarrow> \<not> is_digit_char c \<and> c \<notin> {CHR ''.'', CHR ''e'', CHR ''E''})"

lemma span_digits_end: "span_digits s = (ds, r) \<Longrightarrow> r \<noteq> [] \<or> ends_number t \<Longrightarrow> span_digits (s @ t) = (ds, r @ t)"
  by (induction s arbitrary: ds) (auto simp: span_digits_def ends_number_def split: if_splits list.splits)

lemma some_digits_end:
  "some_digits p s = Some (ds, r) \<Longrightarrow> r \<noteq> [] \<or> ends_number t \<Longrightarrow> some_digits p (s @ t) = Some (ds, r @ t)"
  using span_digits_end [of s _ r t] by (auto simp: some_digits_def split: prod.splits if_splits)

lemma some_digits_end_Cons:
  "some_digits p (c # s) = Some (ds, r) \<Longrightarrow> r \<noteq> [] \<or> ends_number t \<Longrightarrow> some_digits p (c # s @ t) = Some (ds, r @ t)"
  using some_digits_end [of p "c # s"] by simp

lemma scan_number_end:
  assumes "scan_number s = Some (n, r)" and "r \<noteq> [] \<or> ends_number t"
  shows "scan_number (s @ t) = Some (n, r @ t)"
proof -
  obtain sg s1 where s1: "scan_sign s = (sg, s1)" by fastforce
  obtain ip s2 where s2: "scan_int_part s1 = Some (ip, s2)"
    using assms s1 by (auto simp: scan_number_def bind_eq_Some_conv)
  obtain fr s3 where s3: "scan_fraction s2 = Some (fr, s3)"
    using assms s1 s2 by (auto simp: scan_number_def bind_eq_Some_conv)
  obtain ex where s4: "scan_exponent s3 = Some (ex, r)"
    using assms s1 s2 s3 by (auto simp: scan_number_def bind_eq_Some_conv)
  have n3: "s3 \<noteq> [] \<or> ends_number t" using s4 assms(2) by (auto simp: scan_exponent_def)
  have n2: "s2 \<noteq> [] \<or> ends_number t" using s3 n3 by (auto simp: scan_fraction_def)
  have n1: "s1 \<noteq> []" using s2 by (auto simp: scan_int_part_def)
  have "scan_sign (s @ t) = (sg, s1 @ t)" using s1 n1 by (auto simp: scan_sign_def split: list.splits if_splits)
  moreover have "scan_int_part (s1 @ t) = Some (ip, s2 @ t)"
    using s2 n1 n2 span_digits_end [of s1 ip s2 t]
    by (auto simp: scan_int_part_def split: list.splits if_splits)
  moreover have "scan_fraction (s2 @ t) = Some (fr, s3 @ t)"
  proof (cases "s2 = []")
    case True
    then show ?thesis using s3 n2 by (auto simp: scan_fraction_def ends_number_def split: list.splits)
  qed (use s3 n3 in \<open>auto simp: scan_fraction_def dest: some_digits_end split: list.splits if_splits\<close>)
  moreover have "scan_exponent (s3 @ t) = Some (ex, r @ t)"
  proof (cases "s3 = []")
    case True
    then show ?thesis using s4 n3 by (auto simp: scan_exponent_def ends_number_def split: list.splits)
  qed (use s4 assms(2) in \<open>auto simp: scan_exponent_def dest: some_digits_end some_digits_end_Cons split: list.splits if_splits\<close>)
  ultimately show ?thesis using assms s1 s2 s3 s4 by (auto simp: scan_number_def)
qed

lemma has_prefix_append: "has_prefix s p \<Longrightarrow> has_prefix (s @ t) p"
  by (auto simp: has_prefix_iff)

definition open_ended :: "json \<Rightarrow> bool" where
  "open_ended j \<longleftrightarrow> (\<exists>x. j = JNum x)"

lemma word_value_append:
  assumes "word_value s = Some (j, r)" and "r \<noteq> [] \<or> ends_number t \<or> \<not> open_ended j"
  shows "word_value (s @ t) = Some (j, r @ t)"
proof -
  have no: "scan_number s = None" if "has_prefix (s @ t) p" "p \<noteq> []" "hd p \<in> {CHR ''n'', CHR ''t'', CHR ''f''}" "s \<noteq> []" for p
  proof -
    have "hd s = hd p" using that by (cases s; cases p) (auto simp: has_prefix_iff)
    then have "hd s \<in> {CHR ''n'', CHR ''t'', CHR ''f''}" using that(3) by simp
    then have "scan_sign s = ([], s)" "scan_int_part s = None"
      using that(4) by (cases s; auto simp: scan_sign_def scan_int_part_def is_digit_char_def)+
    then show ?thesis by (simp add: scan_number_def)
  qed
  have ne: "s \<noteq> []" using word_value_shorter [OF assms(1)] by auto
  consider (w) "has_prefix s ''null'' \<or> has_prefix s ''true'' \<or> has_prefix s ''false''"
    | n where "\<not> has_prefix s ''null''" "\<not> has_prefix s ''true''" "\<not> has_prefix s ''false''"
      "scan_number s = Some (n, r)" "j = JNum (literal n)"
    using assms(1) by (auto simp: word_value_def split: if_splits)
  then show ?thesis
  proof cases
    case w
    then show ?thesis using assms(1) by (auto simp: word_value_def has_prefix_iff)
  next
    case 2
    then have "\<not> has_prefix (s @ t) ''null''" "\<not> has_prefix (s @ t) ''true''" "\<not> has_prefix (s @ t) ''false''"
      using no [of "''null''"] no [of "''true''"] no [of "''false''"] ne by auto
    then show ?thesis
      using 2 assms(2) scan_number_end [of s n r t] by (auto simp: word_value_def open_ended_def)
  qed
qed

lemma next_is_append: "next_is e s = Some t \<Longrightarrow> next_is e (s @ x) = Some (t @ x)"
  by (cases "token s") (auto simp: next_is_def token_append split: if_splits)

lemma member_name_append: "member_name s = Some (k, r) \<Longrightarrow> member_name (s @ t) = Some (k, r @ t)"
proof -
  assume "member_name s = Some (k, r)"
  then obtain u v where u: "next_is quote_mark s = Some u" "unquote u = Some (k, v)" "next_is (CHR '':'') v = Some r"
    by (auto simp: member_name_def bind_eq_Some_conv)
  show ?thesis
    unfolding member_name_def next_is_append [OF u(1)] by (simp add: unquote_append [OF u(2)] next_is_append [OF u(3)])
qed

lemma atom_value_append:
  "atom_value c s = Some (j, r) \<Longrightarrow> r \<noteq> [] \<or> ends_number t \<or> \<not> open_ended j \<Longrightarrow> atom_value c (s @ t) = Some (j, r @ t)"
  using word_value_append [of "c # s" j r t]
  by (auto simp: atom_value_def open_ended_def dest: unquote_append split: if_splits)

lemma token_not_Nil: "token r = Some x \<Longrightarrow> r \<noteq> []"
  by (auto simp: token_def)

lemma parse_append:
  "pval n s = Some (j, r) \<Longrightarrow> r \<noteq> [] \<or> ends_number t \<or> \<not> open_ended j \<Longrightarrow> pval n (s @ t) = Some (j, r @ t)"
  "pelems n s = Some (js, r) \<Longrightarrow> pelems n (s @ t) = Some (js, r @ t)"
  "pmembers n s = Some (kvs, r) \<Longrightarrow> pmembers n (s @ t) = Some (kvs, r @ t)"
proof (induction n s and n s and n s arbitrary: j r and js r and kvs r rule: pval_pelems_pmembers.induct)
  case (2 n s)
  from "2.prems" obtain c u where cu: "token s = Some (c, u)" by (auto simp: bind_eq_Some_conv)
  note ct = token_append [OF cu, of t] and IH = "2.IH" [OF cu refl]
  have none: "next_is e (u @ t) = None" if "next_is e u = None" "u \<noteq> []" "token u \<noteq> None" for e
    using that token_append [of u _ _ t] by (auto simp: next_is_def split: option.splits if_splits)
  have tok: "token u \<noteq> None" if "pmembers n u = Some y" for y
    using that by (cases n) (auto simp: bind_eq_Some_conv member_name_def next_is_def split: option.splits)
  have tok': "token u \<noteq> None" if "pval n' u = Some y" for n' y
    using that by (cases n') (auto simp: bind_eq_Some_conv)
  have tok'': "token u \<noteq> None" if "pelems n u = Some y" for y
    using that tok' by (cases n) (auto simp: bind_eq_Some_conv)
  consider "c = CHR ''{''" "next_is (CHR ''}'') u = None" | "c = CHR ''[''" "next_is (CHR '']'') u = None"
    | "c = CHR ''{''" "next_is (CHR ''}'') u \<noteq> None" | "c = CHR ''[''" "next_is (CHR '']'') u \<noteq> None"
    | "c \<noteq> CHR ''{''" "c \<noteq> CHR ''[''" by blast
  then show ?case
  proof cases
    case 1
    then obtain kvs where kvs: "pmembers n u = Some (kvs, r)" "j = JObj kvs"
      using "2.prems" cu by auto
    have "next_is (CHR ''}'') (u @ t) = None" using none [OF 1(2)] tok [OF kvs(1)] token_not_Nil [of u] by auto
    then show ?thesis using 1 ct IH(1) [OF 1 kvs(1)] kvs by simp
  next
    case 2
    then obtain js where js: "pelems n u = Some (js, r)" "j = JArr js"
      using "2.prems" cu by auto
    have "next_is (CHR '']'') (u @ t) = None" using none [OF 2(2)] tok'' [OF js(1)] token_not_Nil [of u] by auto
    then show ?thesis using 2 ct IH(2) [OF _ 2 js(1)] js by simp
  next
    case 3
    then show ?thesis using "2.prems" cu ct next_is_append [of _ u r t] by auto
  next
    case 4
    then show ?thesis using "2.prems" cu ct next_is_append [of _ u r t] by auto
  next
    case 5
    then show ?thesis using "2.prems" cu ct atom_value_append [of c u j r t] by simp
  qed
next
  case (4 n s)
  from "4.prems" obtain j' s' where v: "pval n s = Some (j', s')" by (auto simp: bind_eq_Some_conv)
  with "4.prems" obtain c u where ct: "token s' = Some (c, u)" by (auto simp: bind_eq_Some_conv)
  have "pval n (s @ t) = Some (j', s' @ t)" using "4.IH"(1) [OF v] token_not_Nil [OF ct] by simp
  then show ?case
    using "4.prems" v ct token_append [OF ct, of t] "4.IH"(2) [OF v refl ct refl] by (auto split: if_splits)
next
  case (6 n s)
  from "6.prems" obtain k u where k: "member_name s = Some (k, u)" by (auto simp: bind_eq_Some_conv)
  with "6.prems" obtain v w where v: "pval n u = Some (v, w)" by (auto simp: bind_eq_Some_conv)
  with "6.prems" k obtain e x where ex: "token w = Some (e, x)" by (auto simp: bind_eq_Some_conv)
  have "pval n (u @ t) = Some (v, w @ t)" using "6.IH"(1) [OF k refl v] token_not_Nil [OF ex] by simp
  then show ?case
    using "6.prems" k v ex member_name_append [OF k, of t] token_append [OF ex, of t] "6.IH"(2) [OF k refl v refl ex refl]
    by (auto split: if_splits)
qed auto

end
