(* ===== verification/Go_Json_Print.thy ===== *)
theory Go_Json_Print
  imports Go_Json Ingest_Helpers
begin

text \<open>
  The round trip of \<open>encoding/json\<close>: the text \<open>Marshal\<close> writes for a value whose strings are UTF-8 and whose
  numbers are JSON numbers parses back to the value, with blanks around it, and no proper prefix of the text of
  a string, list or object is a JSON text. Printed integers and printed amounts are read back as the numbers they stand for.
\<close>

section \<open>A printed value parses back\<close>

text \<open>Strings of complete runes, and values whose strings and number literals are well formed.\<close>

function valid_utf8 :: "string \<Rightarrow> bool" where
  "valid_utf8 s \<longleftrightarrow>
     (if s = [] then True else (1 < rune_len s \<or> byte_val (hd s) < 0x80) \<and> valid_utf8 (drop (rune_len s) s))"
  by pat_completeness auto
termination
  by (relation "measure length") (auto simp: rune_len_pos)

declare valid_utf8.simps [simp del]

fun json_ok :: "json \<Rightarrow> bool" where
  "json_ok (JNum x) = is_number x"
| "json_ok (JStr s) = valid_utf8 s"
| "json_ok (JArr js) = (\<forall>j \<in> set js. json_ok j)"
| "json_ok (JObj kvs) = (\<forall>kv \<in> set kvs. valid_utf8 (fst kv) \<and> json_ok (snd kv))"
| "json_ok _ = True"

lemma unhex4_hex4: "n < 65536 \<Longrightarrow> unhex4 (hex4 n @ t) = Some (n, t)"
proof -
  assume n: "n < 65536"
  have "n div 4096 mod 16 * 4096 + n div 256 mod 16 * 256 + n div 16 mod 16 * 16 + n mod 16 = n"
  proof -
    have a: "n div 16 div 16 = n div 256" "n div 256 div 16 = n div 4096" by (simp_all flip: div_mult2_eq)
    have "n div 4096 mod 16 = n div 4096" using n by (simp add: less_mult_imp_div_less)
    moreover have "n div 256 = n div 4096 * 16 + n div 256 mod 16" using a div_mult_mod_eq [of "n div 256" 16] by simp
    moreover have "n div 16 = n div 256 * 16 + n div 16 mod 16" using a div_mult_mod_eq [of "n div 16" 16] by simp
    moreover have "n = n div 16 * 16 + n mod 16" by simp
    ultimately show ?thesis by linarith
  qed
  moreover have "hex_val (hex_digit (x mod 16)) = Some (x mod 16)" for x by (simp add: hex_val_digit)
  ultimately show ?thesis by (simp only: hex4_def append_Cons append_Nil unhex4.simps prod.case option.case)
qed

lemma rune_len_ascii: "byte_val c < 0x80 \<Longrightarrow> rune_len (c # s) = 1"
  by (simp add: rune_len_def byte_in_def byte_val_def Let_def)

lemma quote_char_read:
  assumes "byte_val c < 0x80"
  shows "string_rune (quote_char c @ t) = Some ([c], t) \<and> hd (quote_char c @ t) \<noteq> quote_mark \<and> quote_char c \<noteq> []"
proof -
  have bq: "backslash \<noteq> quote_mark" by (simp add: backslash_def quote_mark_def)
  consider (plain) "plain_char c" | (simple) d where "quote_char c = [backslash, d]" "map_of simple_escapes d = Some c" "d \<noteq> CHR ''u''"
    | (hex) "\<not> plain_char c" "quote_char c = [backslash, CHR ''u''] @ hex4 (byte_val c)"
  proof (cases "plain_char c \<or> c \<notin> {quote_mark, backslash, CHR 0x08, CHR 0x0C, CHR 0x0A, CHR 0x0D, CHR 0x09}")
    case True
    then show thesis using plain hex by (cases "plain_char c") (simp_all add: quote_char_def)
  next
    case False
    then show thesis using simple unfolding quote_char_def simple_escapes_def quote_mark_def backslash_def
      by auto
  qed
  then show ?thesis
  proof cases
    case plain
    then show ?thesis using rune_len_ascii [OF assms, of t]
      by (auto simp: quote_char_def string_rune_def plain_char_def)
  next
    case simple
    then show ?thesis using bq by (simp add: string_rune_def unescape_def)
  next
    case hex
    have "\<not> is_surrogate (byte_val c)" "utf8 (byte_val c) = [c]" using assms by (simp_all add: is_surrogate_def utf8_def byte_val_def)
    then show ?thesis using hex bq unhex4_hex4 [of "byte_val c" t] assms
      by (simp add: string_rune_def unescape_def unescape_u_def)
  qed
qed

lemma quote_rune_read:
  assumes "s \<noteq> []" and "1 < rune_len s \<or> byte_val (hd s) < 0x80"
  defines "r \<equiv> take (rune_len s) s"
  shows "string_rune (quote_rune r @ t) = Some (r, t) \<and> hd (quote_rune r @ t) \<noteq> quote_mark \<and> quote_rune r \<noteq> []"
proof (cases "1 < rune_len s")
  case True
  note bytes = rune_bytes [OF refl True]
  have le: "rune_len s \<le> length s" using bytes [of "rune_len s - 1"] True by linarith
  then have lr: "length r = rune_len s" by (simp add: r_def)
  have bq: "backslash \<noteq> quote_mark" "byte_val backslash < 0x80" "byte_val quote_mark < 0x80"
    by (simp_all add: backslash_def quote_mark_def byte_val_def)
  have sep: "utf8 0x2028 = [CHR 0xE2, CHR 0x80, CHR 0xA8]" "utf8 0x2029 = [CHR 0xE2, CHR 0x80, CHR 0xA9]"
    by (simp_all add: utf8_def char_of_eq_iff take_bit_eq_mod)
  show ?thesis
  proof (cases "r = [CHR 0xE2, CHR 0x80, CHR 0xA8] \<or> r = [CHR 0xE2, CHR 0x80, CHR 0xA9]")
    case True
    then show ?thesis
      using bq sep unhex4_hex4 [of "0x2028" t] unhex4_hex4 [of "0x2029" t]
      by (auto simp: quote_rune_def string_rune_def unescape_def unescape_u_def is_surrogate_def)
  next
    case False
    then have q: "quote_rune r = r" using lr True by (simp add: quote_rune_def)
    have ri: "(r @ t) ! i = s ! i" if "i < rune_len s" for i
      using that lr by (simp add: nth_append) (simp add: r_def)
    have n: "rune_len (r @ t) = rune_len s"
      by (rule rune_len_local [OF refl True]) (use ri lr in \<open>simp add: trans_less_add1\<close>)
    obtain c r' where c: "r = c # r'" using lr True by (cases r) auto
    have "0x80 \<le> byte_val c" using bytes [of 0] ri [of 0] True c by simp
    then have "c \<noteq> backslash" "c \<noteq> quote_mark" "\<not> byte_val c < 0x20" using bq by auto
    moreover have "take (rune_len s) (r @ t) = r" "drop (rune_len s) (r @ t) = t" using lr by simp_all
    ultimately show ?thesis
      using q n True unfolding c by (simp add: string_rune_def)
  qed
next
  case False
  then have one: "rune_len s = 1" using rune_len_pos [of s] by linarith
  obtain c s' where "s = c # s'" using assms(1) by (cases s) auto
  then show ?thesis using quote_char_read [of c t] assms one by (auto simp: quote_rune_def)
qed

lemma unquote_quote: "valid_utf8 s \<Longrightarrow> unquote (quote_body s @ quote_mark # t) = Some (s, t)"
proof (induction s rule: quote_body.induct)
  case (1 s)
  show ?case
  proof (cases "s = []")
    case True
    then show ?thesis by (simp add: quote_body.simps unquote.simps)
  next
    case False
    let ?r = "take (rune_len s) s" and ?s = "drop (rune_len s) s"
    have v: "1 < rune_len s \<or> byte_val (hd s) < 0x80" "valid_utf8 ?s"
      using "1.prems" False by (auto simp: valid_utf8.simps [of s])
    note q = quote_rune_read [OF False v(1), of "quote_body ?s @ quote_mark # t"]
    have eq: "quote_body s @ quote_mark # t = quote_rune ?r @ (quote_body ?s @ quote_mark # t)"
      using False by (subst quote_body.simps) simp
    obtain c u where u: "quote_rune ?r @ (quote_body ?s @ quote_mark # t) = c # u" "c \<noteq> quote_mark"
      using q by (cases "quote_rune ?r") auto
    have "unquote (c # u) = Some (s, t)"
      using q u "1.IH" [OF False v(2)] by (subst unquote.simps) simp
    then show ?thesis using eq u by simp
  qed
qed

lemma scan_literal: "scan_number s = Some (n, r) \<Longrightarrow> s = literal n @ r \<and> literal n \<noteq> [] \<and> (hd s = CHR ''-'' \<or> is_digit_char (hd s))"
proof -
  assume a: "scan_number s = Some (n, r)"
  have sd: "u = ds @ t" if "span_digits u = (ds, t)" for u ds t
    using that by (auto simp: span_digits_def)
  have some: "p @ u = ds @ t" if "some_digits p u = Some (ds, t)" for p u ds t
    using that sd by (fastforce simp: some_digits_def split: prod.splits if_splits)
  obtain sg s1 where s1: "scan_sign s = (sg, s1)" by fastforce
  obtain ip s2 where s2: "scan_int_part s1 = Some (ip, s2)"
    using a s1 by (auto simp: scan_number_def bind_eq_Some_conv)
  obtain fr s3 where s3: "scan_fraction s2 = Some (fr, s3)"
    using a s1 s2 by (auto simp: scan_number_def bind_eq_Some_conv)
  obtain ex where s4: "scan_exponent s3 = Some (ex, r)"
    using a s1 s2 s3 by (auto simp: scan_number_def bind_eq_Some_conv)
  have "s = sg @ s1" using s1 by (auto simp: scan_sign_def split: list.splits if_splits)
  moreover have i: "s1 = ip @ s2 \<and> ip \<noteq> [] \<and> is_digit_char (hd s1)"
    using s2 sd by (fastforce simp: scan_int_part_def span_digits_def is_digit_char_def split: list.splits if_splits)
  moreover have "s2 = fr @ s3" using s3 some by (fastforce simp: scan_fraction_def split: list.splits if_splits)
  moreover have "s3 = ex @ r" using s4 some by (fastforce simp: scan_exponent_def split: list.splits if_splits)
  moreover have "sg = [] \<or> sg = ''-''" using s1 by (auto simp: scan_sign_def split: list.splits if_splits)
  moreover have "n = \<lparr>n_sign = sg, n_int = ip, n_fraction = fr, n_exponent = ex\<rparr>"
    using a s1 s2 s3 s4 by (auto simp: scan_number_def)
  ultimately show ?thesis by (auto simp: literal_def)
qed

lemma is_number_read: "is_number x \<Longrightarrow> ends_number t \<Longrightarrow> atom_value (hd (x @ t)) (tl (x @ t)) = Some (JNum x, t)"
proof -
  assume x: "is_number x" and t: "ends_number t"
  then obtain n where n: "scan_number x = Some (n, [])" by (auto simp: is_number_iff)
  note lit = scan_literal [OF n]
  then have eq: "hd (x @ t) # tl (x @ t) = x @ t" and h: "hd (x @ t) = hd x" by auto
  have "hd x \<noteq> quote_mark" using lit by (auto simp: is_digit_char_def quote_mark_def)
  moreover have "\<not> has_prefix (x @ t) p" if "p \<in> {''null'', ''true'', ''false''}" for p
  proof
    assume "has_prefix (x @ t) p"
    then have "hd (x @ t) = hd p" using that by (auto simp: has_prefix_iff)
    then show False using lit h that by (auto simp: is_digit_char_def)
  qed
  ultimately have nq: "hd (x @ t) \<noteq> quote_mark"
    and w: "word_value (x @ t) = map_option (\<lambda>(n, r). (JNum (literal n), r)) (scan_number (x @ t))"
    using h by (simp_all add: word_value_def)
  have "atom_value (hd (x @ t)) (tl (x @ t)) = word_value (x @ t)"
    unfolding atom_value_def eq using nq by (simp only: if_False)
  then show ?thesis
    unfolding w using scan_number_end [OF n, of t] t lit by simp
qed

definition starts_value :: "string \<Rightarrow> bool" where
  "starts_value s \<longleftrightarrow> (\<exists>c t. s = c # t \<and> \<not> is_space c \<and> c \<notin> {CHR ''}'', CHR '']''})"

lemma print_starts: "json_ok j \<Longrightarrow> starts_value (print_json j)"
proof (cases j)
  case (JNum x)
  assume "json_ok j"
  then obtain n where "scan_number x = Some (n, [])" using JNum by (auto simp: is_number_iff)
  note lit = scan_literal [OF this]
  then have "x \<noteq> []" by auto
  then obtain c u where x: "x = c # u" by (cases x) simp_all
  have "hd x = c" by (simp add: x)
  then have "c = CHR ''-'' \<or> is_digit_char c" using lit by blast
  then show ?thesis using JNum x by (auto simp: starts_value_def is_digit_char_def is_space_def)
qed (auto simp: starts_value_def is_space_def quote_def quote_mark_def)

lemma starts_token: "starts_value s \<Longrightarrow> token (s @ t) = Some (hd s, tl s @ t)"
  by (auto simp: starts_value_def)

lemma starts_next_is: "starts_value s \<Longrightarrow> c \<in> {CHR ''}'', CHR '']''} \<Longrightarrow> next_is c (s @ t) = None"
  by (auto simp: starts_value_def next_is_def)

lemma ends_number_marks [simp]: "ends_number (CHR '','' # t)" "ends_number (CHR '']'' # t)" "ends_number (CHR ''}'' # t)"
  by (simp_all add: ends_number_def is_digit_char_def)

lemma not_space_marks [simp]: "\<not> is_space (CHR '','')" "\<not> is_space (CHR '']'')" "\<not> is_space (CHR ''}'')"
    "\<not> is_space (CHR '':'')" "\<not> is_space (CHR ''['')" "\<not> is_space (CHR ''{'')" "\<not> is_space quote_mark"
  by (simp_all add: is_space_def quote_mark_def)

text \<open>What the parser must do for one value, whatever comes after it.\<close>

definition parses_back :: "json \<Rightarrow> bool" where
  "parses_back j \<longleftrightarrow>
     (\<forall>n t. (open_ended j \<longrightarrow> ends_number t) \<and> 2 * length (print_json j @ t) + 1 \<le> n \<longrightarrow>
        pval n (print_json j @ t) = Some (j, t))"

lemma elems_parse_back:
  assumes "js \<noteq> []" and "\<forall>j \<in> set js. parses_back j \<and> json_ok j"
    and "2 * length (join_commas (map print_json js) @ CHR '']'' # t) + 2 \<le> n"
  shows "pelems n (join_commas (map print_json js) @ CHR '']'' # t) = Some (js, t)"
  using assms
proof (induction js arbitrary: n)
  case (Cons j js)
  obtain m where n: "n = Suc m" using Cons.prems(3) by (cases n) auto
  have again: "pval m (print_json j @ u) = Some (j, u)" if "ends_number u" "2 * length (print_json j @ u) + 1 \<le> m" for u
    using Cons.prems(2) that by (auto simp: parses_back_def)
  show ?case
  proof (cases js)
    case Nil
    then show ?thesis using again [of "CHR '']'' # t"] Cons.prems(3) n by (simp del: pval.simps)
  next
    case (Cons k ks)
    let ?rest = "join_commas (map print_json js) @ CHR '']'' # t"
    have eq: "join_commas (map print_json (j # js)) @ CHR '']'' # t = print_json j @ CHR '','' # ?rest"
      using Cons by simp
    have fuel: "2 * length (print_json j @ CHR '','' # ?rest) + 1 \<le> m" "2 * length ?rest + 2 \<le> m"
      using Cons.prems(3) n Cons by simp_all
    have "pelems m ?rest = Some (js, t)"
      using Cons.IH [of m] Cons.prems(2) fuel(2) Cons by simp
    then show ?thesis
      unfolding eq n using again [of "CHR '','' # ?rest"] fuel(1) by (simp del: pval.simps pelems.simps add: pelems.simps(2))
  qed
qed simp

lemma member_name_quote: "valid_utf8 k \<Longrightarrow> member_name (quote k @ CHR '':'' # t) = Some (k, t)"
  by (simp add: member_name_def next_is_def quote_def unquote_quote)

lemma members_parse_back:
  assumes "kvs \<noteq> []" and "\<forall>kv \<in> set kvs. valid_utf8 (fst kv) \<and> parses_back (snd kv) \<and> json_ok (snd kv)"
    and "2 * length (join_commas (map (\<lambda>(k, v). quote k @ CHR '':'' # print_json v) kvs) @ CHR ''}'' # t) + 2 \<le> n"
  shows "pmembers n (join_commas (map (\<lambda>(k, v). quote k @ CHR '':'' # print_json v) kvs) @ CHR ''}'' # t) = Some (kvs, t)"
  using assms
proof (induction kvs arbitrary: n)
  case (Cons kv kvs)
  obtain k v where kv [simp]: "kv = (k, v)" by (cases kv) auto
  obtain m where n: "n = Suc m" using Cons.prems(3) by (cases n) auto
  have again: "pval m (print_json v @ u) = Some (v, u)" if "ends_number u" "2 * length (print_json v @ u) + 1 \<le> m" for u
    using Cons.prems(2) that kv by (auto simp: parses_back_def)
  have k: "member_name (quote k @ CHR '':'' # u) = Some (k, u)" for u
    using Cons.prems(2) kv by (simp add: member_name_quote)
  let ?p = "\<lambda>(k, v). quote k @ CHR '':'' # print_json v"
  show ?case
  proof (cases kvs)
    case Nil
    then show ?thesis using k again [of "CHR ''}'' # t"] Cons.prems(3) n kv by (simp del: pval.simps)
  next
    case (Cons x xs)
    let ?rest = "join_commas (map ?p kvs) @ CHR ''}'' # t"
    have eq: "join_commas (map ?p (kv # kvs)) @ CHR ''}'' # t = quote k @ CHR '':'' # print_json v @ CHR '','' # ?rest"
      using Cons kv by simp
    have len: "2 * length (quote k @ CHR '':'' # print_json v @ CHR '','' # ?rest) + 2 \<le> n"
      using Cons.prems(3) unfolding eq .
    have "pmembers m ?rest = Some (kvs, t)"
      using Cons.IH [of m] Cons.prems(2) len n Cons by simp
    moreover have "pval m (print_json v @ CHR '','' # ?rest) = Some (v, CHR '','' # ?rest)"
      using again [of "CHR '','' # ?rest"] len n by simp
    ultimately show ?thesis
      unfolding eq n using k kv by (simp del: pval.simps pmembers.simps add: pmembers.simps(2))
  qed
qed simp

lemma length_print_pos: "json_ok j \<Longrightarrow> print_json j \<noteq> []"
  using print_starts [of j] by (auto simp: starts_value_def)

lemma next_is_quote: "next_is (CHR ''}'') (quote k @ t) = None"
proof -
  have "quote_mark \<noteq> CHR ''}''" by (simp add: quote_mark_def)
  then show ?thesis by (simp add: quote_def next_is_def)
qed

lemma json_parses_back: "json_ok j \<Longrightarrow> parses_back j"
proof (induction j)
  case (JNum x)
  have "pval n (x @ t) = Some (JNum x, t)" if t: "ends_number t" and n: "2 * length (x @ t) + 1 \<le> n" for n t
  proof -
    obtain m where m: "n = Suc m" using n by (cases n) auto
    have "starts_value x" using print_starts [OF JNum] by simp
    then obtain c u where x: "x = c # u" "\<not> is_space c" by (auto simp: starts_value_def)
    have "atom_value c (u @ t) = Some (JNum x, t)" using is_number_read [of x t] JNum t x by simp
    moreover have "c \<noteq> CHR ''{''" "c \<noteq> CHR ''[''"
    proof -
      obtain k where "scan_number x = Some (k, [])" using JNum by (auto simp: is_number_iff)
      from scan_literal [OF this] have "c = CHR ''-'' \<or> is_digit_char c" using x by auto
      then show "c \<noteq> CHR ''{''" "c \<noteq> CHR ''[''" by (auto simp: is_digit_char_def)
    qed
    ultimately show ?thesis unfolding m using x by simp
  qed
  then show ?case by (simp add: parses_back_def open_ended_def del: pval.simps)
next
  case (JStr s)
  have "pval n (quote s @ t) = Some (JStr s, t)" if n: "2 * length (quote s @ t) + 1 \<le> n" for n t
  proof -
    obtain m where m: "n = Suc m" using n by (cases n) auto
    show ?thesis unfolding m using JStr unquote_quote [of s t]
      by (simp add: quote_def atom_value_def) (simp add: quote_mark_def)
  qed
  then show ?case by (simp add: parses_back_def del: pval.simps)
next
  case (JArr js)
  have "pval n (print_json (JArr js) @ t) = Some (JArr js, t)" if n: "2 * length (print_json (JArr js) @ t) + 1 \<le> n" for n t
  proof -
    obtain m where m: "n = Suc m" using n by (cases n) auto
    show ?thesis
    proof (cases "js = []")
      case True
      then show ?thesis unfolding m by (simp add: next_is_def)
    next
      case False
      let ?rest = "join_commas (map print_json js) @ CHR '']'' # t"
      have "pelems m ?rest = Some (js, t)"
        by (rule elems_parse_back [OF False]) (use JArr n m in auto)
      moreover have "next_is (CHR '']'') ?rest = None"
      proof -
        obtain k ks where js: "js = k # ks" using False by (cases js) auto
        then have "starts_value (print_json k)" using JArr.prems print_starts by simp
        then show ?thesis using js starts_next_is [of "print_json k" "CHR '']''"] by (cases ks) auto
      qed
      ultimately show ?thesis unfolding m by (simp del: pelems.simps)
    qed
  qed
  then show ?case by (simp add: parses_back_def open_ended_def del: pval.simps print_json.simps)
next
  case (JObj kvs)
  let ?p = "\<lambda>(k, v). quote k @ CHR '':'' # print_json v"
  have "pval n (print_json (JObj kvs) @ t) = Some (JObj kvs, t)" if n: "2 * length (print_json (JObj kvs) @ t) + 1 \<le> n" for n t
  proof -
    obtain m where m: "n = Suc m" using n by (cases n) auto
    show ?thesis
    proof (cases "kvs = []")
      case True
      then show ?thesis unfolding m by (simp add: next_is_def)
    next
      case False
      let ?rest = "join_commas (map ?p kvs) @ CHR ''}'' # t"
      have "\<forall>kv \<in> set kvs. parses_back (snd kv)"
        using JObj.IH JObj.prems by (metis json_ok.simps(4) snds.intros)
      then have "pmembers m ?rest = Some (kvs, t)"
        by (intro members_parse_back [OF False]) (use JObj.prems n m in auto)
      moreover have "next_is (CHR ''}'') ?rest = None"
      proof -
        obtain k v ks where "kvs = (k, v) # ks" using False by (cases kvs) auto
        then show ?thesis using next_is_quote by (cases ks) auto
      qed
      ultimately show ?thesis unfolding m by (simp del: pmembers.simps)
    qed
  qed
  then show ?case by (simp add: parses_back_def open_ended_def del: pval.simps print_json.simps)
next
  case (JBool b)
  have "pval n (print_json (JBool b) @ t) = Some (JBool b, t)" if "0 < n" for n t
    using that by (cases n) (auto simp: atom_value_def quote_mark_def word_value_def has_prefix_def is_space_def)
  then show ?case by (simp add: parses_back_def del: pval.simps print_json.simps)
next
  case JNull
  have "pval n (print_json JNull @ t) = Some (JNull, t)" if "0 < n" for n t
    using that by (cases n) (auto simp: atom_value_def quote_mark_def word_value_def has_prefix_def is_space_def)
  then show ?case by (simp add: parses_back_def del: pval.simps print_json.simps)
qed

text \<open>The text of a value, with blanks around it, reads back as the value.\<close>

lemma parse_print:
  assumes "json_ok j" and "\<not> open_ended j" and "list_all is_space b"
  shows "parse_json (print_json j @ b) = Inr j"
proof -
  have "pval (2 * length (print_json j @ b) + 1) (print_json j @ b) = Some (j, b)"
    using json_parses_back [OF assms(1)] assms(2) by (simp add: parses_back_def del: pval.simps)
  moreover have "\<not> list_all is_space (print_json j @ b)"
    using print_starts [OF assms(1)] by (auto simp: starts_value_def)
  ultimately show ?thesis using assms(3) by (simp add: parse_json_def del: pval.simps)
qed

text \<open>A proper prefix of the text of a string, list or object is not a JSON text.\<close>

lemma print_no_number:
  assumes "json_ok j" and "\<not> open_ended j"
  shows "\<exists>c s. print_json j = c # s \<and> c \<noteq> CHR ''-'' \<and> \<not> is_digit_char c \<and> \<not> is_space c"
  using assms by (cases j) (auto simp: open_ended_def is_digit_char_def quote_def quote_mark_def is_space_def)

lemma number_starts:
  assumes "pval n s = Some (JNum x, r)"
  shows "\<exists>c t. token s = Some (c, t) \<and> (c = CHR ''-'' \<or> is_digit_char c)"
proof -
  obtain m where "n = Suc m" using assms by (cases n) auto
  then obtain c t where t: "token s = Some (c, t)" "atom_value c t = Some (JNum x, r)"
    using assms by (auto simp: bind_eq_Some_conv split: if_splits option.splits)
  then obtain k where "scan_number (c # t) = Some (k, r)"
    by (auto simp: atom_value_def word_value_def split: if_splits)
  from scan_literal [OF this] show ?thesis using t by auto
qed

lemma parse_prefix_fails:
  assumes "json_ok j" and "\<not> open_ended j" and "p @ u = print_json j" and "u \<noteq> []"
  shows "\<exists>e. parse_json p = Inl e"
proof (rule ccontr)
  assume "\<not> ?thesis"
  then obtain j' where "parse_json p = Inr j'" by (cases "parse_json p") auto
  then obtain r where r: "pval (2 * length p + 1) p = Some (j', r)" "list_all is_space r"
    by (auto simp: parse_json_def split: if_splits option.splits simp del: pval.simps)
  have whole: "pval n (p @ u) = Some (j, [])" if "2 * length (p @ u) + 1 \<le> n" for n
  proof -
    have "pval m (print_json j @ []) = Some (j, [])" if "2 * length (print_json j @ []) + 1 \<le> m" for m
      using json_parses_back [OF assms(1)] assms(2) that unfolding parses_back_def by blast
    then show ?thesis using that assms(3) by simp
  qed
  have "pval n p = Some (j', r)" if "2 * length p + 1 \<le> n" for n using parse_fuel_enough [OF that] r(1) by simp
  then have p: "pval (2 * length (p @ u) + 1) p = Some (j', r)" by (simp del: pval.simps)
  show False
  proof (cases "open_ended j' \<and> r = []")
    case False
    then have "pval (2 * length (p @ u) + 1) (p @ u) = Some (j', r @ u)"
      using parse_append(1) [OF p, of u] by auto
    then show False using whole [of "2 * length (p @ u) + 1"] assms(4) by (simp del: pval.simps)
  next
    case True
    then obtain x where "j' = JNum x" by (auto simp: open_ended_def)
    then obtain c t where c: "token p = Some (c, t)" "c = CHR ''-'' \<or> is_digit_char c"
      using number_starts r(1) by blast
    obtain d s where d: "p @ u = d # s" "d \<noteq> CHR ''-''" "\<not> is_digit_char d" "\<not> is_space d"
      using print_no_number [OF assms(1,2)] assms(3) by auto
    have "token (p @ u) = Some (c, t @ u)" by (rule token_append [OF c(1)])
    then show False using c(2) d by simp
  qed
qed

section \<open>Numbers\<close>

lemma dec_digits_digits: "0 \<le> n \<Longrightarrow> list_all is_digit_char (dec_digits n)"
  using dec_digits_set [of n] by (auto simp: list_all_iff is_digit_char_def)

lemma dec_digits_hd: "0 < n \<Longrightarrow> hd (dec_digits n) \<noteq> CHR ''0''"
proof (induction n rule: dec_digits.induct)
  case (1 n)
  show ?case
  proof (cases "n < 10")
    case True
    then have "n \<in> {1, 2, 3, 4, 5, 6, 7, 8, 9}" using digit_cases [of n] "1.prems" by auto
    then show ?thesis by (auto simp: dec_digits.simps [of n] digit_char_def numeral_eq_Suc)
  next
    case False
    then show ?thesis using 1 by (simp add: dec_digits.simps [of n])
  qed
qed

lemma span_digits_all:
  "list_all is_digit_char ds \<Longrightarrow> t = [] \<or> \<not> is_digit_char (hd t) \<Longrightarrow> span_digits (ds @ t) = (ds, t)"
  by (cases t) (simp_all add: span_digits_def list_all_iff)

lemma scan_int_part_dec:
  assumes "0 \<le> n" and "t = [] \<or> \<not> is_digit_char (hd t)"
  shows "scan_int_part (dec_digits n @ t) = Some (dec_digits n, t)"
proof (cases "n = 0")
  case True
  then show ?thesis by (simp add: dec_digits.simps digit_char_def scan_int_part_def)
next
  case False
  obtain c u where c: "dec_digits n = c # u" by (cases "dec_digits n") auto
  have "c \<noteq> CHR ''0''" "is_digit_char c" using dec_digits_hd [of n] dec_digits_digits [of n] False assms(1) c by auto
  then show ?thesis using span_digits_all [OF dec_digits_digits [OF assms(1)] assms(2)] c
    by (simp add: scan_int_part_def)
qed

lemma scan_sign_digits: "list_all is_digit_char s \<Longrightarrow> s \<noteq> [] \<Longrightarrow> scan_sign (s @ t) = ([], s @ t)"
  by (cases s) (auto simp: scan_sign_def is_digit_char_def)

lemma is_number_itoa: "is_number (itoa n)"
proof -
  have "scan_number (dec_digits m) = Some (\<lparr>n_sign = [], n_int = dec_digits m, n_fraction = [], n_exponent = []\<rparr>, [])"
      "scan_number (CHR ''-'' # dec_digits m) = Some (\<lparr>n_sign = ''-'', n_int = dec_digits m, n_fraction = [], n_exponent = []\<rparr>, [])"
    if "0 \<le> m" for m
    using scan_int_part_dec [OF that, of "[]"] scan_sign_digits [OF dec_digits_digits [OF that], of "[]"]
    by (simp_all add: scan_number_def scan_fraction_def scan_exponent_def) (simp add: scan_sign_def)
  then show ?thesis by (cases "n < 0") (auto simp: itoa_def is_number_iff)
qed

lemma parse_digits_shift: "parse_digits a s = map_option (\<lambda>v. a * 10 ^ length s + v) (parse_digits 0 s)"
proof (induction s arbitrary: a)
  case (Cons c s)
  show ?case
  proof (cases "digit_val c")
    case (Some d)
    show ?thesis using Cons [of "10 * a + d"] Cons [of d] Some
      by (cases "parse_digits 0 s") (simp_all add: algebra_simps)
  qed simp
qed simp

lemma dec_digits_length: "0 \<le> n \<Longrightarrow> n < 10 ^ k \<Longrightarrow> 0 < k \<Longrightarrow> length (dec_digits n) \<le> k"
proof (induction n arbitrary: k rule: dec_digits.induct)
  case (1 n)
  show ?case
  proof (cases "n < 10")
    case True
    then show ?thesis using 1 by (simp add: dec_digits.simps [of n])
  next
    case False
    then obtain j where k: "k = Suc j" "0 < j" using "1.prems" by (cases k; cases "k - 1") auto
    then show ?thesis using "1.IH" [OF False, of j] "1.prems" False by (simp add: dec_digits.simps [of n])
  qed
qed

text \<open>A number of \<open>k\<close> digits with leading zeros.\<close>

lemma pad_zero_digits:
  assumes "0 \<le> n" and "n < 10 ^ k" and "0 < k"
  shows "list_all is_digit_char (pad_zero k n)" and "length (pad_zero k n) = k"
    and "parse_digits 0 (pad_zero k n) = Some n"
proof -
  have i: "itoa n = dec_digits n" using assms(1) by (simp add: itoa_def)
  show "list_all is_digit_char (pad_zero k n)"
    using dec_digits_digits [OF assms(1)] i by (auto simp: pad_zero_def is_digit_char_def Let_def list_all_iff)
  show "length (pad_zero k n) = k"
    using dec_digits_length [OF assms] i by (simp add: pad_zero_def Let_def)
  have "parse_digits 0 (replicate m (CHR ''0'') @ s) = parse_digits 0 s" for m s
    by (induction m) (simp_all add: digit_val_def)
  then show "parse_digits 0 (pad_zero k n) = Some n"
    using parse_digits_dec [OF assms(1)] i by (simp add: pad_zero_def Let_def)
qed

text \<open>An amount of base units as the node prints it, in coins with eight decimals.\<close>

definition coin_text :: "int \<Rightarrow> string" where
  "coin_text n = itoa (n div 10 ^ 8) @ ''.'' @ pad_zero 8 (n mod 10 ^ 8)"

lemma scan_coin_text:
  assumes "0 \<le> n"
  shows "scan_number (coin_text n) =
     Some (\<lparr>n_sign = [], n_int = dec_digits (n div 10 ^ 8), n_fraction = ''.'' @ pad_zero 8 (n mod 10 ^ 8), n_exponent = []\<rparr>, [])"
proof -
  let ?i = "n div 10 ^ 8" and ?f = "pad_zero 8 (n mod 10 ^ 8)"
  have i: "0 \<le> ?i" using assms by simp
  have f: "list_all is_digit_char ?f" "length ?f = 8" using pad_zero_digits [of "n mod 10 ^ 8" 8] by simp_all
  then have ne: "?f \<noteq> []" by auto
  have "scan_sign (coin_text n) = ([], coin_text n)"
    using scan_sign_digits [OF dec_digits_digits [OF i]] i by (simp add: coin_text_def itoa_def)
  moreover have "scan_int_part (coin_text n) = Some (dec_digits ?i, ''.'' @ ?f)"
    using scan_int_part_dec [OF i, of "''.'' @ ?f"] i by (simp add: coin_text_def itoa_def is_digit_char_def)
  moreover have "scan_fraction (''.'' @ ?f) = Some (''.'' @ ?f, [])"
    using span_digits_all [OF f(1), of "[]"] ne by (simp add: scan_fraction_def some_digits_def)
  ultimately show ?thesis by (simp add: scan_number_def scan_exponent_def)
qed

lemma coin_text_value:
  assumes "0 \<le> n"
  shows "number_value \<lparr>n_sign = [], n_int = dec_digits (n div 10 ^ 8), n_fraction = ''.'' @ pad_zero 8 (n mod 10 ^ 8), n_exponent = []\<rparr>
     = of_int n / 10 ^ 8"
proof -
  have p: "length (pad_zero 8 (n mod 10 ^ 8)) = 8" "parse_digits 0 (pad_zero 8 (n mod 10 ^ 8)) = Some (n mod 10 ^ 8)"
    using pad_zero_digits [of "n mod 10 ^ 8" 8] by simp_all
  have "parse_digits 0 (dec_digits (n div 10 ^ 8) @ pad_zero 8 (n mod 10 ^ 8)) = Some n"
    unfolding parse_digits_append
    using parse_digits_dec [of "n div 10 ^ 8"] assms p parse_digits_shift [of "n div 10 ^ 8" "pad_zero 8 (n mod 10 ^ 8)"]
    by simp
  then show ?thesis using p by (simp add: number_value_def digits_value_def exponent_value_def)
qed

lemma coin_text_number: "0 \<le> n \<Longrightarrow> is_number (coin_text n)"
  using scan_coin_text by (simp add: is_number_iff)

lemma fl_finite_in_range: "\<bar>round64 q\<bar> < pow2 1024 \<Longrightarrow> is_fin (fl s q)"
  by (simp add: fl_def is_fin_def Let_def)

text \<open>Reading the amount gives the binary64 number nearest to it.\<close>

lemma parse_float_coin:
  assumes "0 \<le> n" and "n < 2 ^ 51"
  shows "parse_float (coin_text n) = Some (lit (of_int n / 10 ^ 8))"
proof -
  have "is_fin (lit (of_int n / 10 ^ 8))"
  proof (cases "n = 0")
    case True
    then show ?thesis by (simp add: lit_def fl_def round64_0 is_fin_def)
  next
    case False
    have "\<bar>round64 (of_int n / 10 ^ 8)\<bar> < pow2 1024" by (rule coin_first_rounding) (use False assms in simp_all)
    then show ?thesis unfolding lit_def by (rule fl_finite_in_range)
  qed
  moreover obtain k where "scan_number (coin_text n) = Some (k, [])" "n_sign k = []" "number_value k = of_int n / 10 ^ 8"
    using scan_coin_text [OF assms(1)] coin_text_value [OF assms(1)] by fastforce
  ultimately show ?thesis by (simp only: parse_float_def option.case prod.case list.case Let_def lit_def if_True if_False) simp
qed

end
