(* ===== verification/Rpc_Decode.thy ===== *)
theory Rpc_Decode
  imports Go_Json_Print Rpc_Models
begin

text \<open>
  \<open>json.Unmarshal\<close> into the Go types of the two RPC clients (the struct tags of
  \<open>indexer/internal/rpc/models.go\<close> and of the two \<open>client.go\<close>). A decoder maps a JSON value and the old content of
  its target to the new content and the first type error: after a type error Go goes on with the other
  members, so the target can be partly filled. A struct is a table of its members; the name of a member is matched
  exactly or else up to case. The text of a type error is abbreviated.
\<close>

section \<open>Decoders\<close>

type_synonym 'a decoder = "json \<Rightarrow> 'a \<Rightarrow> 'a \<times> string option"

definition json_type_error :: string where
  "json_type_error = ''json: cannot unmarshal value''"

definition first_error :: "string option \<Rightarrow> string option \<Rightarrow> string option" where
  "first_error e f = (case e of None \<Rightarrow> f | Some _ \<Rightarrow> e)"

text \<open>\<open>null\<close> leaves a value alone and empties pointers and slices.\<close>

definition dec_string :: "string decoder" where
  "dec_string j x = (case j of JStr s \<Rightarrow> (s, None) | JNull \<Rightarrow> (x, None) | _ \<Rightarrow> (x, Some json_type_error))"

definition dec_bool :: "bool decoder" where
  "dec_bool j x = (case j of JBool b \<Rightarrow> (b, None) | JNull \<Rightarrow> (x, None) | _ \<Rightarrow> (x, Some json_type_error))"

definition dec_number :: "(string \<Rightarrow> 'a option) \<Rightarrow> 'a decoder" where
  "dec_number p j x =
     (case j of
        JNum l \<Rightarrow> (case p l of Some y \<Rightarrow> (y, None) | None \<Rightarrow> (x, Some json_type_error))
      | JNull \<Rightarrow> (x, None)
      | _ \<Rightarrow> (x, Some json_type_error))"

definition parse_uint :: "nat \<Rightarrow> string \<Rightarrow> int option" where
  "parse_uint w s =
     (case parse_digits 0 s of Some n \<Rightarrow> if s \<noteq> [] \<and> n < 2 ^ w then Some n else None | None \<Rightarrow> None)"

definition dec_int :: "int decoder" where
  "dec_int = dec_number parse_int64"

definition dec_uint :: "nat \<Rightarrow> int decoder" where
  "dec_uint w = dec_number (parse_uint w)"

definition dec_float :: "f64 decoder" where
  "dec_float = dec_number parse_float"

definition dec_pointer :: "'a \<Rightarrow> 'a decoder \<Rightarrow> 'a option decoder" where
  "dec_pointer zero d j x =
     (if j = JNull then (None, None)
      else (case d j (case x of None \<Rightarrow> zero | Some y \<Rightarrow> y) of (y, e) \<Rightarrow> (Some y, e)))"

definition dec_slice :: "'a \<Rightarrow> 'a decoder \<Rightarrow> 'a list decoder" where
  "dec_slice zero d j xs =
     (case j of
        JArr js \<Rightarrow> (map (\<lambda>j. fst (d j zero)) js, foldl first_error None (map (\<lambda>j. snd (d j zero)) js))
      | JNull \<Rightarrow> ([], None)
      | _ \<Rightarrow> (xs, Some json_type_error))"

text \<open>\<open>json.RawMessage\<close> and \<open>any\<close>; in an \<open>any\<close> every number must fit a \<open>float64\<close>.\<close>

definition dec_raw :: "json option decoder" where
  "dec_raw j x = (Some j, None)"

fun numbers_fit :: "json \<Rightarrow> bool" where
  "numbers_fit (JNum l) = (parse_float l \<noteq> None)"
| "numbers_fit (JArr js) = (\<forall>j \<in> set js. numbers_fit j)"
| "numbers_fit (JObj kvs) = (\<forall>kv \<in> set kvs. numbers_fit (snd kv))"
| "numbers_fit _ = True"

definition dec_any :: "json option decoder" where
  "dec_any j x = (if j = JNull then None else Some j, if numbers_fit j then None else Some json_type_error)"

section \<open>Structs\<close>

text \<open>Go's folding of names: ASCII letters, the long s and the Kelvin sign.\<close>

function fold_name :: "string \<Rightarrow> string" where
  "fold_name s =
     (if has_prefix s [CHR 0xC5, CHR 0xBF] then CHR ''S'' # fold_name (drop 2 s)
      else if has_prefix s [CHR 0xE2, CHR 0x84, CHR 0xAA] then CHR ''K'' # fold_name (drop 3 s)
      else (case s of [] \<Rightarrow> []
        | c # t \<Rightarrow> (if CHR ''a'' \<le> c \<and> c \<le> CHR ''z'' then char_of (byte_val c - 32) else c) # fold_name t))"
  by pat_completeness auto
termination
  by (relation "measure length") (auto dest: has_prefix_length)

declare fold_name.simps [simp del]

type_synonym 'r member = "string \<times> 'r decoder"

definition member :: "string \<Rightarrow> ('r \<Rightarrow> 'a) \<Rightarrow> ('a \<Rightarrow> 'r \<Rightarrow> 'r) \<Rightarrow> 'a decoder \<Rightarrow> 'r member" where
  "member name get put d = (name, \<lambda>j r. case d j (get r) of (x, e) \<Rightarrow> (put x r, e))"

definition pick_member :: "'r member list \<Rightarrow> string \<Rightarrow> 'r decoder option" where
  "pick_member ms k =
     (case map_of ms k of
        Some d \<Rightarrow> Some d
      | None \<Rightarrow> map_of (map (\<lambda>(n, d). (fold_name n, d)) ms) (fold_name k))"

definition dec_member :: "'r member list \<Rightarrow> 'r \<times> string option \<Rightarrow> string \<times> json \<Rightarrow> 'r \<times> string option" where
  "dec_member ms re kv =
     (case pick_member ms (fst kv) of
        None \<Rightarrow> re
      | Some d \<Rightarrow> (case d (snd kv) (fst re) of (r, e) \<Rightarrow> (r, first_error (snd re) e)))"

definition dec_struct :: "'r member list \<Rightarrow> 'r decoder" where
  "dec_struct ms j r =
     (case j of
        JObj kvs \<Rightarrow> foldl (dec_member ms) (r, None) kvs
      | JNull \<Rightarrow> (r, None)
      | _ \<Rightarrow> (r, Some json_type_error))"

text \<open>\<open>json.Unmarshal(raw, &x)\<close> for a fresh \<open>x\<close> whose caller returns the error.\<close>

definition run_decoder :: "'a decoder \<Rightarrow> 'a \<Rightarrow> json \<Rightarrow> 'a result" where
  "run_decoder d zero j = (case d j zero of (x, None) \<Rightarrow> Inr x | (_, Some e) \<Rightarrow> Inl e)"

section \<open>The decoded block\<close>

definition zero_script_sig :: ScriptSig where
  "zero_script_sig = \<lparr>ss_asm = [], ss_hex = []\<rparr>"

definition script_sig_members :: "ScriptSig member list" where
  "script_sig_members =
     [member ''asm'' ss_asm (\<lambda>x. ss_asm_update (\<lambda>_. x)) dec_string,
      member ''hex'' ss_hex (\<lambda>x. ss_hex_update (\<lambda>_. x)) dec_string]"

definition zero_tx_in :: TxIn where
  "zero_tx_in = \<lparr>in_txid = [], in_vout = None, in_script_sig = zero_script_sig, in_sequence = None, in_coinbase = []\<rparr>"

definition tx_in_members :: "TxIn member list" where
  "tx_in_members =
     [member ''txid'' in_txid (\<lambda>x. in_txid_update (\<lambda>_. x)) dec_string,
      member ''vout'' in_vout (\<lambda>x. in_vout_update (\<lambda>_. x)) (dec_pointer 0 dec_int),
      member ''scriptSig'' in_script_sig (\<lambda>x. in_script_sig_update (\<lambda>_. x)) (dec_struct script_sig_members),
      member ''sequence'' in_sequence (\<lambda>x. in_sequence_update (\<lambda>_. x)) (dec_pointer 0 dec_int),
      member ''coinbase'' in_coinbase (\<lambda>x. in_coinbase_update (\<lambda>_. x)) dec_string]"

definition zero_script_pub_key :: ScriptPubKey where
  "zero_script_pub_key = \<lparr>spk_asm = [], spk_hex = [], spk_type = [], spk_address = [], spk_addresses = []\<rparr>"

definition script_pub_key_members :: "ScriptPubKey member list" where
  "script_pub_key_members =
     [member ''asm'' spk_asm (\<lambda>x. spk_asm_update (\<lambda>_. x)) dec_string,
      member ''hex'' spk_hex (\<lambda>x. spk_hex_update (\<lambda>_. x)) dec_string,
      member ''type'' spk_type (\<lambda>x. spk_type_update (\<lambda>_. x)) dec_string,
      member ''address'' spk_address (\<lambda>x. spk_address_update (\<lambda>_. x)) dec_string,
      member ''addresses'' spk_addresses (\<lambda>x. spk_addresses_update (\<lambda>_. x)) (dec_slice [] dec_string)]"

definition zero_tx_out :: TxOut where
  "zero_tx_out = \<lparr>out_value = Fin 0, out_n = 0, out_spk = zero_script_pub_key\<rparr>"

definition tx_out_members :: "TxOut member list" where
  "tx_out_members =
     [member ''value'' out_value (\<lambda>x. out_value_update (\<lambda>_. x)) dec_float,
      member ''n'' out_n (\<lambda>x. out_n_update (\<lambda>_. x)) (dec_uint 32),
      member ''scriptPubKey'' out_spk (\<lambda>x. out_spk_update (\<lambda>_. x)) (dec_struct script_pub_key_members)]"

definition zero_tx :: TxV2 where
  "zero_tx = \<lparr>tx_txid = [], tx_version = None, tx_locktime = None, tx_size = None, tx_vsize = None,
     tx_weight = None, tx_vin = [], tx_vout = []\<rparr>"

definition tx_members :: "TxV2 member list" where
  "tx_members =
     [member ''txid'' tx_txid (\<lambda>x. tx_txid_update (\<lambda>_. x)) dec_string,
      member ''version'' tx_version (\<lambda>x. tx_version_update (\<lambda>_. x)) (dec_pointer 0 dec_int),
      member ''locktime'' tx_locktime (\<lambda>x. tx_locktime_update (\<lambda>_. x)) (dec_pointer 0 dec_int),
      member ''size'' tx_size (\<lambda>x. tx_size_update (\<lambda>_. x)) (dec_pointer 0 dec_int),
      member ''vsize'' tx_vsize (\<lambda>x. tx_vsize_update (\<lambda>_. x)) (dec_pointer 0 dec_int),
      member ''weight'' tx_weight (\<lambda>x. tx_weight_update (\<lambda>_. x)) (dec_pointer 0 dec_int),
      member ''vin'' tx_vin (\<lambda>x. tx_vin_update (\<lambda>_. x)) (dec_slice zero_tx_in (dec_struct tx_in_members)),
      member ''vout'' tx_vout (\<lambda>x. tx_vout_update (\<lambda>_. x)) (dec_slice zero_tx_out (dec_struct tx_out_members))]"

definition zero_block :: BlockV2 where
  "zero_block = \<lparr>blk_hash = [], blk_confirmations = 0, blk_size = 0, blk_weight = 0, blk_height = 0, blk_version = 0,
     blk_merkle_root = [], blk_time = 0, blk_nonce = 0, blk_bits = [], blk_difficulty = Fin 0, blk_chain_work = [],
     blk_prev_hash = [], blk_algo_id = None, blk_algo_name = [], blk_auxpow = False, blk_auxpow_sign = [],
     blk_core_version = [], blk_tx = []\<rparr>"

definition block_members :: "BlockV2 member list" where
  "block_members =
     [member ''hash'' blk_hash (\<lambda>x. blk_hash_update (\<lambda>_. x)) dec_string,
      member ''confirmations'' blk_confirmations (\<lambda>x. blk_confirmations_update (\<lambda>_. x)) dec_int,
      member ''size'' blk_size (\<lambda>x. blk_size_update (\<lambda>_. x)) dec_int,
      member ''weight'' blk_weight (\<lambda>x. blk_weight_update (\<lambda>_. x)) dec_int,
      member ''height'' blk_height (\<lambda>x. blk_height_update (\<lambda>_. x)) dec_int,
      member ''version'' blk_version (\<lambda>x. blk_version_update (\<lambda>_. x)) dec_int,
      member ''merkleroot'' blk_merkle_root (\<lambda>x. blk_merkle_root_update (\<lambda>_. x)) dec_string,
      member ''time'' blk_time (\<lambda>x. blk_time_update (\<lambda>_. x)) dec_int,
      member ''nonce'' blk_nonce (\<lambda>x. blk_nonce_update (\<lambda>_. x)) (dec_uint 64),
      member ''bits'' blk_bits (\<lambda>x. blk_bits_update (\<lambda>_. x)) dec_string,
      member ''difficulty'' blk_difficulty (\<lambda>x. blk_difficulty_update (\<lambda>_. x)) dec_float,
      member ''chainwork'' blk_chain_work (\<lambda>x. blk_chain_work_update (\<lambda>_. x)) dec_string,
      member ''previousblockhash'' blk_prev_hash (\<lambda>x. blk_prev_hash_update (\<lambda>_. x)) dec_string,
      member ''algo_id'' blk_algo_id (\<lambda>x. blk_algo_id_update (\<lambda>_. x)) (dec_pointer 0 dec_int),
      member ''algo'' blk_algo_name (\<lambda>x. blk_algo_name_update (\<lambda>_. x)) dec_string,
      member ''auxpow'' blk_auxpow (\<lambda>x. blk_auxpow_update (\<lambda>_. x)) dec_bool,
      member ''auxpowsign'' blk_auxpow_sign (\<lambda>x. blk_auxpow_sign_update (\<lambda>_. x)) dec_string,
      member ''coreversion'' blk_core_version (\<lambda>x. blk_core_version_update (\<lambda>_. x)) dec_string,
      member ''tx'' blk_tx (\<lambda>x. blk_tx_update (\<lambda>_. x)) (dec_slice zero_tx (dec_struct tx_members))]"

definition dec_block :: "BlockV2 decoder" where
  "dec_block = dec_struct block_members"

section \<open>What the node writes\<close>

text \<open>
  The members of an object are written in order; a member is left out when its value is the zero value of the Go type
  (\<open>None\<close> in the second component), as the node does with \<open>coinbase\<close>, \<open>txid\<close> or \<open>addresses\<close>.
\<close>

type_synonym 'a written = "'a \<times> json option"

definition emit :: "string \<Rightarrow> 'a written \<Rightarrow> (string \<times> json) list" where
  "emit k w = (case snd w of None \<Rightarrow> [] | Some j \<Rightarrow> [(k, j)])"

definition w_string :: "string \<Rightarrow> string written" where
  "w_string s = (s, if s = [] then None else Some (JStr s))"

definition w_int :: "int \<Rightarrow> int written" where
  "w_int n = (n, Some (j_int n))"

definition w_pointer :: "int option \<Rightarrow> int option written" where
  "w_pointer v = (v, map_option j_int v)"

definition w_bool :: "bool \<Rightarrow> bool written" where
  "w_bool b = (b, if b then Some (JBool True) else None)"

definition w_float :: "(f64 \<Rightarrow> string) \<Rightarrow> f64 \<Rightarrow> f64 written" where
  "w_float show x = (x, Some (JNum (show x)))"

definition w_list :: "('a \<Rightarrow> json) \<Rightarrow> 'a list \<Rightarrow> 'a list written" where
  "w_list enc xs = (xs, if xs = [] then None else Some (JArr (map enc xs)))"

definition w_value :: "('a \<Rightarrow> json) \<Rightarrow> 'a \<Rightarrow> 'a written" where
  "w_value enc x = (x, Some (enc x))"

definition node_script_sig :: "ScriptSig \<Rightarrow> json" where
  "node_script_sig s = JObj (emit ''asm'' (w_string (ss_asm s)) @ emit ''hex'' (w_string (ss_hex s)))"

definition node_tx_in :: "TxIn \<Rightarrow> json" where
  "node_tx_in i = JObj (emit ''txid'' (w_string (in_txid i)) @ emit ''vout'' (w_pointer (in_vout i)) @
     emit ''scriptSig'' (w_value node_script_sig (in_script_sig i)) @ emit ''sequence'' (w_pointer (in_sequence i)) @
     emit ''coinbase'' (w_string (in_coinbase i)))"

definition node_script_pub_key :: "ScriptPubKey \<Rightarrow> json" where
  "node_script_pub_key s = JObj (emit ''asm'' (w_string (spk_asm s)) @ emit ''hex'' (w_string (spk_hex s)) @
     emit ''type'' (w_string (spk_type s)) @ emit ''address'' (w_string (spk_address s)) @
     emit ''addresses'' (w_list JStr (spk_addresses s)))"

definition node_tx_out :: "(f64 \<Rightarrow> string) \<Rightarrow> TxOut \<Rightarrow> json" where
  "node_tx_out show o' = JObj (emit ''value'' (w_float show (out_value o')) @ emit ''n'' (w_int (out_n o')) @
     emit ''scriptPubKey'' (w_value node_script_pub_key (out_spk o')))"

definition node_tx :: "(f64 \<Rightarrow> string) \<Rightarrow> TxV2 \<Rightarrow> json" where
  "node_tx show t = JObj (emit ''txid'' (w_string (tx_txid t)) @ emit ''version'' (w_pointer (tx_version t)) @
     emit ''locktime'' (w_pointer (tx_locktime t)) @ emit ''size'' (w_pointer (tx_size t)) @
     emit ''vsize'' (w_pointer (tx_vsize t)) @ emit ''weight'' (w_pointer (tx_weight t)) @
     emit ''vin'' (w_list node_tx_in (tx_vin t)) @ emit ''vout'' (w_list (node_tx_out show) (tx_vout t)))"

definition node_block_members :: "(f64 \<Rightarrow> string) \<Rightarrow> BlockV2 \<Rightarrow> (string \<times> json) list" where
  "node_block_members show b =
     emit ''hash'' (w_string (blk_hash b)) @ emit ''confirmations'' (w_int (blk_confirmations b)) @
     emit ''size'' (w_int (blk_size b)) @ emit ''weight'' (w_int (blk_weight b)) @
     emit ''height'' (w_int (blk_height b)) @ emit ''version'' (w_int (blk_version b)) @
     emit ''merkleroot'' (w_string (blk_merkle_root b)) @ emit ''time'' (w_int (blk_time b)) @
     emit ''nonce'' (w_int (blk_nonce b)) @ emit ''bits'' (w_string (blk_bits b)) @
     emit ''difficulty'' (w_float show (blk_difficulty b)) @ emit ''chainwork'' (w_string (blk_chain_work b)) @
     emit ''previousblockhash'' (w_string (blk_prev_hash b)) @ emit ''algo_id'' (w_pointer (blk_algo_id b)) @
     emit ''algo'' (w_string (blk_algo_name b)) @ emit ''auxpow'' (w_bool (blk_auxpow b)) @
     emit ''auxpowsign'' (w_string (blk_auxpow_sign b)) @ emit ''coreversion'' (w_string (blk_core_version b)) @
     emit ''tx'' (w_list (node_tx show) (blk_tx b))"

definition node_block :: "(f64 \<Rightarrow> string) \<Rightarrow> BlockV2 \<Rightarrow> json" where
  "node_block show b = JObj (node_block_members show b)"

section \<open>What the node writes is read back\<close>

text \<open>\<open>reads dc zero w\<close>: from the zero value the decoder reads what was written.\<close>

definition reads :: "'a decoder \<Rightarrow> 'a \<Rightarrow> 'a written \<Rightarrow> bool" where
  "reads dc zero w \<longleftrightarrow> (case snd w of None \<Rightarrow> fst w = zero | Some j \<Rightarrow> dc j zero = (fst w, None))"

lemmas read_defs = emit_def reads_def member_def dec_member_def pick_member_def first_error_def

lemma parse_int64_fits: "in64 n \<Longrightarrow> dec_int (j_int n) x = (n, None)"
  by (simp add: dec_int_def dec_number_def j_int_def parse_int64_itoa)

lemma reads_string [simp]: "reads dec_string [] (w_string s)"
  by (simp add: reads_def w_string_def dec_string_def)

lemma reads_int [simp]: "in64 n \<Longrightarrow> reads dec_int x (w_int n)"
  by (simp add: reads_def w_int_def parse_int64_fits)

definition opt_in64 :: "int option \<Rightarrow> bool" where
  "opt_in64 v = (case v of None \<Rightarrow> True | Some n \<Rightarrow> in64 n)"

lemma reads_pointer [simp]: "opt_in64 v \<Longrightarrow> reads (dec_pointer 0 dec_int) None (w_pointer v)"
  by (cases v) (simp_all add: opt_in64_def reads_def w_pointer_def dec_pointer_def parse_int64_fits, simp_all add: j_int_def)

lemma reads_uint [simp]: "0 \<le> n \<Longrightarrow> n < 2 ^ k \<Longrightarrow> reads (dec_uint k) x (w_int n)"
  by (simp add: reads_def w_int_def dec_uint_def dec_number_def j_int_def parse_uint_def itoa_def parse_digits_dec)

lemma reads_bool [simp]: "reads dec_bool False (w_bool b)"
  by (cases b) (simp_all add: reads_def w_bool_def dec_bool_def)

lemma reads_float [simp]: "parse_float (show x) = Some x \<Longrightarrow> reads dec_float y (w_float show x)"
  by (simp add: reads_def w_float_def dec_float_def dec_number_def)

lemma first_error_none: "foldl first_error None (map (\<lambda>j. None) js) = None"
  by (induction js) (simp_all add: first_error_def)

lemma reads_list: "(\<And>x. x \<in> set xs \<Longrightarrow> dc (enc x) z = (x, None)) \<Longrightarrow> reads (dec_slice z dc) [] (w_list enc xs)"
  by (auto simp: reads_def w_list_def dec_slice_def comp_def first_error_none cong: map_cong)

lemma reads_value: "dc (enc x) z = (x, None) \<Longrightarrow> reads dc z (w_value enc x)"
  by (simp add: reads_def w_value_def)

lemma written_value [simp]: "fst (w_string s) = s" "fst (w_int n) = n" "fst (w_pointer v) = v" "fst (w_bool b) = b"
    "fst (w_float show x) = x" "fst (w_list enc xs) = xs" "fst (w_value enc y) = y"
  by (simp_all add: w_string_def w_int_def w_pointer_def w_bool_def w_float_def w_list_def w_value_def)

lemma script_sig_reads:
  "reads dec_string (ss_asm r) w0 \<Longrightarrow> foldl (dec_member script_sig_members) (r, None) (emit ''asm'' w0) = (r\<lparr>ss_asm := fst w0\<rparr>, None)"
  "reads dec_string (ss_hex r) w1 \<Longrightarrow> foldl (dec_member script_sig_members) (r, None) (emit ''hex'' w1) = (r\<lparr>ss_hex := fst w1\<rparr>, None)"
  by (auto simp: script_sig_members_def read_defs split: option.splits)

lemma tx_in_reads:
  "reads dec_string (in_txid r) w0 \<Longrightarrow> foldl (dec_member tx_in_members) (r, None) (emit ''txid'' w0) = (r\<lparr>in_txid := fst w0\<rparr>, None)"
  "reads (dec_pointer 0 dec_int) (in_vout r) w1 \<Longrightarrow> foldl (dec_member tx_in_members) (r, None) (emit ''vout'' w1) = (r\<lparr>in_vout := fst w1\<rparr>, None)"
  "reads (dec_struct script_sig_members) (in_script_sig r) w2 \<Longrightarrow> foldl (dec_member tx_in_members) (r, None) (emit ''scriptSig'' w2) = (r\<lparr>in_script_sig := fst w2\<rparr>, None)"
  "reads (dec_pointer 0 dec_int) (in_sequence r) w3 \<Longrightarrow> foldl (dec_member tx_in_members) (r, None) (emit ''sequence'' w3) = (r\<lparr>in_sequence := fst w3\<rparr>, None)"
  "reads dec_string (in_coinbase r) w4 \<Longrightarrow> foldl (dec_member tx_in_members) (r, None) (emit ''coinbase'' w4) = (r\<lparr>in_coinbase := fst w4\<rparr>, None)"
  by (auto simp: tx_in_members_def read_defs split: option.splits)

lemma script_pub_key_reads:
  "reads dec_string (spk_asm r) w0 \<Longrightarrow> foldl (dec_member script_pub_key_members) (r, None) (emit ''asm'' w0) = (r\<lparr>spk_asm := fst w0\<rparr>, None)"
  "reads dec_string (spk_hex r) w1 \<Longrightarrow> foldl (dec_member script_pub_key_members) (r, None) (emit ''hex'' w1) = (r\<lparr>spk_hex := fst w1\<rparr>, None)"
  "reads dec_string (spk_type r) w2 \<Longrightarrow> foldl (dec_member script_pub_key_members) (r, None) (emit ''type'' w2) = (r\<lparr>spk_type := fst w2\<rparr>, None)"
  "reads dec_string (spk_address r) w3 \<Longrightarrow> foldl (dec_member script_pub_key_members) (r, None) (emit ''address'' w3) = (r\<lparr>spk_address := fst w3\<rparr>, None)"
  "reads (dec_slice [] dec_string) (spk_addresses r) w4 \<Longrightarrow> foldl (dec_member script_pub_key_members) (r, None) (emit ''addresses'' w4) = (r\<lparr>spk_addresses := fst w4\<rparr>, None)"
  by (auto simp: script_pub_key_members_def read_defs split: option.splits)

lemma tx_out_reads:
  "reads dec_float (out_value r) w0 \<Longrightarrow> foldl (dec_member tx_out_members) (r, None) (emit ''value'' w0) = (r\<lparr>out_value := fst w0\<rparr>, None)"
  "reads (dec_uint 32) (out_n r) w1 \<Longrightarrow> foldl (dec_member tx_out_members) (r, None) (emit ''n'' w1) = (r\<lparr>out_n := fst w1\<rparr>, None)"
  "reads (dec_struct script_pub_key_members) (out_spk r) w2 \<Longrightarrow> foldl (dec_member tx_out_members) (r, None) (emit ''scriptPubKey'' w2) = (r\<lparr>out_spk := fst w2\<rparr>, None)"
  by (auto simp: tx_out_members_def read_defs split: option.splits)

lemma tx_reads:
  "reads dec_string (tx_txid r) w0 \<Longrightarrow> foldl (dec_member tx_members) (r, None) (emit ''txid'' w0) = (r\<lparr>tx_txid := fst w0\<rparr>, None)"
  "reads (dec_pointer 0 dec_int) (tx_version r) w1 \<Longrightarrow> foldl (dec_member tx_members) (r, None) (emit ''version'' w1) = (r\<lparr>tx_version := fst w1\<rparr>, None)"
  "reads (dec_pointer 0 dec_int) (tx_locktime r) w2 \<Longrightarrow> foldl (dec_member tx_members) (r, None) (emit ''locktime'' w2) = (r\<lparr>tx_locktime := fst w2\<rparr>, None)"
  "reads (dec_pointer 0 dec_int) (tx_size r) w3 \<Longrightarrow> foldl (dec_member tx_members) (r, None) (emit ''size'' w3) = (r\<lparr>tx_size := fst w3\<rparr>, None)"
  "reads (dec_pointer 0 dec_int) (tx_vsize r) w4 \<Longrightarrow> foldl (dec_member tx_members) (r, None) (emit ''vsize'' w4) = (r\<lparr>tx_vsize := fst w4\<rparr>, None)"
  "reads (dec_pointer 0 dec_int) (tx_weight r) w5 \<Longrightarrow> foldl (dec_member tx_members) (r, None) (emit ''weight'' w5) = (r\<lparr>tx_weight := fst w5\<rparr>, None)"
  "reads (dec_slice zero_tx_in (dec_struct tx_in_members)) (tx_vin r) w6 \<Longrightarrow> foldl (dec_member tx_members) (r, None) (emit ''vin'' w6) = (r\<lparr>tx_vin := fst w6\<rparr>, None)"
  "reads (dec_slice zero_tx_out (dec_struct tx_out_members)) (tx_vout r) w7 \<Longrightarrow> foldl (dec_member tx_members) (r, None) (emit ''vout'' w7) = (r\<lparr>tx_vout := fst w7\<rparr>, None)"
  by (auto simp: tx_members_def read_defs split: option.splits)

lemma block_reads:
  "reads dec_string (blk_hash r) w0 \<Longrightarrow> foldl (dec_member block_members) (r, None) (emit ''hash'' w0) = (r\<lparr>blk_hash := fst w0\<rparr>, None)"
  "reads dec_int (blk_confirmations r) w1 \<Longrightarrow> foldl (dec_member block_members) (r, None) (emit ''confirmations'' w1) = (r\<lparr>blk_confirmations := fst w1\<rparr>, None)"
  "reads dec_int (blk_size r) w2 \<Longrightarrow> foldl (dec_member block_members) (r, None) (emit ''size'' w2) = (r\<lparr>blk_size := fst w2\<rparr>, None)"
  "reads dec_int (blk_weight r) w3 \<Longrightarrow> foldl (dec_member block_members) (r, None) (emit ''weight'' w3) = (r\<lparr>blk_weight := fst w3\<rparr>, None)"
  "reads dec_int (blk_height r) w4 \<Longrightarrow> foldl (dec_member block_members) (r, None) (emit ''height'' w4) = (r\<lparr>blk_height := fst w4\<rparr>, None)"
  "reads dec_int (blk_version r) w5 \<Longrightarrow> foldl (dec_member block_members) (r, None) (emit ''version'' w5) = (r\<lparr>blk_version := fst w5\<rparr>, None)"
  "reads dec_string (blk_merkle_root r) w6 \<Longrightarrow> foldl (dec_member block_members) (r, None) (emit ''merkleroot'' w6) = (r\<lparr>blk_merkle_root := fst w6\<rparr>, None)"
  "reads dec_int (blk_time r) w7 \<Longrightarrow> foldl (dec_member block_members) (r, None) (emit ''time'' w7) = (r\<lparr>blk_time := fst w7\<rparr>, None)"
  "reads (dec_uint 64) (blk_nonce r) w8 \<Longrightarrow> foldl (dec_member block_members) (r, None) (emit ''nonce'' w8) = (r\<lparr>blk_nonce := fst w8\<rparr>, None)"
  "reads dec_string (blk_bits r) w9 \<Longrightarrow> foldl (dec_member block_members) (r, None) (emit ''bits'' w9) = (r\<lparr>blk_bits := fst w9\<rparr>, None)"
  "reads dec_float (blk_difficulty r) w10 \<Longrightarrow> foldl (dec_member block_members) (r, None) (emit ''difficulty'' w10) = (r\<lparr>blk_difficulty := fst w10\<rparr>, None)"
  "reads dec_string (blk_chain_work r) w11 \<Longrightarrow> foldl (dec_member block_members) (r, None) (emit ''chainwork'' w11) = (r\<lparr>blk_chain_work := fst w11\<rparr>, None)"
  "reads dec_string (blk_prev_hash r) w12 \<Longrightarrow> foldl (dec_member block_members) (r, None) (emit ''previousblockhash'' w12) = (r\<lparr>blk_prev_hash := fst w12\<rparr>, None)"
  "reads (dec_pointer 0 dec_int) (blk_algo_id r) w13 \<Longrightarrow> foldl (dec_member block_members) (r, None) (emit ''algo_id'' w13) = (r\<lparr>blk_algo_id := fst w13\<rparr>, None)"
  "reads dec_string (blk_algo_name r) w14 \<Longrightarrow> foldl (dec_member block_members) (r, None) (emit ''algo'' w14) = (r\<lparr>blk_algo_name := fst w14\<rparr>, None)"
  "reads dec_bool (blk_auxpow r) w15 \<Longrightarrow> foldl (dec_member block_members) (r, None) (emit ''auxpow'' w15) = (r\<lparr>blk_auxpow := fst w15\<rparr>, None)"
  "reads dec_string (blk_auxpow_sign r) w16 \<Longrightarrow> foldl (dec_member block_members) (r, None) (emit ''auxpowsign'' w16) = (r\<lparr>blk_auxpow_sign := fst w16\<rparr>, None)"
  "reads dec_string (blk_core_version r) w17 \<Longrightarrow> foldl (dec_member block_members) (r, None) (emit ''coreversion'' w17) = (r\<lparr>blk_core_version := fst w17\<rparr>, None)"
  "reads (dec_slice zero_tx (dec_struct tx_members)) (blk_tx r) w18 \<Longrightarrow> foldl (dec_member block_members) (r, None) (emit ''tx'' w18) = (r\<lparr>blk_tx := fst w18\<rparr>, None)"
  by (auto simp: block_members_def read_defs split: option.splits)

lemma dec_object: "dec_struct ms (JObj kvs) r = foldl (dec_member ms) (r, None) kvs"
  by (simp add: dec_struct_def)

lemma read_script_sig: "dec_struct script_sig_members (node_script_sig s) zero_script_sig = (s, None)"
  by (simp add: dec_object node_script_sig_def zero_script_sig_def script_sig_reads)

text \<open>The ranges of the Go types, and decimals that read back.\<close>

definition readable_in :: "TxIn \<Rightarrow> bool" where
  "readable_in i \<longleftrightarrow> opt_in64 (in_vout i) \<and> opt_in64 (in_sequence i)"

definition readable_out :: "(f64 \<Rightarrow> string) \<Rightarrow> TxOut \<Rightarrow> bool" where
  "readable_out show o' \<longleftrightarrow> parse_float (show (out_value o')) = Some (out_value o') \<and> 0 \<le> out_n o' \<and> out_n o' < 2 ^ 32"

definition readable_tx :: "(f64 \<Rightarrow> string) \<Rightarrow> TxV2 \<Rightarrow> bool" where
  "readable_tx show t \<longleftrightarrow> opt_in64 (tx_version t) \<and> opt_in64 (tx_locktime t) \<and>
     opt_in64 (tx_size t) \<and> opt_in64 (tx_vsize t) \<and> opt_in64 (tx_weight t) \<and>
     list_all readable_in (tx_vin t) \<and> list_all (readable_out show) (tx_vout t)"

definition readable_block :: "(f64 \<Rightarrow> string) \<Rightarrow> BlockV2 \<Rightarrow> bool" where
  "readable_block show b \<longleftrightarrow> in64 (blk_confirmations b) \<and> in64 (blk_size b) \<and> in64 (blk_weight b) \<and> in64 (blk_height b) \<and>
     in64 (blk_version b) \<and> in64 (blk_time b) \<and> 0 \<le> blk_nonce b \<and> blk_nonce b < 2 ^ 64 \<and>
     parse_float (show (blk_difficulty b)) = Some (blk_difficulty b) \<and> opt_in64 (blk_algo_id b) \<and>
     list_all (readable_tx show) (blk_tx b)"

lemma read_tx_in: "readable_in i \<Longrightarrow> dec_struct tx_in_members (node_tx_in i) zero_tx_in = (i, None)"
  by (simp add: dec_object node_tx_in_def zero_tx_in_def tx_in_reads readable_in_def reads_value read_script_sig)

lemma read_script_pub_key: "dec_struct script_pub_key_members (node_script_pub_key s) zero_script_pub_key = (s, None)"
  by (simp add: dec_object node_script_pub_key_def zero_script_pub_key_def script_pub_key_reads reads_list dec_string_def)

lemma read_tx_out: "readable_out show o' \<Longrightarrow> dec_struct tx_out_members (node_tx_out show o') zero_tx_out = (o', None)"
  by (simp add: dec_object node_tx_out_def zero_tx_out_def tx_out_reads readable_out_def reads_value read_script_pub_key)

lemma read_tx: "readable_tx show t \<Longrightarrow> dec_struct tx_members (node_tx show t) zero_tx = (t, None)"
  by (simp add: dec_object node_tx_def zero_tx_def tx_reads readable_tx_def reads_list list_all_iff read_tx_in read_tx_out)

lemma read_block_members:
  "readable_block show b \<Longrightarrow> foldl (dec_member block_members) (zero_block, None) (node_block_members show b) = (b, None)"
  by (simp add: node_block_members_def zero_block_def block_reads readable_block_def reads_list list_all_iff read_tx)

text \<open>Members the program does not know are skipped, wherever they stand.\<close>

definition knows_member :: "'r member list \<Rightarrow> string \<times> json \<Rightarrow> bool" where
  "knows_member ms kv \<longleftrightarrow> pick_member ms (fst kv) \<noteq> None"

lemma unknown_members_skipped: "foldl (dec_member ms) s kvs = foldl (dec_member ms) s (filter (knows_member ms) kvs)"
  by (induction kvs arbitrary: s) (auto simp: knows_member_def dec_member_def)

lemma read_block:
  assumes "readable_block show b" and "filter (knows_member block_members) kvs = node_block_members show b"
  shows "run_decoder dec_block zero_block (JObj kvs) = Inr b"
  using read_block_members [OF assms(1)] unknown_members_skipped [of block_members "(zero_block, None)" kvs]
  by (simp add: run_decoder_def dec_block_def dec_object assms(2))

end
