(* ===== verification/Node_Rpc.thy ===== *)
theory Node_Rpc
  imports Indexer_Config Ingest_Helpers Rpc_Decode
begin

text \<open>
  The JSON-RPC clients of the two programs (\<open>indexer/internal/rpc/client.go\<close> and
  \<open>generator/internal/rpc/client.go\<close>): the authorization header, the text of a request, \<open>call\<close> with its single
  retry after a 401, the decoding of replies and results. The HTTP exchange is the parameter: attempt
  number \<open>n\<close> of a call with a given header and body gets the outcome the environment holds.
\<close>

section \<open>Requests, replies and outcomes\<close>

record rpcError =
  er_code :: int
  er_message :: string

record reply =
  rr_result :: "json option"
  rr_error :: "rpcError option"
  rr_id :: string

definition rpc_error_members :: "rpcError member list" where
  "rpc_error_members =
     [member ''code'' er_code (\<lambda>x. er_code_update (\<lambda>_. x)) dec_int,
      member ''message'' er_message (\<lambda>x. er_message_update (\<lambda>_. x)) dec_string]"

definition zero_rpc_error :: rpcError where
  "zero_rpc_error = \<lparr>er_code = 0, er_message = []\<rparr>"

definition reply_members :: "reply member list" where
  "reply_members =
     [member ''result'' rr_result (\<lambda>x. rr_result_update (\<lambda>_. x)) dec_raw,
      member ''error'' rr_error (\<lambda>x. rr_error_update (\<lambda>_. x))
        (dec_pointer zero_rpc_error (dec_struct rpc_error_members)),
      member ''id'' rr_id (\<lambda>x. rr_id_update (\<lambda>_. x)) dec_string]"

definition zero_reply :: reply where
  "zero_reply = \<lparr>rr_result = None, rr_error = None, rr_id = []\<rparr>"

definition bind_result :: "'a result \<Rightarrow> ('a \<Rightarrow> 'b result) \<Rightarrow> 'b result" where
  "bind_result r f = (case r of Inl e \<Rightarrow> Inl e | Inr x \<Rightarrow> f x)"

definition unmarshal :: "'a decoder \<Rightarrow> 'a \<Rightarrow> string \<Rightarrow> 'a result" where
  "unmarshal d zero raw = bind_result (parse_json raw) (run_decoder d zero)"

definition request_value :: "string \<Rightarrow> json \<Rightarrow> json" where
  "request_value meth params = JObj [(''jsonrpc'', JStr ''1.0''), (''id'', JStr ''bitmark-indexer''), (''method'', JStr meth), (''params'', params)]"

definition request_body :: "string \<Rightarrow> json \<Rightarrow> string" where
  "request_body meth params = print_json (request_value meth params)"

datatype http_outcome = Transport string | Reply int string "string option"

record rpc_io =
  io_cookie :: "nat \<Rightarrow> string result"
  io_request :: "string option"
  io_http :: "nat \<Rightarrow> string \<Rightarrow> string \<Rightarrow> http_outcome"

record Client =
  cl_url :: string
  cl_static_auth :: string
  cl_cookie_file :: string
  cl_max_response :: int

section \<open>Base64\<close>

definition b64_alphabet :: string where
  "b64_alphabet = ''ABCDEFGHIJKLMNOPQRSTUVWXYZabcdefghijklmnopqrstuvwxyz0123456789+/''"

definition b64_char :: "nat \<Rightarrow> char" where
  "b64_char n = b64_alphabet ! n"

definition byte :: "char \<Rightarrow> nat" where
  "byte c = of_char c"

fun base64_encode :: "string \<Rightarrow> string" where
  "base64_encode [] = []"
| "base64_encode [a] =
     [b64_char (byte a div 4), b64_char (byte a mod 4 * 16), CHR ''='', CHR ''='']"
| "base64_encode [a, b] =
     [b64_char (byte a div 4), b64_char (byte a mod 4 * 16 + byte b div 16), b64_char (byte b mod 16 * 4), CHR ''='']"
| "base64_encode (a # b # c # s) =
     b64_char (byte a div 4) # b64_char (byte a mod 4 * 16 + byte b div 16)
       # b64_char (byte b mod 16 * 4 + byte c div 64) # b64_char (byte c mod 64) # base64_encode s"

text \<open>What a server does with the header: the inverse, by groups of four.\<close>

definition b64_val :: "char \<Rightarrow> nat" where
  "b64_val c = length (takeWhile (\<lambda>x. x \<noteq> c) b64_alphabet)"

fun base64_decode :: "string \<Rightarrow> string" where
  "base64_decode (w # x # y # z # s) =
     char_of (b64_val w * 4 + b64_val x div 16)
       # (if y = CHR ''='' then []
          else char_of (b64_val x mod 16 * 16 + b64_val y div 4)
            # (if z = CHR ''='' then [] else char_of (b64_val y mod 4 * 64 + b64_val z) # base64_decode s))"
| "base64_decode _ = []"

lemma b64_val_char: "n < 64 \<Longrightarrow> b64_val (b64_char n) = n \<and> b64_char n \<noteq> CHR ''=''"
proof -
  have "list_all (\<lambda>n. b64_val (b64_char n) = n \<and> b64_char n \<noteq> CHR ''='') [0 ..< 64]" by code_simp
  then show "n < 64 \<Longrightarrow> ?thesis" by (simp add: list_all_iff)
qed

lemma byte_lt: "byte c < 256"
  unfolding byte_def using nat_of_char_less_256 [of c] by simp

lemma char_of_byte: "char_of (byte c) = c"
  by (simp add: byte_def)

lemma b64_bounds:
  "byte a div 4 < 64" "byte a mod 4 * 16 + byte b div 16 < 64" "byte b mod 16 * 4 + byte c div 64 < 64"
  "byte c mod 64 < 64" "byte a mod 4 * 16 < 64" "byte b mod 16 * 4 < 64"
  using byte_lt [of a] byte_lt [of b] byte_lt [of c] by simp_all

lemma b64_join:
  "byte c div 16 div 16 = 0" "byte c div 64 div 4 = 0" "byte c div 16 mod 16 = byte c div 16"
  "byte c div 64 mod 4 = byte c div 64"
  using byte_lt [of c] by simp_all

lemma base64_decode_encode: "base64_decode (base64_encode s) = s"
  by (induction s rule: base64_encode.induct)
    (simp_all add: b64_val_char [OF b64_bounds(1)] b64_val_char [OF b64_bounds(2)]
      b64_val_char [OF b64_bounds(3)] b64_val_char [OF b64_bounds(4)] b64_val_char [OF b64_bounds(5)]
      b64_val_char [OF b64_bounds(6)] b64_join char_of_byte)

section \<open>The indexer's client\<close>

definition new_client :: "RPCConfig \<Rightarrow> Client" where
  "new_client cfg =
     \<lparr>cl_url = r_url cfg,
      cl_static_auth = (if r_user cfg \<noteq> '''' \<and> r_pass cfg \<noteq> ''''
         then ''Basic '' @ base64_encode (r_user cfg @ '':'' @ r_pass cfg) else ''''),
      cl_cookie_file = r_cookie_file cfg, cl_max_response = r_max_response_size cfg\<rparr>"

text \<open>The cookie file is read again on every attempt.\<close>

definition auth_header :: "rpc_io \<Rightarrow> Client \<Rightarrow> nat \<Rightarrow> string result" where
  "auth_header io c attempt =
     (if cl_cookie_file c = '''' then Inr (cl_static_auth c)
      else case io_cookie io attempt of
        Inl e \<Rightarrow> Inl (''cookie file '' @ cl_cookie_file c @ '': '' @ e)
      | Inr d \<Rightarrow> Inr (''Basic '' @ base64_encode (trim_space d)))"

definition err_401 :: string where
  "err_401 = ''rpc http 401 (retrying with fresh cookie)''"

definition err_http :: "int \<Rightarrow> string \<Rightarrow> string" where
  "err_http status raw = ''rpc http '' @ itoa status @ '': '' @ raw"

definition err_rpc :: "int \<Rightarrow> string \<Rightarrow> string" where
  "err_rpc code msg = ''rpc error '' @ itoa code @ '': '' @ msg"

definition read_reply :: "string \<Rightarrow> json result" where
  "read_reply raw =
     (case unmarshal (dec_struct reply_members) zero_reply raw of
        Inl e \<Rightarrow> Inl (''rpc decode: '' @ e)
      | Inr rr \<Rightarrow>
          (case rr_error rr of
             Some er \<Rightarrow> Inl (err_rpc (er_code er) (er_message er))
           | None \<Rightarrow>
               (case rr_result rr of
                  None \<Rightarrow> Inl ''unexpected end of JSON input''
                | Some j \<Rightarrow> Inr j)))"

text \<open>The attempts that are left; the second component lists the headers that were sent.\<close>

fun call_attempts :: "rpc_io \<Rightarrow> Client \<Rightarrow> string \<Rightarrow> nat \<Rightarrow> nat \<Rightarrow> string \<Rightarrow> json result \<times> string list" where
  "call_attempts io c reqBody attempt 0 lastErr = (Inl lastErr, [])"
| "call_attempts io c reqBody attempt (Suc left) lastErr =
     (case auth_header io c attempt of
        Inl e \<Rightarrow> (Inl e, [])
      | Inr auth \<Rightarrow>
          (case io_request io of
             Some e \<Rightarrow> (Inl e, [])
           | None \<Rightarrow>
               (case io_http io attempt auth reqBody of
                  Transport e \<Rightarrow> (Inl e, [auth])
                | Reply status body rd \<Rightarrow>
                    (case rd of
                       Some e \<Rightarrow> (Inl e, [auth])
                     | None \<Rightarrow>
                         (let raw = take (nat (cl_max_response c)) body
                          in if status = 401 \<and> cl_cookie_file c \<noteq> '''' \<and> attempt = 0
                             then (let (r, sent) = call_attempts io c reqBody (Suc attempt) left err_401
                                   in (r, auth # sent))
                             else if status < 200 \<or> status \<ge> 300 then (Inl (err_http status raw), [auth])
                             else (read_reply raw, [auth]))))))"

definition call :: "rpc_io \<Rightarrow> Client \<Rightarrow> string \<Rightarrow> json \<Rightarrow> json result \<times> string list" where
  "call io c meth params =
     call_attempts io c (request_body meth params) 0 (if cl_cookie_file c \<noteq> '''' then 2 else 1) ''''"

section \<open>Decoding of results\<close>

text \<open>Maps: every member is read into a fresh element, a later one of the same name replaces it.\<close>

definition to_object :: "json \<Rightarrow> (string \<rightharpoonup> json) result" where
  "to_object j =
     (case j of
        JObj kvs \<Rightarrow> if numbers_fit j then Inr (map_of (rev kvs)) else Inl json_type_error
      | JNull \<Rightarrow> Inr Map.empty
      | _ \<Rightarrow> Inl json_type_error)"

definition any_to_float :: "json \<Rightarrow> f64" where
  "any_to_float v = (case v of JNum l \<Rightarrow> (case parse_float l of Some x \<Rightarrow> x | None \<Rightarrow> Fin 0) | _ \<Rightarrow> Fin 0)"

definition to_float_map :: "json \<Rightarrow> (string \<rightharpoonup> f64) result" where
  "to_float_map j =
     (case j of
        JObj kvs \<Rightarrow> if list_all (\<lambda>kv. snd (dec_float (snd kv) (Fin 0)) = None) kvs
          then Inr (map_option (\<lambda>v. fst (dec_float v (Fin 0))) \<circ> map_of (rev kvs)) else Inl json_type_error
      | JNull \<Rightarrow> Inr Map.empty
      | _ \<Rightarrow> Inl json_type_error)"

definition get_float :: "(string \<rightharpoonup> f64) \<Rightarrow> string \<Rightarrow> f64" where
  "get_float m k = (case m k of None \<Rightarrow> Fin 0 | Some x \<Rightarrow> x)"

definition get_block_count :: "rpc_io \<Rightarrow> Client \<Rightarrow> int result" where
  "get_block_count io c = bind_result (fst (call io c ''getblockcount'' (JArr []))) (run_decoder dec_int 0)"

definition get_block_hash :: "rpc_io \<Rightarrow> Client \<Rightarrow> int \<Rightarrow> string result" where
  "get_block_hash io c height =
     bind_result (fst (call io c ''getblockhash'' (JArr [j_int height]))) (run_decoder dec_string [])"

definition get_block_verbose2 :: "rpc_io \<Rightarrow> Client \<Rightarrow> string \<Rightarrow> BlockV2 result" where
  "get_block_verbose2 io c hash =
     bind_result (fst (call io c ''getblock'' (JArr [JStr hash, j_int 2]))) (run_decoder dec_block zero_block)"

definition money_supply :: "rpc_io \<Rightarrow> Client \<Rightarrow> int \<Rightarrow> f64 result" where
  "money_supply io c algo =
     bind_result (fst (call io c ''getmoneysupply'' (JArr [j_int algo])))
       (\<lambda>j. bind_result (to_float_map j) (\<lambda>m. Inr (get_float m ''money supply'')))"

definition block_reward :: "rpc_io \<Rightarrow> Client \<Rightarrow> int \<Rightarrow> f64 result" where
  "block_reward io c algo =
     bind_result (fst (call io c ''getblockreward'' (JArr [j_int algo])))
       (\<lambda>j. bind_result (to_float_map j) (\<lambda>m. Inr (get_float m ''block reward'')))"

definition nominal_block_reward :: "rpc_io \<Rightarrow> Client \<Rightarrow> int \<Rightarrow> f64 result" where
  "nominal_block_reward io c algo =
     bind_result (fst (call io c ''getblockreward'' (JArr [j_int algo, j_int (-1), JBool True])))
       (\<lambda>j. bind_result (to_float_map j) (\<lambda>m. Inr (get_float m ''block reward'')))"

definition algo_names :: "string list" where
  "algo_names = [''SCRYPT'', ''SHA256D'', ''YESCRYPT'', ''ARGON2'', ''X17'', ''LYRA2REv2'', ''EQUIHASH'', ''CRYPTONIGHT'']"

record ChainDynamicsResult =
  cd_difficulty :: "f64 list"
  cd_hashrate :: "f64 list"
  cd_peak_hashrate :: "f64 list"
  cd_nssf_blocks :: "int list"
  cd_block_spacing :: "f64 list"

definition dyn_field :: "(string \<rightharpoonup> json) \<Rightarrow> string \<Rightarrow> f64 list" where
  "dyn_field raw prefix = map (\<lambda>name. case raw (prefix @ name) of None \<Rightarrow> Fin 0 | Some v \<Rightarrow> any_to_float v) algo_names"

definition parse_dynamics :: "(string \<rightharpoonup> json) \<Rightarrow> ChainDynamicsResult" where
  "parse_dynamics raw =
     \<lparr>cd_difficulty = dyn_field raw ''difficulty '', cd_hashrate = dyn_field raw ''current hashrate '',
      cd_peak_hashrate = dyn_field raw ''peak hashrate '',
      cd_nssf_blocks = map i64_of_f (dyn_field raw ''nblocks update SSF ''),
      cd_block_spacing = dyn_field raw ''average block spacing ''\<rparr>"

definition chain_dynamics :: "rpc_io \<Rightarrow> Client \<Rightarrow> ChainDynamicsResult result" where
  "chain_dynamics io c =
     bind_result (fst (call io c ''chaindynamics'' JNull))
       (\<lambda>j. bind_result (to_object j) (\<lambda>raw. Inr (parse_dynamics raw)))"

section \<open>The generator's client\<close>

text \<open>
  It looks at the body whatever the HTTP status, sends the user and the password, and treats the
  \<open>error\<close> member as an arbitrary value, printed with \<open>%v\<close> (\<open>gi_show\<close>).
\<close>

record gen_reply =
  gr_result :: "json option"
  gr_error :: "json option"

definition gen_reply_members :: "gen_reply member list" where
  "gen_reply_members =
     [member ''result'' gr_result (\<lambda>x. gr_result_update (\<lambda>_. x)) dec_raw,
      member ''error'' gr_error (\<lambda>x. gr_error_update (\<lambda>_. x)) dec_any]"

definition zero_gen_reply :: gen_reply where
  "zero_gen_reply = \<lparr>gr_result = None, gr_error = None\<rparr>"

record gen_io =
  gi_request :: "string option"
  gi_http :: "string \<Rightarrow> string \<Rightarrow> http_outcome"
  gi_show :: "json \<Rightarrow> string"

definition gen_request :: "string \<Rightarrow> json \<Rightarrow> json" where
  "gen_request meth params = JObj [(''method'', JStr meth), (''params'', params), (''id'', j_int 1)]"

definition gen_call :: "gen_io \<Rightarrow> string \<Rightarrow> string \<Rightarrow> string \<Rightarrow> json \<Rightarrow> json result" where
  "gen_call io user pass meth params =
     (case gi_request io of
        Some e \<Rightarrow> Inl e
      | None \<Rightarrow>
          (case gi_http io (''Basic '' @ base64_encode (user @ '':'' @ pass)) (print_json (gen_request meth params)) of
             Transport e \<Rightarrow> Inl e
           | Reply status raw rd \<Rightarrow>
               (case rd of
                  Some e \<Rightarrow> Inl e
                | None \<Rightarrow>
                    (case unmarshal (dec_struct gen_reply_members) zero_gen_reply raw of
                       Inl e \<Rightarrow> Inl (''rpc unmarshal: '' @ e @ '' (body='' @ raw @ '')'')
                     | Inr rr \<Rightarrow>
                         (case gr_error rr of
                            Some v \<Rightarrow> Inl (''rpc error: '' @ gi_show io v)
                          | None \<Rightarrow> (case gr_result rr of
                                None \<Rightarrow> Inl ''unexpected end of JSON input'' | Some j \<Rightarrow> Inr j))))))"

definition gen_get_block_count :: "gen_io \<Rightarrow> string \<Rightarrow> string \<Rightarrow> int result" where
  "gen_get_block_count io user pass =
     bind_result (gen_call io user pass ''getblockcount'' (JArr [])) (run_decoder dec_int 0)"

record BlockExtra =
  be_pow_hash :: string
  be_parent_block_hash :: string
  be_parent_block_pow_hash :: string
  be_parent_block_prev_hash :: string

definition block_extra_members :: "BlockExtra member list" where
  "block_extra_members =
     [member ''powhash'' be_pow_hash (\<lambda>x. be_pow_hash_update (\<lambda>_. x)) dec_string,
      member ''parentblockhash'' be_parent_block_hash (\<lambda>x. be_parent_block_hash_update (\<lambda>_. x)) dec_string,
      member ''parentblockpowhash'' be_parent_block_pow_hash (\<lambda>x. be_parent_block_pow_hash_update (\<lambda>_. x)) dec_string,
      member ''parentblockprevhash'' be_parent_block_prev_hash (\<lambda>x. be_parent_block_prev_hash_update (\<lambda>_. x)) dec_string]"

definition zero_block_extra :: BlockExtra where
  "zero_block_extra = \<lparr>be_pow_hash = [], be_parent_block_hash = [], be_parent_block_pow_hash = [], be_parent_block_prev_hash = []\<rparr>"

text \<open>The error is dropped: what was read before and after a type error stays.\<close>

definition get_block_extra :: "gen_io \<Rightarrow> string \<Rightarrow> string \<Rightarrow> string \<Rightarrow> BlockExtra" where
  "get_block_extra io user pass hash =
     (case gen_call io user pass ''getblock'' (JArr [JStr hash, j_int 2]) of
        Inl _ \<Rightarrow> zero_block_extra
      | Inr j \<Rightarrow> fst (dec_struct block_extra_members j zero_block_extra))"

text \<open>Its statistics calls; the spacing is divided by 60, and absent members leave zeros.\<close>

definition gen_parse_dynamics :: "(string \<rightharpoonup> json) \<Rightarrow> ChainDynamicsResult" where
  "gen_parse_dynamics raw =
     \<lparr>cd_difficulty = dyn_field raw ''difficulty '', cd_hashrate = dyn_field raw ''current hashrate '',
      cd_peak_hashrate = dyn_field raw ''peak hashrate '',
      cd_nssf_blocks = map i64_of_f (dyn_field raw ''nblocks update SSF ''),
      cd_block_spacing = map (\<lambda>name. case raw (''average block spacing '' @ name) of None \<Rightarrow> Fin 0
         | Some v \<Rightarrow> any_to_float v / Fin 60) algo_names\<rparr>"

definition gen_chain_dynamics :: "gen_io \<Rightarrow> string \<Rightarrow> string \<Rightarrow> ChainDynamicsResult result" where
  "gen_chain_dynamics io user pass =
     bind_result (gen_call io user pass ''chaindynamics'' JNull)
       (\<lambda>j. bind_result (to_object j) (\<lambda>raw. Inr (gen_parse_dynamics raw)))"

definition gen_money_supply :: "gen_io \<Rightarrow> string \<Rightarrow> string \<Rightarrow> int \<Rightarrow> f64 result" where
  "gen_money_supply io user pass algo =
     bind_result (gen_call io user pass ''getmoneysupply'' (JArr [j_int algo]))
       (\<lambda>j. bind_result (to_float_map j) (\<lambda>m. Inr (get_float m ''money supply'')))"

definition gen_block_reward :: "gen_io \<Rightarrow> string \<Rightarrow> string \<Rightarrow> int \<Rightarrow> f64 result" where
  "gen_block_reward io user pass algo =
     bind_result (gen_call io user pass ''getblockreward'' (JArr [j_int algo]))
       (\<lambda>j. bind_result (to_float_map j) (\<lambda>m. Inr (get_float m ''block reward'')))"

definition gen_nominal_block_reward :: "gen_io \<Rightarrow> string \<Rightarrow> string \<Rightarrow> int \<Rightarrow> f64 result" where
  "gen_nominal_block_reward io user pass algo =
     bind_result (gen_call io user pass ''getblockreward'' (JArr [j_int algo, j_int (-1), JBool True]))
       (\<lambda>j. bind_result (to_float_map j) (\<lambda>m. Inr (get_float m ''block reward'')))"

section \<open>Replies that are read back\<close>

definition reply_value :: "json \<Rightarrow> json" where
  "reply_value j = JObj [(''result'', j), (''error'', JNull), (''id'', JStr ''bitmark-indexer'')]"

text \<open>The text of a successful reply, ended by a newline.\<close>

definition reply_text :: "json \<Rightarrow> string" where
  "reply_text j = print_json (reply_value j) @ [CHR 0x0A]"

lemma ascii_utf8: "list_all (\<lambda>c. byte_val c < 0x80) s \<Longrightarrow> valid_utf8 s"
proof (induction s)
  case (Cons c s)
  then show ?case using rune_len_ascii [of c s] by (simp add: valid_utf8.simps [of "c # s"])
qed (simp add: valid_utf8.simps)

lemma unmarshal_print:
  "json_ok j \<Longrightarrow> \<not> open_ended j \<Longrightarrow> list_all is_space b \<Longrightarrow> unmarshal d z (print_json j @ b) = run_decoder d z j"
  by (simp add: unmarshal_def parse_print bind_result_def)

lemma names_utf8: "valid_utf8 ''result''" "valid_utf8 ''error''" "valid_utf8 ''id''" "valid_utf8 ''bitmark-indexer''"
    "valid_utf8 ''jsonrpc''" "valid_utf8 ''1.0''" "valid_utf8 ''method''" "valid_utf8 ''params''"
  by (rule ascii_utf8, simp add: byte_val_def)+

lemma reply_value_ok: "json_ok j \<Longrightarrow> json_ok (reply_value j)"
  by (simp add: reply_value_def names_utf8)

lemma decode_reply_value:
  "run_decoder (dec_struct reply_members) zero_reply (reply_value j) =
     Inr \<lparr>rr_result = Some j, rr_error = None, rr_id = ''bitmark-indexer''\<rparr>"
  by (simp add: run_decoder_def dec_struct_def reply_value_def zero_reply_def reply_members_def dec_member_def
      pick_member_def member_def dec_raw_def dec_pointer_def dec_string_def first_error_def)

lemma unmarshal_reply:
  assumes "json_ok j" and "list_all is_space b"
  shows "unmarshal (dec_struct reply_members) zero_reply (print_json (reply_value j) @ b) =
     Inr \<lparr>rr_result = Some j, rr_error = None, rr_id = ''bitmark-indexer''\<rparr>"
proof -
  have "\<not> open_ended (reply_value j)" by (simp add: open_ended_def reply_value_def)
  note unmarshal_print [OF reply_value_ok [OF assms(1)] this assms(2), of "dec_struct reply_members" zero_reply]
  also note decode_reply_value
  finally show ?thesis .
qed

lemma read_reply_text: "json_ok j \<Longrightarrow> read_reply (reply_text j) = Inr j"
  using unmarshal_reply [of j "[CHR 0x0A]"] by (simp add: read_reply_def reply_text_def is_space_def)

text \<open>A first answer with a success status decides the call.\<close>

lemma call_answered:
  assumes "auth_header io c 0 = Inr auth" and "io_request io = None"
    and "io_http io 0 auth (request_body meth params) = Reply status raw None" and "200 \<le> status" and "status < 300"
  shows "fst (call io c meth params) = read_reply (take (nat (cl_max_response c)) raw)"
proof -
  obtain k where "(if cl_cookie_file c \<noteq> '''' then 2 else (1 :: nat)) = Suc k" by (cases "cl_cookie_file c = ''''") auto
  then show ?thesis using assms by (simp add: call_def Let_def)
qed

section \<open>Properties\<close>

lemma call_attempts_bound: "length (snd (call_attempts io c reqBody n left e)) \<le> left"
  by (induction left arbitrary: n e)
    (simp_all add: Let_def case_prod_beta split: sum.split option.split http_outcome.split)

text \<open>C32: \<open>call\<close> sends at most two requests with a cookie file and at most one without; when the first
  answer is a 401 it reads the cookie file again, sends exactly one more request with the new cookie and
  returns what that one yields, so that a restart of the node (which regenerates the cookie) is survived;
  a second 401 is an ordinary HTTP error.\<close>

theorem call_retries_once:
  assumes "cl_cookie_file c \<noteq> ''''" and "io_request io = None"
    and "io_cookie io 0 = Inr old" and "io_cookie io 1 = Inr new"
    and "io_http io 0 (''Basic '' @ base64_encode (trim_space old)) (request_body meth params) = Reply 401 body0 None"
    and "io_http io 1 (''Basic '' @ base64_encode (trim_space new)) (request_body meth params) = Reply status body None"
  shows "call io c meth params =
     ((if status < 200 \<or> status \<ge> 300 then Inl (err_http status (take (nat (cl_max_response c)) body))
       else read_reply (take (nat (cl_max_response c)) body)),
      [''Basic '' @ base64_encode (trim_space old), ''Basic '' @ base64_encode (trim_space new)])"
  using assms by (simp add: call_def auth_header_def numeral_2_eq_2 Let_def)

text \<open>Whatever the node answers, \<open>call\<close> never sends more than two requests, and never more than one
  when it authenticates with user and password.\<close>

theorem call_request_bound:
  "length (snd (call io c meth params)) \<le> 2 \<and>
   (cl_cookie_file c = '''' \<longrightarrow> length (snd (call io c meth params)) \<le> 1)"
  using call_attempts_bound [of io c "request_body meth params" 0 "if cl_cookie_file c \<noteq> '''' then 2 else 1" "''''"]
  by (auto simp: call_def split: if_splits)

text \<open>C6: A block survives its way from the node into the indexer: whatever block the node has, as long as its numbers
  fit the Go types, when the node answers \<open>getblock\<close> with the JSON text of that block (with any members unknown to the
  indexer in between, absent optional members left out, and amounts printed so that they read back), then
  \<open>GetBlockVerbose2\<close> returns exactly that block: every field, every transaction, input and output, in order.\<close>

theorem block_survives_transport:
  assumes "readable_block show b" and "filter (knows_member block_members) kvs = node_block_members show b"
    and "json_ok (JObj kvs)" and "auth_header io c 0 = Inr auth" and "io_request io = None"
    and "io_http io 0 auth (request_body ''getblock'' (JArr [JStr hash, j_int 2])) = Reply 200 (reply_text (JObj kvs)) None"
    and "length (reply_text (JObj kvs)) \<le> nat (cl_max_response c)"
  shows "get_block_verbose2 io c hash = Inr b"
  using call_answered [OF assms(4-6)] read_reply_text [OF assms(3)] read_block [OF assms(1,2)] assms(7)
  by (simp add: get_block_verbose2_def bind_result_def)

text \<open>C21: An answer longer than \<open>RPC_MAX_RESPONSE_SIZE\<close> is cut off by the reader and then always reported as a decoding
  error, whatever it contains: no cut turns the text of a reply into the text of another value.\<close>

theorem cut_off_answer_is_an_error:
  assumes "json_ok j" and "auth_header io c 0 = Inr auth" and "io_request io = None"
    and "io_http io 0 auth (request_body meth params) = Reply status (reply_text j) None" and "200 \<le> status" and "status < 300"
    and "cl_max_response c < int (length (print_json (reply_value j)))"
  shows "\<exists>e. fst (call io c meth params) = Inl (''rpc decode: '' @ e)"
proof -
  let ?t = "print_json (reply_value j)" and ?n = "nat (cl_max_response c)"
  have "0 < length ?t" by (simp add: reply_value_def)
  then have n: "?n < length ?t" using assms(7) by (cases "0 \<le> cl_max_response c") (simp_all only: nat_less_iff not_le nat_le_0 less_imp_le)
  have "\<exists>e. parse_json (take ?n ?t) = Inl e"
    by (rule parse_prefix_fails [OF reply_value_ok [OF assms(1)], of _ "drop ?n ?t"])
      (use n in \<open>simp_all add: open_ended_def reply_value_def\<close>)
  then obtain e where "parse_json (take ?n (reply_text j)) = Inl e" using n by (auto simp: reply_text_def)
  then show ?thesis
    using call_answered [OF assms(2-6)] by (simp add: read_reply_def unmarshal_def bind_result_def)
qed

text \<open>The node reads back the method and the parameters of every request, of either client.\<close>

theorem request_read_back:
  assumes "valid_utf8 meth" and "json_ok params"
  shows "parse_json (request_body meth params) = Inr (request_value meth params) \<and>
     parse_json (print_json (gen_request meth params)) = Inr (gen_request meth params)"
  using parse_print [of "request_value meth params" "[]"] parse_print [of "gen_request meth params" "[]"] assms
  by (simp add: request_body_def)
    (simp add: request_value_def gen_request_def open_ended_def names_utf8 j_int_def is_number_itoa)

text \<open>The two programs read \<open>chaindynamics\<close> alike except for the block spacing: on the same answer the generator's
  figures are the indexer's with every spacing divided by 60, so one of the two is wrong about the unit.\<close>

theorem dynamics_differ_in_spacing:
  "gen_parse_dynamics raw = (parse_dynamics raw)\<lparr>cd_block_spacing := map (\<lambda>x. x / Fin 60) (cd_block_spacing (parse_dynamics raw))\<rparr>"
proof -
  have "Fin 0 / Fin 60 = (Fin 0 :: f64)" by code_simp
  then show ?thesis
    by (simp add: gen_parse_dynamics_def parse_dynamics_def dyn_field_def split: option.split)
qed

text \<open>The authorization header carries the credentials: decoding what follows \<open>Basic \<close> gives back
  \<open>user:password\<close>, or the trimmed cookie.\<close>

theorem auth_header_roundtrip:
  assumes "r_user cfg \<noteq> ''''" and "r_pass cfg \<noteq> ''''"
  shows "cl_static_auth (new_client cfg) = ''Basic '' @ base64_encode (r_user cfg @ '':'' @ r_pass cfg) \<and>
     base64_decode (drop 6 (cl_static_auth (new_client cfg))) = r_user cfg @ '':'' @ r_pass cfg"
  using assms by (simp add: new_client_def base64_decode_encode)

text \<open>The errors of a node that is overloaded or still loading its index are classified as transient
  by the ingestor, however the ingestor wraps them: any answer with HTTP status 503 and any RPC error that
  names \<open>Loading block index\<close>.\<close>

theorem overload_is_transient:
  "is_transient_rpc_err (x @ err_http 503 raw @ y) \<and>
   is_transient_rpc_err (x @ err_rpc code (a @ ''Loading block index'' @ b) @ y)"
proof
  have "contains (err_http 503 raw) (itoa 503)"
    unfolding contains_iff err_http_def
    by (intro exI [of _ "''rpc http ''"] exI [of _ "'': '' @ raw"]) simp
  moreover have "itoa 503 = ''503''" by code_simp
  ultimately have "is_transient_rpc_err (err_http 503 raw)" by (simp add: is_transient_rpc_err_def)
  then show "is_transient_rpc_err (x @ err_http 503 raw @ y)" by (rule is_transient_wrap)
  have "contains (err_rpc code (a @ ''Loading block index'' @ b)) ''Loading block index''"
    unfolding contains_iff err_rpc_def
    by (intro exI [of _ "''rpc error '' @ itoa code @ '': '' @ a"] exI [of _ b]) simp
  then have "is_transient_rpc_err (err_rpc code (a @ ''Loading block index'' @ b))"
    by (simp add: is_transient_rpc_err_def)
  then show "is_transient_rpc_err (x @ err_rpc code (a @ ''Loading block index'' @ b) @ y)"
    by (rule is_transient_wrap)
qed

definition sample_io :: rpc_io where
  "sample_io = \<lparr>io_cookie = (\<lambda>n. Inr (if n = 0 then ''__cookie__:old'' else ''__cookie__:new'')),
     io_request = None,
     io_http = (\<lambda>n auth body. if n = 0 then Reply 401 '''' None
        else Reply 200 (print_json (reply_value (j_int 42))) None)\<rparr>"

definition sample_client :: Client where
  "sample_client = \<lparr>cl_url = ''http://127.0.0.1:9266'', cl_static_auth = '''',
     cl_cookie_file = ''/home/coins/.bitmark/.cookie'', cl_max_response = 100\<rparr>"

theorem call_retries_once_witness:
  "fst (call sample_io sample_client ''getblockcount'' (JArr [])) = Inr (j_int 42) \<and>
   length (snd (call sample_io sample_client ''getblockcount'' (JArr []))) = 2"
proof -
  let ?raw = "print_json (reply_value (j_int 42))"
  have len: "length ?raw \<le> 100" by code_simp
  have "json_ok (j_int 42)" by (simp add: j_int_def is_number_itoa)
  then have "read_reply ?raw = Inr (j_int 42)"
    using unmarshal_reply [of "j_int 42" "[]"] by (simp add: read_reply_def)
  then have raw: "read_reply (take 100 ?raw) = Inr (j_int 42)" using len by simp
  show ?thesis
    using call_retries_once [of sample_client sample_io "''__cookie__:old''" "''__cookie__:new''" "''getblockcount''" "JArr []" "''''" 200 ?raw] raw
    by (simp add: sample_client_def sample_io_def del: print_json.simps)
qed

definition sample_rpc_config :: RPCConfig where
  "sample_rpc_config = \<lparr>r_url = ''http://n'', r_user = ''rpc'', r_pass = ''secret'', r_cookie_file = [],
     r_timeout = 1, r_insecure_tls = False, r_max_response_size = 1\<rparr>"

theorem auth_header_roundtrip_witness:
  "base64_decode (drop 6 (cl_static_auth (new_client sample_rpc_config))) =
     r_user sample_rpc_config @ '':'' @ r_pass sample_rpc_config"
proof -
  have "r_user sample_rpc_config \<noteq> []" "r_pass sample_rpc_config \<noteq> []"
    by (simp_all add: sample_rpc_config_def)
  from auth_header_roundtrip [OF this] show ?thesis by (rule conjunct2)
qed

definition sample_node_block :: BlockV2 where
  "sample_node_block = zero_block\<lparr>blk_hash := ''00ab'', blk_height := 7, blk_time := 1700000000, blk_nonce := 2 ^ 63,
     blk_difficulty := Fin (3 / 2), blk_algo_id := Some 2,
     blk_tx := [zero_tx\<lparr>tx_txid := ''c0'', tx_version := Some 1,
       tx_vin := [zero_tx_in\<lparr>in_coinbase := ''03aa'', in_sequence := Some 4294967295\<rparr>],
       tx_vout := [zero_tx_out\<lparr>out_value := Fin 20, out_spk := zero_script_pub_key\<lparr>spk_type := ''pubkeyhash'', spk_addresses := [''bA'']\<rparr>\<rparr>]\<rparr>]\<rparr>"

definition sample_show :: "f64 \<Rightarrow> string" where
  "sample_show x = (if x = Fin 20 then ''20.00000000'' else ''15e-1'')"

definition sample_node_object :: json where
  "sample_node_object = JObj ((''mediantime'', j_int 5) # node_block_members sample_show sample_node_block @ [(''confirmed'', JNull)])"

definition sample_node_io :: "string \<Rightarrow> rpc_io" where
  "sample_node_io raw = \<lparr>io_cookie = (\<lambda>n. Inl ''none''), io_request = None, io_http = (\<lambda>n auth body. Reply 200 raw None)\<rparr>"

definition sample_node_client :: "int \<Rightarrow> Client" where
  "sample_node_client limit = \<lparr>cl_url = ''http://n'', cl_static_auth = ''Basic cnBjOnNlY3JldA=='', cl_cookie_file = '''', cl_max_response = limit\<rparr>"

lemma sample_block_readable: "readable_block sample_show sample_node_block"
  by code_simp

lemma sample_object_ok: "json_ok sample_node_object"
  by code_simp

lemma sample_reply_length: "length (reply_text sample_node_object) \<le> 1000"
  by code_simp

theorem block_survives_transport_witness:
  "get_block_verbose2 (sample_node_io (reply_text sample_node_object)) (sample_node_client 1000) ''00ab'' = Inr sample_node_block"
  unfolding sample_node_object_def
proof (rule block_survives_transport [OF sample_block_readable])
  show "filter (knows_member block_members)
      ((''mediantime'', j_int 5) # node_block_members sample_show sample_node_block @ [(''confirmed'', JNull)]) =
    node_block_members sample_show sample_node_block" by code_simp
  show "length (reply_text (JObj ((''mediantime'', j_int 5) # node_block_members sample_show sample_node_block @ [(''confirmed'', JNull)])))
    \<le> nat (cl_max_response (sample_node_client 1000))"
    using sample_reply_length by (simp add: sample_node_client_def sample_node_object_def)
qed (use sample_object_ok in \<open>simp_all add: sample_node_io_def sample_node_client_def auth_header_def sample_node_object_def del: json_ok.simps\<close>)

theorem cut_off_answer_is_an_error_witness:
  "\<exists>e. fst (call (sample_node_io (reply_text (j_int 42))) (sample_node_client 20) ''getblockcount'' (JArr [])) = Inl (''rpc decode: '' @ e)"
proof (rule cut_off_answer_is_an_error [where status = 200])
  show "cl_max_response (sample_node_client 20) < int (length (print_json (reply_value (j_int 42))))" by code_simp
qed (simp_all add: sample_node_io_def sample_node_client_def auth_header_def j_int_def is_number_itoa)

end
