(* ===== verification/Algo_Stats.thy ===== *)
theory Algo_Stats
  imports Schema Node_Rpc
begin

text \<open>
  \<open>indexer/internal/ingest/algo_stats.go\<close>: the per-algorithm statistics read from the node on every
  block and upserted one row at a time, and \<open>nominalEpochReward\<close>, which inverts the CERM reward
  formula in floating point and snaps the result to the epoch schedule. The main result bounds all
  rounding errors of the inversion.
\<close>

section \<open>The epoch schedule\<close>

text \<open>The table is built while the reward is at least \<open>1e-6\<close>; \<open>n\<close> counts its entries so far.\<close>

fun epochs_from :: "nat \<Rightarrow> f64 \<Rightarrow> nat \<Rightarrow> f64 list" where
  "epochs_from 0 v n = []"
| "epochs_from (Suc fuel) v n =
     (if lit (1 / 1000000) \<le> v
      then v # epochs_from fuel (if odd (Suc n) then v * lit (3 / 4) else v * lit (2 / 3)) (Suc n)
      else [])"

definition epochs :: "f64 list" where
  "epochs = epochs_from 64 (Fin 20) 0"

definition clamped_esf :: "f64 \<Rightarrow> f64 \<Rightarrow> f64" where
  "clamped_esf hashrate peak =
     (if Fin 0 < peak then (let esf = hashrate / peak in if esf > Fin 1 then Fin 1 else esf) else Fin 0)"

definition raw_nominal :: "f64 \<Rightarrow> f64 \<Rightarrow> f64" where
  "raw_nominal reward esf =
     (let denom = Fin 1 + esf in if denom > Fin 0 then reward * Fin 2 / denom else Fin 0)"

definition snap_step :: "f64 \<Rightarrow> f64 \<Rightarrow> f64 \<Rightarrow> f64" where
  "snap_step raw e best = (if f_abs (raw - e) < f_abs (raw - best) then e else best)"

definition nominal_epoch_reward :: "f64 \<Rightarrow> f64 \<Rightarrow> f64 \<Rightarrow> f64" where
  "nominal_epoch_reward blockReward hashrate peakHashrate =
     fold (snap_step (raw_nominal blockReward (clamped_esf hashrate peakHashrate))) (tl epochs) (hd epochs)"

text \<open>
  The table in closed form: the roundings of both factors cancel, so the entries are exactly
  \<open>20 / 2 ^ i\<close> and \<open>15 / 2 ^ i\<close>, 49 of them, and the loop ends before its fuel does.
\<close>

definition epoch_val :: "nat \<Rightarrow> rat" where
  "epoch_val k = (if even k then 20 else 15) * pow2 (- int (k div 2))"

lemma epoch_factors:
  "lit (3 / 4) = Fin (3 / 4)" "lit (2 / 3) = Fin (6004799503160661 / 9007199254740992)"
  "round64 15 = 15" "round64 (90071992547409915 / 9007199254740992) = 10"
  by code_simp+

lemma fl_Fin_pos: "0 < round64 q \<Longrightarrow> \<bar>q\<bar> \<le> pow2 1000 \<Longrightarrow> fl s q = Fin (round64 q)"
  using fl_finite [of q s] by (cases "fl s q") (auto simp: is_fin_def f_val_def)

lemma epoch_step:
  assumes "k < 60"
  shows "Fin (epoch_val k) * (if odd (Suc k) then lit (3 / 4) else lit (2 / 3)) = Fin (epoch_val (Suc k))"
proof -
  define j where "j = - int (k div 2)"
  define c :: rat where "c = (if even k then 3 / 4 else 6004799503160661 / 9007199254740992)"
  define b :: rat where "b = (if even k then 20 else 15)"
  have j: "- 100 \<le> j" using assms by (simp add: j_def)
  have p1: "pow2 (- 900) \<le> 1" using pow2_mono [of "- 900" 0] by (simp add: pow2_def [of 0])
  have "1 \<le> b * c" "0 < b * c" "b * c \<le> 20" by (simp_all add: b_def c_def)
  then have bc: "pow2 (- 900) \<le> \<bar>b * c\<bar>" "\<bar>b * c\<bar> \<le> 20" using p1 by simp_all
  have r: "round64 (b * c) * pow2 j = epoch_val (Suc k)"
  proof (cases "even k")
    case True
    then show ?thesis by (simp add: b_def c_def epoch_factors(3) epoch_val_def j_def)
  next
    case False
    then have "Suc k div 2 = Suc (k div 2)" by presburger
    moreover have "pow2 (- 1 - int (k div 2)) * 2 = pow2 (- int (k div 2))"
      using pow2_add [of "- 1 - int (k div 2)" 1] by (simp add: pow2_def [of 1])
    ultimately show ?thesis
      using False by (simp add: b_def c_def epoch_factors(4) epoch_val_def j_def algebra_simps)
  qed
  have ev: "epoch_val k = b * pow2 j" by (simp add: epoch_val_def b_def j_def)
  have prod: "round64 (epoch_val k * c) = epoch_val (Suc k)"
    using round64_scale [OF bc(1) j] r by (simp add: ev mult_ac)
  have pos: "0 < epoch_val (Suc k)" by (simp add: epoch_val_def)
  have pj: "pow2 j \<le> 1" using pow2_mono [of j 0] by (simp add: j_def pow2_def [of 0])
  have "\<bar>epoch_val k * c\<bar> = \<bar>b * c\<bar> * pow2 j" by (simp add: ev abs_mult mult_ac less_imp_le)
  also have "\<dots> \<le> 20 * 1" using bc(2) pj by (intro mult_mono) (simp_all add: less_imp_le)
  also have "\<dots> \<le> pow2 1000" using pow2_mono [of 5 1000] by (simp add: pow2_def [of 5])
  finally have big: "\<bar>epoch_val k * c\<bar> \<le> pow2 1000" .
  have "Fin (epoch_val k) * Fin c = fl (f_neg (Fin (epoch_val k)) \<noteq> f_neg (Fin c)) (epoch_val k * c)"
    by (simp add: times_f64_def f_mul_def Let_def)
  also have "\<dots> = Fin (epoch_val (Suc k))"
    using fl_Fin_pos [OF _ big] prod pos by simp
  finally show ?thesis by (auto simp: c_def epoch_factors)
qed

lemma epoch_val_pos [simp]: "0 < epoch_val k"
  by (simp add: epoch_val_def)

lemma epoch_val_Suc: "epoch_val (Suc k) \<le> epoch_val k * 3 / 4"
proof (cases "even k")
  case False
  then have "Suc k div 2 = Suc (k div 2)" by presburger
  moreover have "pow2 (- 1 - int (k div 2)) * 2 = pow2 (- int (k div 2))"
    using pow2_add [of "- 1 - int (k div 2)" 1] by (simp add: pow2_def [of 1])
  ultimately show ?thesis using False pow2_pos [of "- 1 - int (k div 2)"]
    by (simp add: epoch_val_def del: pow2_pos)
qed (simp add: epoch_val_def)

lemma epoch_val_less: "k < j \<Longrightarrow> epoch_val j \<le> epoch_val k * 3 / 4"
proof (induction j)
  case (Suc j)
  show ?case
  proof (cases "k = j")
    case False
    then have "epoch_val j \<le> epoch_val k * 3 / 4" using Suc by simp
    then show ?thesis using epoch_val_Suc [of j] epoch_val_pos [of j] by linarith
  qed (use epoch_val_Suc in simp)
qed simp

lemma epoch_val_gap: "j \<noteq> k \<Longrightarrow> epoch_val k / 4 \<le> \<bar>epoch_val j - epoch_val k\<bar>"
  using epoch_val_less [of k j] epoch_val_less [of j k] epoch_val_pos [of j] epoch_val_pos [of k]
  by (cases "k < j") (auto simp: abs_if)

lemma epoch_ends: "epoch_val 0 = 20" "epoch_val 48 = 20 / 16777216" "epoch_val 49 = 15 / 16777216"
  by (simp_all add: epoch_val_def pow2_def power_int_def power_divide)

lemma epoch_val_le_20: "epoch_val k \<le> 20"
  using epoch_val_less [of 0 k] epoch_ends(1) by (cases k) auto

lemma epoch_guard: "k \<le> 49 \<Longrightarrow> lit (1 / 1000000) \<le> Fin (epoch_val k) \<longleftrightarrow> k < 49"
proof -
  assume k: "k \<le> 49"
  have "\<bar>(1::rat) / 1000000\<bar> \<le> pow2 1000" using pow2_mono [of 0 1000] by (simp add: pow2_def [of 0])
  note l = fl_finite [OF this, of False, folded lit_def]
  have cl: "\<bar>round64 (1 / 1000000) - 1 / 1000000\<bar> \<le> 1 / 10 ^ 10"
    using round64_close [of "1 / 1000000"] by simp
  have ev: "20 / 16777216 \<le> epoch_val k" if "k < 49"
  proof (cases "k = 48")
    case False
    with that have "epoch_val 48 \<le> epoch_val k * 3 / 4" by (intro epoch_val_less) simp
    then show ?thesis unfolding epoch_ends using epoch_val_pos [of k] by linarith
  qed (simp add: epoch_ends)
  have "lit (1 / 1000000) \<le> Fin (epoch_val k) \<longleftrightarrow> round64 (1 / 1000000) \<le> epoch_val k"
    using l by (cases "lit (1 / 1000000)") (auto simp: less_eq_f64_def is_fin_def f_val_def)
  also have "\<dots> \<longleftrightarrow> k < 49"
  proof (cases "k < 49")
    case True
    have "round64 (1 / 1000000) \<le> 1 / 1000000 + 1 / 10 ^ 10" using cl by linarith
    then show ?thesis using True ev by simp
  next
    case False
    then have "k = 49" using k by simp
    moreover have "1 / 1000000 - 1 / 10 ^ 10 \<le> round64 (1 / 1000000)" using cl by linarith
    ultimately show ?thesis by (simp add: epoch_ends)
  qed
  finally show ?thesis .
qed

lemma epochs_from_closed:
  "k \<le> 49 \<Longrightarrow> 50 - k \<le> fuel \<Longrightarrow> epochs_from fuel (Fin (epoch_val k)) k = map (\<lambda>i. Fin (epoch_val i)) [k ..< 49]"
proof (induction fuel arbitrary: k)
  case (Suc fuel)
  show ?case
  proof (cases "k < 49")
    case True
    have "epochs_from fuel (Fin (epoch_val (Suc k))) (Suc k) = map (\<lambda>i. Fin (epoch_val i)) [Suc k ..< 49]"
      by (rule Suc.IH) (use True Suc.prems in simp_all)
    moreover have "[k ..< 49] = k # [Suc k ..< 49]" using True by (simp add: upt_rec)
    ultimately show ?thesis using True epoch_guard [of k] epoch_step [of k] Suc.prems by (auto split: if_splits)
  next
    case False
    then show ?thesis using epoch_guard [of k] Suc.prems by simp
  qed
qed simp

lemma epochs_closed: "epochs = map (\<lambda>i. Fin (epoch_val i)) [0 ..< 49]"
  using epochs_from_closed [of 0 64] by (simp add: epochs_def epoch_ends(1))


section \<open>Snapping to the nearest entry\<close>

text \<open>A fold that keeps the strictly closer element ends at an element that beats all others.\<close>

lemma fold_closest:
  assumes "v = best \<or> v \<in> set es"
    and "\<And>e. e = best \<or> e \<in> set es \<Longrightarrow> e \<noteq> v \<Longrightarrow> D v < D e \<and> \<not> D e < D v"
  shows "fold (\<lambda>e best. if D e < D best then e else best) es best = (v :: f64)"
  using assms
proof (induction es arbitrary: best)
  case (Cons e es)
  let ?b = "if D e < D best then e else best"
  have "v = ?b \<or> v \<in> set es"
  proof (cases "v \<in> set es")
    case False
    then have "v = best \<or> v = e" using Cons.prems(1) by auto
    then show ?thesis
      using Cons.prems(2) [of e] Cons.prems(2) [of best] by (cases "best = e"; cases "v = e"; simp)
  qed simp
  moreover have "D v < D x \<and> \<not> D x < D v" if "x = ?b \<or> x \<in> set es" "x \<noteq> v" for x
    by (rule Cons.prems(2)) (use that in \<open>auto split: if_splits\<close>)
  ultimately have "fold (\<lambda>e best. if D e < D best then e else best) es ?b = v"
    by (rule Cons.IH)
  then show ?case by simp
qed simp

lemma snap_mem: "fold (snap_step raw) es best = best \<or> fold (snap_step raw) es best \<in> set es"
proof (induction es arbitrary: best)
  case (Cons e es)
  from Cons [of "snap_step raw e best"] show ?case by (auto simp: snap_step_def)
qed simp

lemma epochs_split: "epochs = hd epochs # tl epochs" "epochs \<noteq> []"
  by (simp_all add: epochs_closed upt_rec [of 0])

lemma nominal_epoch_reward_mem: "nominal_epoch_reward b h p \<in> set epochs"
  using snap_mem [of "raw_nominal b (clamped_esf h p)" "tl epochs" "hd epochs"] epochs_split
  by (metis list.set_intros nominal_epoch_reward_def)

lemma small_pow2: "\<bar>x\<bar> \<le> 1000 \<Longrightarrow> \<bar>x\<bar> \<le> pow2 1000"
  using pow2_mono [of 10 1000] by (simp add: pow2_def [of 10])

text \<open>Distances in floating point: the exact distance, up to a tiny error.\<close>

lemma float_distance:
  assumes "is_fin x" and "is_fin y" and "\<bar>f_val x - f_val y\<bar> \<le> 100"
  shows "is_fin (f_abs (x - y))"
    and "\<bar>f_val (f_abs (x - y)) - \<bar>f_val x - f_val y\<bar>\<bar> \<le> 1 / 1000000000"
proof -
  have "\<bar>f_val x - f_val y\<bar> \<le> pow2 1000" by (rule small_pow2) (use assms in linarith)
  note d = f_diff_fin [OF assms(1,2) this]
  show "is_fin (f_abs (x - y))" using d(1) by (rule f_abs_fin)
  have "\<bar>round64 (f_val x - f_val y) - (f_val x - f_val y)\<bar> \<le> 1 / 1000000000"
    using round64_close [of "f_val x - f_val y"] assms(3) by simp
  then show "\<bar>f_val (f_abs (x - y)) - \<bar>f_val x - f_val y\<bar>\<bar> \<le> 1 / 1000000000"
    using f_abs_fin(2) [OF d(1)] d(2) by linarith
qed

text \<open>A raw value within a tenth of an entry, give or take, is snapped to it.\<close>

lemma snap_to_epoch:
  assumes "is_fin raw" and "k < 49" and "\<bar>f_val raw - epoch_val k\<bar> \<le> epoch_val k * 11 / 100"
  shows "fold (snap_step raw) (tl epochs) (hd epochs) = Fin (epoch_val k)"
proof -
  let ?D = "\<lambda>e. f_abs (raw - e)"
  have ends: "20 / 16777216 \<le> epoch_val k" "epoch_val k \<le> 20"
    using epoch_val_less [of k 48] epoch_ends(2) assms(2) epoch_val_pos [of k] epoch_val_le_20
    by (cases "k = 48"; force)+
  have R: "\<bar>f_val raw\<bar> \<le> 23" using assms(3) ends by linarith
  have dist: "is_fin (?D (Fin (epoch_val j)))"
    "\<bar>f_val (?D (Fin (epoch_val j))) - \<bar>f_val raw - epoch_val j\<bar>\<bar> \<le> 1 / 1000000000" for j
  proof -
    have "\<bar>f_val raw - f_val (Fin (epoch_val j))\<bar> \<le> 100"
      unfolding is_fin_Fin using R epoch_val_pos [of j] epoch_val_le_20 [of j] by linarith
    note d = float_distance [OF assms(1) is_fin_Fin(1) this]
    show "is_fin (?D (Fin (epoch_val j)))" by (rule d(1))
    show "\<bar>f_val (?D (Fin (epoch_val j))) - \<bar>f_val raw - epoch_val j\<bar>\<bar> \<le> 1 / 1000000000"
      using d(2) unfolding is_fin_Fin .
  qed
  have "?D (Fin (epoch_val k)) < ?D (Fin (epoch_val j)) \<and> \<not> ?D (Fin (epoch_val j)) < ?D (Fin (epoch_val k))"
    if "j \<noteq> k" for j
  proof -
    have "f_val (?D (Fin (epoch_val k))) < f_val (?D (Fin (epoch_val j)))"
      using dist(2) [of k] dist(2) [of j] epoch_val_gap [OF that] assms(3) ends(1) by linarith
    then show ?thesis using dist(1) by (simp add: f_less_fin)
  qed
  note nearer = this
  have closest: "?D (Fin (epoch_val k)) < ?D e \<and> \<not> ?D e < ?D (Fin (epoch_val k))"
    if "e \<in> set epochs" "e \<noteq> Fin (epoch_val k)" for e
  proof -
    from that obtain j where "e = Fin (epoch_val j)" "j \<noteq> k" by (auto simp: epochs_closed)
    then show ?thesis using nearer by blast
  qed
  have step: "snap_step raw = (\<lambda>e best. if ?D e < ?D best then e else best)"
    by (intro ext) (simp add: snap_step_def)
  have "Fin (epoch_val k) \<in> set epochs" using assms(2) by (simp add: epochs_closed)
  then have mem: "Fin (epoch_val k) = hd epochs \<or> Fin (epoch_val k) \<in> set (tl epochs)"
    by (subst (asm) epochs_split(1)) simp
  have sub: "e \<in> set epochs" if "e = hd epochs \<or> e \<in> set (tl epochs)" for e
    using that epochs_split(2) by (auto intro: list.set_sel)
  show ?thesis
    unfolding step by (rule fold_closest [OF mem]) (rule closest [OF sub])
qed


section \<open>Inverting the reward formula\<close>

text \<open>The clamped ESF is the true ratio up to a tiny error, also where the quotient rounds above 1.\<close>

lemma clamped_esf_close:
  assumes "is_fin h" and "is_fin p" and "0 < f_val p" and "0 \<le> f_val h" and "f_val h \<le> f_val p"
  shows "is_fin (clamped_esf h p)"
    and "\<bar>f_val (clamped_esf h p) - f_val h / f_val p\<bar> \<le> 1 / 100000000000"
proof -
  define e where "e = f_val h / f_val p"
  have e: "0 \<le> e" "e \<le> 1" using assms(3-5) by (simp_all add: e_def)
  have "\<bar>f_val h / f_val p\<bar> \<le> pow2 1000" using e by (intro small_pow2) (simp add: e_def)
  note d = f_div_fin [OF assms(1,2) _ this]
  have q: "is_fin (h / p)" "f_val (h / p) = round64 e" using d assms(3) by (simp_all add: e_def)
  have cl: "\<bar>round64 e - e\<bar> \<le> 1 / 100000000000" using round64_close [of e] e by simp
  have pos: "Fin 0 < p" using assms(2,3) by (simp add: f_less_fin)
  have le1: "Fin 1 < h / p \<longleftrightarrow> 1 < round64 e" using q by (simp add: f_less_fin)
  show "is_fin (clamped_esf h p)" using pos q(1) by (simp add: clamped_esf_def Let_def)
  show "\<bar>f_val (clamped_esf h p) - f_val h / f_val p\<bar> \<le> 1 / 100000000000"
  proof (cases "1 < round64 e")
    case True
    then have "\<bar>1 - e\<bar> \<le> 1 / 100000000000" using cl e by linarith
    then show ?thesis using True pos le1 by (simp add: clamped_esf_def Let_def e_def)
  next
    case False
    then show ?thesis using pos le1 cl q by (simp add: clamped_esf_def Let_def e_def)
  qed
qed

lemma round64_within: "\<bar>q\<bar> \<le> 100 \<Longrightarrow> \<bar>round64 q - q\<bar> \<le> 1 / 1000000000"
  using round64_close [of q] by simp

lemma round64_within_3: "\<bar>q\<bar> \<le> 3 \<Longrightarrow> \<bar>round64 q - q\<bar> \<le> 1 / 100000000000"
  using round64_close [of q] by simp

lemma raw_nominal_close:
  assumes br: "is_fin br" and esf: "is_fin esf" "\<bar>f_val esf - e\<bar> \<le> 1 / 100000000000" "0 \<le> e" "e \<le> 1"
    and v: "1 / 1000000 \<le> v" "v \<le> 20" and close: "\<bar>f_val br - v / 2 * (1 + e)\<bar> \<le> v / 20"
  shows "is_fin (raw_nominal br esf)" and "\<bar>f_val (raw_nominal br esf) - v\<bar> \<le> v * 11 / 100"
proof -
  have "\<bar>f_val (Fin 1) + f_val esf\<bar> \<le> pow2 1000" unfolding is_fin_Fin
    by (rule small_pow2) (use esf in linarith)
  note add = f_add_fin [OF is_fin_Fin(1) esf(1) this, unfolded is_fin_Fin]
  define D where "D = round64 (1 + f_val esf)"
  have "\<bar>D - (1 + f_val esf)\<bar> \<le> 1 / 100000000000"
    unfolding D_def by (rule round64_within_3) (use esf in linarith)
  then have D: "\<bar>D - (1 + e)\<bar> \<le> 2 / 100000000000" using esf(2) by linarith
  have ve: "0 \<le> v * e" "v * e \<le> v" using v esf(3,4) by (simp_all add: mult_left_le)
  have "v / 2 * (1 + e) = v / 2 + v * e / 2" by (simp add: field_simps)
  then have cl: "\<bar>f_val br - (v / 2 + v * e / 2)\<bar> \<le> v / 20" using close by (simp only:)
  have b: "\<bar>f_val br\<bar> \<le> 21" using cl ve v by linarith
  have "\<bar>f_val br * f_val (Fin 2)\<bar> \<le> pow2 1000" by (rule small_pow2) (use b in simp)
  note mul = f_mul_fin [OF br is_fin_Fin(1) this, unfolded is_fin_Fin]
  define M where "M = round64 (f_val br * 2)"
  have "\<bar>M - f_val br * 2\<bar> \<le> 1 / 1000000000"
    unfolding M_def by (rule round64_within) (use b in linarith)
  then have M: "\<bar>M - v * (1 + e)\<bar> \<le> v / 10 + 1 / 1000000000"
    using cl by (simp only: distrib_left mult_1_right)
  have "\<bar>v * (1 + e) - v * D\<bar> = v * \<bar>D - (1 + e)\<bar>" 
    using v by (simp add: abs_mult abs_minus_commute flip: right_diff_distrib)
  also have "\<dots> \<le> 20 * (2 / 100000000000)" using v D by (intro mult_mono) simp_all
  finally have MD: "\<bar>M - v * D\<bar> \<le> v / 10 + 2 / 1000000000" using M by linarith
  have Dpos: "99 / 100 \<le> D" using D esf(3) by linarith
  have D0: "0 < D" using Dpos by linarith
  have "M / D - v = (M - v * D) / D" using D0 by (simp add: diff_divide_distrib)
  then have "\<bar>M / D - v\<bar> = \<bar>M - v * D\<bar> / D" using D0 by (simp add: abs_divide)
  also have "\<dots> \<le> (v / 10 + 2 / 1000000000) / (1 - 1 / 1000000000)"
    by (rule frac_le) (use MD v D esf(3) in \<open>linarith+\<close>)
  also have "\<dots> \<le> v * 105 / 1000" using v by simp
  finally have R0: "\<bar>M / D - v\<bar> \<le> v * 105 / 1000" .
  have mx: "is_fin (br * Fin 2)" "f_val (br * Fin 2) = M" using mul by (simp_all add: M_def)
  have dx: "is_fin (Fin 1 + esf)" "f_val (Fin 1 + esf) = D" using add by (simp_all add: D_def)
  have small: "\<bar>M / D\<bar> \<le> 100" using R0 v by linarith
  have "\<bar>f_val (br * Fin 2) / f_val (Fin 1 + esf)\<bar> \<le> pow2 1000"
    unfolding mx dx by (rule small_pow2) (use small in linarith)
  note div = f_div_fin [OF mx(1) dx(1) _ this, unfolded mx dx]
  have raw: "raw_nominal br esf = br * Fin 2 / (Fin 1 + esf)"
    using D0 dx by (simp add: raw_nominal_def Let_def f_less_fin)
  show "is_fin (raw_nominal br esf)" using div(1) D0 by (simp add: raw)
  have "f_val (raw_nominal br esf) = round64 (M / D)" using div(2) D0 by (simp add: raw)
  then show "\<bar>f_val (raw_nominal br esf) - v\<bar> \<le> v * 11 / 100"
    using round64_within [OF small] R0 v by linarith
qed

section \<open>The update\<close>

text \<open>
  A table written with \<open>INSERT ... ON CONFLICT DO UPDATE\<close>: the row of a present key is merged with the
  new one, any other row is left alone.
\<close>

locale upsert_table =
  fixes key :: "'r \<Rightarrow> 'k" and rows :: "'d \<Rightarrow> 'r list" and ups :: "'r \<Rightarrow> 'd \<Rightarrow> 'd" and merge :: "'r \<Rightarrow> 'r \<Rightarrow> 'r"
  assumes ups_absent: "key r \<notin> key ` set (rows d) \<Longrightarrow> rows (ups r d) = rows d @ [r]"
    and ups_present: "key r \<in> key ` set (rows d) \<Longrightarrow>
      rows (ups r d) = map (\<lambda>s. if key s = key r then merge s r else s) (rows d)"
    and key_merge: "key s = key r \<Longrightarrow> key (merge s r) = key r"
begin

definition lookup :: "'k \<Rightarrow> 'd \<Rightarrow> 'r option" where
  "lookup k d = find (\<lambda>s. key s = k) (rows d)"

lemma lookup_map: "find (\<lambda>s. key s = k) (map (\<lambda>s. if key s = key r then merge s r else s) xs) =
   map_option (\<lambda>s. if key s = key r then merge s r else s) (find (\<lambda>s. key s = k) xs)"
  by (induction xs) (auto simp: key_merge)

lemma lookup_absent_iff: "k \<notin> key ` set (rows d) \<longleftrightarrow> lookup k d = None"
  by (auto simp: lookup_def find_None_iff)

lemma lookup_ups:
  "lookup k (ups r d) =
     (if k = key r then Some (case lookup k d of None \<Rightarrow> r | Some s \<Rightarrow> merge s r) else lookup k d)"
proof (cases "key r \<in> key ` set (rows d)")
  case True
  then obtain s where s: "lookup (key r) d = Some s" using lookup_absent_iff by blast
  note eq = lookup_map [of k r "rows d", folded ups_present [OF True]]
  show ?thesis
  proof (cases "k = key r")
    case True
    have "key s = key r" using s unfolding lookup_def by (auto dest: find_Some_mem)
    then show ?thesis using True s eq by (simp add: lookup_def)
  next
    case False
    have "key t = k" if "lookup k d = Some t" for t
      using that unfolding lookup_def by (auto dest: find_Some_mem)
    then show ?thesis using False eq by (cases "lookup k d") (auto simp: lookup_def)
  qed
next
  case False
  then have n: "lookup (key r) d = None" using lookup_absent_iff by blast
  show ?thesis
    using ups_absent [OF False] n unfolding lookup_def
    by (auto simp: find_snoc split: option.splits)
qed

lemma distinct_ups: "distinct (map key (rows d)) \<Longrightarrow> distinct (map key (rows (ups r d)))"
proof (cases "key r \<in> key ` set (rows d)")
  case True
  have "map key (map (\<lambda>s. if key s = key r then merge s r else s) (rows d)) = map key (rows d)"
    by (auto simp: key_merge)
  then show "distinct (map key (rows d)) \<Longrightarrow> ?thesis" by (simp only: ups_present [OF True])
qed (auto simp: ups_absent)

end

definition sql_upsert_algo :: "algo_row \<Rightarrow> db \<Rightarrow> db" where
  "sql_upsert_algo r d =
     d\<lparr>d_algos := (if a_algo_id r \<in> a_algo_id ` set (d_algos d)
        then map (\<lambda>s. if a_algo_id s = a_algo_id r then r else s) (d_algos d) else d_algos d @ [r])\<rparr>"

interpretation algo_table: upsert_table a_algo_id d_algos sql_upsert_algo "\<lambda>s r. r"
  by unfold_locales (auto simp: sql_upsert_algo_def)

definition find_algo :: "int \<Rightarrow> db \<Rightarrow> algo_row option" where
  "find_algo i d = find (\<lambda>s. a_algo_id s = i) (d_algos d)"

lemma find_algo_lookup: "algo_table.lookup i d = find_algo i d"
  by (simp add: algo_table.lookup_def find_algo_def)

text \<open>The node's answers and the fault of the upsert of each algorithm.\<close>

record algo_env =
  ae_dynamics :: "ChainDynamicsResult result"
  ae_supply :: "int \<Rightarrow> f64 result"
  ae_reward :: "int \<Rightarrow> f64 result"
  ae_exec :: "int \<Rightarrow> string option"

definition money_sats :: "f64 \<Rightarrow> int" where
  "money_sats ms = i64_of_f (ms * lit 100000000)"

definition algo_row_of :: "ChainDynamicsResult \<Rightarrow> int \<Rightarrow> f64 \<Rightarrow> f64 \<Rightarrow> algo_row" where
  "algo_row_of cd idx ms br =
     (let i = nat idx
      in \<lparr>a_algo_id = idx, a_algo_name = algo_id_to_name idx, a_difficulty = cd_difficulty cd ! i,
          a_hashrate = cd_hashrate cd ! i, a_peak_hashrate = cd_peak_hashrate cd ! i,
          a_money_supply = money_sats ms, a_block_reward = br,
          a_nominal_block_reward = nominal_epoch_reward br (cd_hashrate cd ! i) (cd_peak_hashrate cd ! i),
          a_nssf_remaining = cd_nssf_blocks cd ! i, a_block_spacing = cd_block_spacing cd ! i\<rparr>)"

definition err_algo :: "string \<Rightarrow> int \<Rightarrow> string \<Rightarrow> string" where
  "err_algo what idx e = what @ ''('' @ itoa idx @ ''): '' @ e"

text \<open>The loop over the algorithms; each upsert commits on its own.\<close>

fun update_algos :: "algo_env \<Rightarrow> ChainDynamicsResult \<Rightarrow> int list \<Rightarrow> db \<Rightarrow> unit result \<times> db" where
  "update_algos env cd [] d = (Inr (), d)"
| "update_algos env cd (idx # is) d =
     (case ae_supply env idx of
        Inl e \<Rightarrow> (Inl (err_algo ''getmoneysupply'' idx e), d)
      | Inr ms \<Rightarrow>
          (case ae_reward env idx of
             Inl e \<Rightarrow> (Inl (err_algo ''getblockreward'' idx e), d)
           | Inr br \<Rightarrow>
               (case ae_exec env idx of
                  Some e \<Rightarrow> (Inl (''upsert algo_stats_current(algo='' @ itoa idx @ ''): '' @ e), d)
                | None \<Rightarrow> update_algos env cd is (sql_upsert_algo (algo_row_of cd idx ms br) d))))"

definition do_update_algo_stats :: "algo_env \<Rightarrow> db \<Rightarrow> unit result \<times> db" where
  "do_update_algo_stats env d =
     (case ae_dynamics env of
        Inl e \<Rightarrow> (Inl (''chaindynamics: '' @ e), d)
      | Inr cd \<Rightarrow> update_algos env cd [0 .. 7] d)"

text \<open>The error is only logged.\<close>

definition refresh_algo_stats :: "algo_env \<Rightarrow> db \<Rightarrow> db" where
  "refresh_algo_stats env d = snd (do_update_algo_stats env d)"

lemma update_algos_frame: "\<exists>as. snd (update_algos env cd is d) = d\<lparr>d_algos := as\<rparr>"
proof (induction "is" arbitrary: d)
  case (Cons idx "is")
  have "\<exists>as. d = d\<lparr>d_algos := as\<rparr>" by (rule exI [of _ "d_algos d"]) simp
  moreover have "\<exists>as. snd (update_algos env cd is (sql_upsert_algo r d)) = d\<lparr>d_algos := as\<rparr>" for r
    using Cons.IH [of "sql_upsert_algo r d"] by (auto simp: sql_upsert_algo_def)
  ultimately show ?case by (simp split: sum.split option.split)
next
  case Nil
  then show ?case by (intro exI [of _ "d_algos d"]) simp
qed

lemma refresh_algo_stats_frame: "\<exists>as. refresh_algo_stats env d = d\<lparr>d_algos := as\<rparr>"
proof -
  have "\<exists>as. d = d\<lparr>d_algos := as\<rparr>" by (rule exI [of _ "d_algos d"]) simp
  then show ?thesis
    using update_algos_frame by (auto simp: refresh_algo_stats_def do_update_algo_stats_def split: sum.split)
qed

lemma update_algos_prefix:
  assumes "update_algos env cd is d = (r, d')" and "distinct is"
  shows "\<exists>k \<le> length is. (is_ok r \<longleftrightarrow> k = length is) \<and>
     (\<forall>i. find_algo i d' =
        (if i \<in> set (take k is)
         then (case (ae_supply env i, ae_reward env i) of
                 (Inr ms, Inr br) \<Rightarrow> Some (algo_row_of cd i ms br) | _ \<Rightarrow> None)
         else find_algo i d))"
  using assms
proof (induction "is" arbitrary: d)
  case (Cons idx "is")
  show ?case
  proof (cases "\<exists>ms br. ae_supply env idx = Inr ms \<and> ae_reward env idx = Inr br \<and> ae_exec env idx = None")
    case True
    then obtain ms br where v: "ae_supply env idx = Inr ms" "ae_reward env idx = Inr br" "ae_exec env idx = None"
      by blast
    let ?row = "algo_row_of cd idx ms br"
    from Cons.prems v have "update_algos env cd is (sql_upsert_algo ?row d) = (r, d')" by simp
    from Cons.IH [OF this] Cons.prems(2) obtain k where k: "k \<le> length is" "is_ok r \<longleftrightarrow> k = length is"
      "\<forall>i. find_algo i d' =
        (if i \<in> set (take k is)
         then (case (ae_supply env i, ae_reward env i) of
                 (Inr ms, Inr br) \<Rightarrow> Some (algo_row_of cd i ms br) | _ \<Rightarrow> None)
         else find_algo i (sql_upsert_algo ?row d))" by auto
    have "a_algo_id ?row = idx" by (simp add: algo_row_of_def Let_def)
    then have "\<forall>i. find_algo i d' =
        (if i \<in> set (take (Suc k) (idx # is))
         then (case (ae_supply env i, ae_reward env i) of
                 (Inr ms, Inr br) \<Rightarrow> Some (algo_row_of cd i ms br) | _ \<Rightarrow> None)
         else find_algo i d)"
      using k(3) v by (auto simp: algo_table.lookup_ups [unfolded find_algo_lookup] split: option.splits)
    then show ?thesis using k(1,2) by (intro exI [of _ "Suc k"]) simp
  next
    case False
    then have "\<not> is_ok r \<and> d' = d"
      using Cons.prems(1) by (auto split: sum.splits option.splits)
    then show ?thesis by (intro exI [of _ 0]) simp
  qed
qed auto

section \<open>Properties\<close>



text \<open>Whatever the node reports (NaN and infinities included), the nominal reward is an entry of the
  epoch schedule, whose 49 entries are exactly \<open>20 / 2 ^ i\<close> and \<open>15 / 2 ^ i\<close>: the roundings of the
  factors 3/4 and 2/3 cancel.\<close>

theorem nominal_epoch_reward_in_schedule:
  "nominal_epoch_reward br h p \<in> set epochs \<and>
   epochs = map (\<lambda>i. Fin ((if even i then 20 else 15) / 2 ^ (i div 2))) [0 ..< 49]"
proof -
  have "epoch_val i = (if even i then 20 else 15) / 2 ^ (i div 2)" for i
    by (simp add: epoch_val_def pow2_def power_int_minus field_simps)
  then show ?thesis using nominal_epoch_reward_mem epochs_closed by simp
qed

text \<open>The statistics are written algorithm by algorithm: a successful update leaves all eight rows
  as the node reported them; an error on the way leaves the rows of the algorithms before it updated and
  those from it on as they were. Other tables are not touched.\<close>

theorem algo_stats_prefix_updated:
  assumes "do_update_algo_stats env d = (r, d')" and "ae_dynamics env = Inr cd"
  shows "(\<exists>k. 0 \<le> k \<and> k \<le> 8 \<and> (is_ok r \<longleftrightarrow> k = 8) \<and>
     (\<forall>i \<in> {0 .. 7}. find_algo i d' =
        (if i < k
         then (case (ae_supply env i, ae_reward env i) of
                 (Inr ms, Inr br) \<Rightarrow> Some (algo_row_of cd i ms br) | _ \<Rightarrow> None)
         else find_algo i d)))"
proof -
  have l: "[0 .. 7] = map int [0 ..< 8]" by (simp add: upto_rec1 upt_rec)
  have "update_algos env cd [0 .. 7] d = (r, d')" using assms by (simp add: do_update_algo_stats_def)
  from update_algos_prefix [OF this] obtain k where k: "k \<le> 8" "is_ok r \<longleftrightarrow> k = 8"
    "\<forall>i. find_algo i d' =
        (if i \<in> set (take k [0 .. 7])
         then (case (ae_supply env i, ae_reward env i) of
                 (Inr ms, Inr br) \<Rightarrow> Some (algo_row_of cd i ms br) | _ \<Rightarrow> None)
         else find_algo i d)" by auto
  have "set (take k [0 .. 7]) = int ` {0 ..< k}" using k(1) unfolding l take_map by simp
  then have "i \<in> set (take k [0 .. 7]) \<longleftrightarrow> i < int k" if "0 \<le> i" for i
    using that by (auto simp: image_iff intro: bexI [of _ "nat i"])
  then show ?thesis using k by (intro exI [of _ "int k"]) auto
qed

text \<open>The money supply is truncated to base units, not rounded as the outputs of a block are: a supply
  of 0.29 coins is stored as 28999999 base units.\<close>

theorem money_supply_truncated:
  "money_sats (lit (29 / 100)) = 28999999 \<and> coin_to_base_units (lit (29 / 100)) 100000000 = 29000000"
  by code_simp

definition sample_algo_env :: algo_env where
  "sample_algo_env = \<lparr>ae_dynamics = Inr (parse_dynamics Map.empty), ae_supply = (\<lambda>i. Inr (Fin 1000)),
     ae_reward = (\<lambda>i. if i = 3 then Inl ''context deadline exceeded'' else Inr (Fin 15)), ae_exec = (\<lambda>_. None)\<rparr>"

theorem algo_stats_prefix_updated_witness:
  "\<exists>k :: int. 0 \<le> k \<and> k \<le> 8 \<and> (is_ok (fst (do_update_algo_stats sample_algo_env empty_db)) \<longleftrightarrow> k = 8)"
proof -
  have "ae_dynamics sample_algo_env = Inr (parse_dynamics Map.empty)" by (simp add: sample_algo_env_def)
  from algo_stats_prefix_updated [OF prod.collapse [symmetric] this] show ?thesis by blast
qed

end
