(* ===== verification/Zmq.thy ===== *)
theory Zmq
  imports Go_Text
begin

text \<open>
  The two ZMQ subscribers (\<open>indexer/internal/zmq/subscriber.go\<close> and
  \<open>generator/internal/zmq/subscriber.go\<close>) as state machines over the answers of the zmq4 library.
  Call number \<open>n\<close> of the library gets the answer the environment holds at \<open>n\<close>. The list
  \<open>z_open\<close> records the sockets the process holds open, so that leaks are visible. The locale
  \<open>socket_owner\<close> is the contract both meet: at most one open socket, the one in the field, and a
  live one after every successful connect.
\<close>

section \<open>State and environment\<close>

datatype recv_outcome = Message | Again | RecvError string

record zmq_env =
  ze_new :: "nat \<Rightarrow> string option"
  ze_set_timeout :: "nat \<Rightarrow> string option"
  ze_connect :: "nat \<Rightarrow> string option"
  ze_recv :: "nat \<Rightarrow> recv_outcome"
  ze_closed :: string

record subscriber =
  z_endpoint :: string
  z_socket :: "nat option"
  z_open :: "nat list"
  z_clock :: nat

text \<open>
  \<open>WaitForBlock\<close>: a message, \<open>ErrTimeout\<close>, another error, or a call on a nil socket, which is a
  nil-pointer panic in Go.
\<close>

datatype wait_result = Notified | Timeout | WaitError string | NilSocket

definition close_socket :: "nat \<Rightarrow> subscriber \<Rightarrow> subscriber" where
  "close_socket k s = s\<lparr>z_open := removeAll k (z_open s)\<rparr>"

text \<open>The part both \<open>connect\<close> methods share: a new socket, its timeout, its connection.\<close>

definition open_socket :: "zmq_env \<Rightarrow> subscriber \<Rightarrow> unit result \<times> subscriber" where
  "open_socket env s =
     (let n = z_clock s; s1 = s\<lparr>z_clock := Suc n\<rparr>
      in case ze_new env n of
           Some e \<Rightarrow> (Inl e, s1)
         | None \<Rightarrow>
             (let s2 = s1\<lparr>z_open := n # z_open s1\<rparr>
              in case ze_set_timeout env n of
                   Some e \<Rightarrow> (Inl e, close_socket n s2)
                 | None \<Rightarrow>
                     (case ze_connect env n of
                        Some e \<Rightarrow> (Inl e, close_socket n s2)
                      | None \<Rightarrow> (Inr (), s2\<lparr>z_socket := Some n\<rparr>))))"

section \<open>The indexer's subscriber\<close>

definition idx_connect :: "zmq_env \<Rightarrow> subscriber \<Rightarrow> unit result \<times> subscriber" where
  "idx_connect env s =
     (let s1 = (case z_socket s of None \<Rightarrow> s | Some k \<Rightarrow> (close_socket k s)\<lparr>z_socket := None\<rparr>)
      in open_socket env s1)"

definition idx_close :: "subscriber \<Rightarrow> subscriber" where
  "idx_close s = (case z_socket s of None \<Rightarrow> s | Some k \<Rightarrow> (close_socket k s)\<lparr>z_socket := None\<rparr>)"

definition fresh_subscriber :: "string \<Rightarrow> subscriber" where
  "fresh_subscriber endpoint = \<lparr>z_endpoint = endpoint, z_socket = None, z_open = [], z_clock = 0\<rparr>"

definition idx_new_subscriber :: "zmq_env \<Rightarrow> string \<Rightarrow> subscriber result" where
  "idx_new_subscriber env endpoint =
     (case idx_connect env (fresh_subscriber endpoint) of (Inl e, _) \<Rightarrow> Inl e | (Inr _, s) \<Rightarrow> Inr s)"

definition idx_wait :: "zmq_env \<Rightarrow> subscriber \<Rightarrow> wait_result \<times> subscriber" where
  "idx_wait env s =
     (case z_socket s of
        None \<Rightarrow> (NilSocket, s)
      | Some k \<Rightarrow>
          (let n = z_clock s; s1 = s\<lparr>z_clock := Suc n\<rparr>
           in case ze_recv env n of
                Message \<Rightarrow> (Notified, s1)
              | RecvError e \<Rightarrow> (WaitError e, s1)
              | Again \<Rightarrow>
                  (case idx_connect env s1 of
                     (Inl e, s2) \<Rightarrow> (WaitError e, s2)
                   | (Inr _, s2) \<Rightarrow> (Timeout, s2))))"

section \<open>The generator's subscriber\<close>

text \<open>Its \<open>connect\<close> closes the old socket and keeps the pointer until the new one is ready.\<close>

definition gen_connect :: "zmq_env \<Rightarrow> subscriber \<Rightarrow> unit result \<times> subscriber" where
  "gen_connect env s =
     (let s1 = (case z_socket s of None \<Rightarrow> s | Some k \<Rightarrow> close_socket k s)
      in open_socket env s1)"

definition gen_new_subscriber :: "zmq_env \<Rightarrow> string \<Rightarrow> subscriber result" where
  "gen_new_subscriber env endpoint =
     (case gen_connect env (fresh_subscriber endpoint) of (Inl e, _) \<Rightarrow> Inl e | (Inr _, s) \<Rightarrow> Inr s)"

text \<open>A receive on a socket that has been closed reports the library's error \<open>ze_closed\<close>.\<close>

definition gen_wait :: "zmq_env \<Rightarrow> subscriber \<Rightarrow> wait_result \<times> subscriber" where
  "gen_wait env s =
     (case z_socket s of
        None \<Rightarrow> (NilSocket, s)
      | Some k \<Rightarrow>
          (let n = z_clock s; s1 = s\<lparr>z_clock := Suc n\<rparr>
           in if k \<notin> set (z_open s) then (WaitError (ze_closed env), s1)
              else case ze_recv env n of
                Message \<Rightarrow> (Notified, s1)
              | RecvError e \<Rightarrow> (WaitError e, s1)
              | Again \<Rightarrow>
                  (case gen_connect env s1 of
                     (Inl e, s2) \<Rightarrow> (WaitError e, s2)
                   | (Inr _, s2) \<Rightarrow> (Timeout, s2))))"

text \<open>\<open>envSeconds\<close>: a positive number of seconds in an environment variable, else the default.\<close>

definition env_seconds :: "string \<Rightarrow> int \<Rightarrow> int" where
  "env_seconds v fallback =
     (if v = '''' then fallback
      else case parse_int64 v of
        None \<Rightarrow> fallback
      | Some n \<Rightarrow> if n > 0 then wrap64 (n * 1000000000) else fallback)"

section \<open>The contract\<close>

text \<open>No socket is open but the one in the field; ids come from the clock, so new ones are fresh.\<close>

definition owns :: "subscriber \<Rightarrow> bool" where
  "owns s \<longleftrightarrow> (z_open s = [] \<or> (\<exists>k. z_socket s = Some k \<and> z_open s = [k])) \<and>
     (\<forall>k \<in> set (z_open s). k < z_clock s)"

definition live :: "subscriber \<Rightarrow> bool" where
  "live s \<longleftrightarrow> (\<exists>k. z_socket s = Some k \<and> z_open s = [k])"

fun wait_run :: "(subscriber \<Rightarrow> wait_result \<times> subscriber) \<Rightarrow> nat \<Rightarrow> subscriber \<Rightarrow> wait_result list \<times> subscriber" where
  "wait_run w 0 s = ([], s)"
| "wait_run w (Suc n) s = (let (r, s1) = w s; (rs, s2) = wait_run w n s1 in (r # rs, s2))"

lemma wait_run_Suc:
  "wait_run w (Suc n) s = (fst (w s) # fst (wait_run w n (snd (w s))), snd (wait_run w n (snd (w s))))"
  by (simp add: Let_def split: prod.splits)

text \<open>
  A subscriber whose waits keep ownership, that reports a timeout only with a fresh live socket and
  that stays live on a message or a receive error.
\<close>

locale socket_owner =
  fixes wait :: "subscriber \<Rightarrow> wait_result \<times> subscriber"
  assumes wait_owns: "owns s \<Longrightarrow> owns (snd (wait s))"
    and timeout_live: "owns s \<Longrightarrow> fst (wait s) = Timeout \<Longrightarrow> live (snd (wait s))"
    and notified_live: "owns s \<Longrightarrow> live s \<Longrightarrow> fst (wait s) = Notified \<Longrightarrow> live (snd (wait s))"
begin

lemma run_owns: "owns s \<Longrightarrow> owns (snd (wait_run wait n s))"
  by (induction n arbitrary: s) (simp_all add: wait_run_Suc wait_owns del: wait_run.simps(2))

lemma run_one_socket: "owns s \<Longrightarrow> length (z_open (snd (wait_run wait n s))) \<le> 1"
  using run_owns [of s n] by (auto simp: owns_def)

lemma run_live:
  "owns s \<Longrightarrow> live s \<Longrightarrow> set (fst (wait_run wait n s)) \<subseteq> {Notified, Timeout} \<Longrightarrow> live (snd (wait_run wait n s))"
proof (induction n arbitrary: s)
  case (Suc n)
  have "fst (wait s) \<in> {Notified, Timeout}" using Suc.prems(3) by (simp add: wait_run_Suc del: wait_run.simps(2))
  then have "live (snd (wait s))" using timeout_live [OF Suc.prems(1)] notified_live [OF Suc.prems(1,2)] by auto
  then show ?case
    using Suc.IH [of "snd (wait s)"] wait_owns [OF Suc.prems(1)] Suc.prems(3)
    by (simp add: wait_run_Suc del: wait_run.simps(2))
qed simp

end

lemma open_socket_owns:
  assumes "z_open s = []" and "open_socket env s = (r, s')"
  shows "owns s' \<and> (is_ok r \<longrightarrow> live s') \<and> (\<not> is_ok r \<longrightarrow> z_open s' = [] \<and> z_socket s' = z_socket s)"
  using assms by (auto simp: open_socket_def owns_def live_def close_socket_def Let_def split: option.splits)

lemma connect_owns:
  assumes "owns s"
  shows "idx_connect env s = (r, s') \<Longrightarrow> owns s' \<and> (is_ok r \<longrightarrow> live s') \<and> (\<not> is_ok r \<longrightarrow> z_open s' = [] \<and> z_socket s' = None)"
    and "gen_connect env s = (r, s') \<Longrightarrow> owns s' \<and> (is_ok r \<longrightarrow> live s') \<and> (\<not> is_ok r \<longrightarrow> z_open s' = [] \<and> z_socket s' = z_socket s)"
proof -
  define si where "si = (case z_socket s of None \<Rightarrow> s | Some k \<Rightarrow> (close_socket k s)\<lparr>z_socket := None\<rparr>)"
  define sg where "sg = (case z_socket s of None \<Rightarrow> s | Some k \<Rightarrow> close_socket k s)"
  have si: "z_open si = []" "z_socket si = None" and sg: "z_open sg = []" "z_socket sg = z_socket s"
    using assms by (auto simp: si_def sg_def owns_def close_socket_def split: option.splits)
  show "idx_connect env s = (r, s') \<Longrightarrow> owns s' \<and> (is_ok r \<longrightarrow> live s') \<and> (\<not> is_ok r \<longrightarrow> z_open s' = [] \<and> z_socket s' = None)"
    using open_socket_owns [OF si(1), of env r s'] si(2) by (simp add: idx_connect_def si_def [symmetric])
  show "gen_connect env s = (r, s') \<Longrightarrow> owns s' \<and> (is_ok r \<longrightarrow> live s') \<and> (\<not> is_ok r \<longrightarrow> z_open s' = [] \<and> z_socket s' = z_socket s)"
    using open_socket_owns [OF sg(1), of env r s'] sg(2) by (simp add: gen_connect_def sg_def [symmetric])
qed

lemma owns_tick: "owns s \<Longrightarrow> owns (s\<lparr>z_clock := Suc (z_clock s)\<rparr>)"
  by (auto simp: owns_def)

lemma live_tick: "live s \<Longrightarrow> live (s\<lparr>z_clock := Suc (z_clock s)\<rparr>)"
  by (simp add: live_def)

lemma idx_wait_laws:
  assumes "owns s"
  shows "owns (snd (idx_wait env s))" and "fst (idx_wait env s) = Timeout \<Longrightarrow> live (snd (idx_wait env s))"
    and "live s \<Longrightarrow> fst (idx_wait env s) = Notified \<Longrightarrow> live (snd (idx_wait env s))"
proof -
  obtain r s' where c: "idx_connect env (s\<lparr>z_clock := Suc (z_clock s)\<rparr>) = (r, s')" by fastforce
  note C = connect_owns(1) [OF owns_tick [OF assms] c]
  consider (nil) "z_socket s = None" | (msg) k where "z_socket s = Some k"
      "idx_wait env s = (Notified, s\<lparr>z_clock := Suc (z_clock s)\<rparr>)"
    | (err) k e where "z_socket s = Some k" "idx_wait env s = (WaitError e, s\<lparr>z_clock := Suc (z_clock s)\<rparr>)"
    | (again) k where "z_socket s = Some k"
      "idx_wait env s = ((case r of Inl e \<Rightarrow> WaitError e | Inr _ \<Rightarrow> Timeout), s')"
    using c by (cases "z_socket s"; cases "ze_recv env (z_clock s)"; cases r) (auto simp: idx_wait_def)
  then have "owns (snd (idx_wait env s)) \<and> (fst (idx_wait env s) = Timeout \<longrightarrow> live (snd (idx_wait env s))) \<and>
      (live s \<longrightarrow> fst (idx_wait env s) = Notified \<longrightarrow> live (snd (idx_wait env s)))"
  proof cases
    case nil
    then show ?thesis using assms by (simp add: idx_wait_def)
  next
    case again
    then show ?thesis using C by (cases r) simp_all
  qed (simp_all add: owns_tick [OF assms] live_tick)
  then show "owns (snd (idx_wait env s))" "fst (idx_wait env s) = Timeout \<Longrightarrow> live (snd (idx_wait env s))"
    "live s \<Longrightarrow> fst (idx_wait env s) = Notified \<Longrightarrow> live (snd (idx_wait env s))"
    by blast+
qed

lemma gen_wait_laws:
  assumes "owns s"
  shows "owns (snd (gen_wait env s))" and "fst (gen_wait env s) = Timeout \<Longrightarrow> live (snd (gen_wait env s))"
    and "live s \<Longrightarrow> fst (gen_wait env s) = Notified \<Longrightarrow> live (snd (gen_wait env s))"
proof -
  obtain r s' where c: "gen_connect env (s\<lparr>z_clock := Suc (z_clock s)\<rparr>) = (r, s')" by fastforce
  note C = connect_owns(2) [OF owns_tick [OF assms] c]
  consider (nil) "z_socket s = None" | (msg) k where "z_socket s = Some k"
      "gen_wait env s = (Notified, s\<lparr>z_clock := Suc (z_clock s)\<rparr>)"
    | (err) k e where "z_socket s = Some k" "gen_wait env s = (WaitError e, s\<lparr>z_clock := Suc (z_clock s)\<rparr>)"
    | (again) k where "z_socket s = Some k"
      "gen_wait env s = ((case r of Inl e \<Rightarrow> WaitError e | Inr _ \<Rightarrow> Timeout), s')"
    using c by (cases "z_socket s"; cases "the (z_socket s) \<in> set (z_open s)"; cases "ze_recv env (z_clock s)"; cases r)
      (auto simp: gen_wait_def Let_def)
  then have "owns (snd (gen_wait env s)) \<and> (fst (gen_wait env s) = Timeout \<longrightarrow> live (snd (gen_wait env s))) \<and>
      (live s \<longrightarrow> fst (gen_wait env s) = Notified \<longrightarrow> live (snd (gen_wait env s)))"
  proof cases
    case nil
    then show ?thesis using assms by (simp add: gen_wait_def)
  next
    case again
    then show ?thesis using C by (cases r) simp_all
  qed (simp_all add: owns_tick [OF assms] live_tick)
  then show "owns (snd (gen_wait env s))" "fst (gen_wait env s) = Timeout \<Longrightarrow> live (snd (gen_wait env s))"
    "live s \<Longrightarrow> fst (gen_wait env s) = Notified \<Longrightarrow> live (snd (gen_wait env s))"
    by blast+
qed

interpretation idx_owner: socket_owner "idx_wait env" for env
  by unfold_locales (rule idx_wait_laws; assumption)+

interpretation gen_owner: socket_owner "gen_wait env" for env
  by unfold_locales (rule gen_wait_laws; assumption)+

lemma new_subscriber_live:
  "idx_new_subscriber env e = Inr s \<Longrightarrow> owns s \<and> live s" "gen_new_subscriber env e = Inr s \<Longrightarrow> owns s \<and> live s"
proof -
  have o: "owns (fresh_subscriber e)" by (simp add: owns_def fresh_subscriber_def)
  show "idx_new_subscriber env e = Inr s \<Longrightarrow> owns s \<and> live s"
    using connect_owns(1) [OF o, of env] by (auto simp: idx_new_subscriber_def is_ok_def split: prod.splits sum.splits)
  show "gen_new_subscriber env e = Inr s \<Longrightarrow> owns s \<and> live s"
    using connect_owns(2) [OF o, of env] by (auto simp: gen_new_subscriber_def is_ok_def split: prod.splits sum.splits)
qed

section \<open>Properties\<close>

text \<open>C29: neither subscriber leaks a socket: after any number of waits, with any answers of the
  library (timeouts, failed reconnects, receive errors), the process holds at most one socket open; and
  as long as every wait has ended with a message or a timeout, the subscriber holds a live socket.\<close>

theorem subscribers_do_not_leak:
  assumes "idx_new_subscriber env e = Inr si" and "gen_new_subscriber env e = Inr sg"
  shows "length (z_open (snd (wait_run (idx_wait env) n si))) \<le> 1 \<and>
     length (z_open (snd (wait_run (gen_wait env) n sg))) \<le> 1 \<and>
     (set (fst (wait_run (idx_wait env) n si)) \<subseteq> {Notified, Timeout} \<longrightarrow> live (snd (wait_run (idx_wait env) n si))) \<and>
     (set (fst (wait_run (gen_wait env) n sg)) \<subseteq> {Notified, Timeout} \<longrightarrow> live (snd (wait_run (gen_wait env) n sg)))"
  using idx_owner.run_one_socket idx_owner.run_live gen_owner.run_one_socket gen_owner.run_live
    new_subscriber_live(1) [OF assms(1)] new_subscriber_live(2) [OF assms(2)] by blast

text \<open>When the reconnect after a timeout fails, the indexer's \<open>WaitForBlock\<close> reports the error and
  leaves a nil socket behind, so that the next call runs into a nil pointer; the generator's reports the
  library's closed-socket error on every later call instead.\<close>

theorem failed_reconnect:
  assumes "owns s" and "live s" and "ze_recv env (z_clock s) = Again" and "ze_connect env (Suc (z_clock s)) = Some err"
    and "ze_new env (Suc (z_clock s)) = None" and "ze_set_timeout env (Suc (z_clock s)) = None"
  shows "fst (idx_wait env s) = WaitError err \<and> fst (idx_wait env (snd (idx_wait env s))) = NilSocket \<and>
     fst (gen_wait env s) = WaitError err \<and>
     fst (gen_wait env (snd (gen_wait env s))) = WaitError (ze_closed env)"
  using assms
  by (auto simp: idx_wait_def gen_wait_def idx_connect_def gen_connect_def open_socket_def close_socket_def
      live_def Let_def)

definition sample_zmq :: zmq_env where
  "sample_zmq = \<lparr>ze_new = (\<lambda>_. None), ze_set_timeout = (\<lambda>_. None),
     ze_connect = (\<lambda>n. if n = 2 then Some ''invalid argument'' else None),
     ze_recv = (\<lambda>n. if n = 1 then Again else Message), ze_closed = ''Socket is closed''\<rparr>"

definition sample_subscriber :: subscriber where
  "sample_subscriber = \<lparr>z_endpoint = ''tcp://node'', z_socket = Some 0, z_open = [0], z_clock = 1\<rparr>"

lemma sample_new:
  "idx_new_subscriber sample_zmq ''tcp://node'' = Inr sample_subscriber"
  "gen_new_subscriber sample_zmq ''tcp://node'' = Inr sample_subscriber"
  by (simp_all add: idx_new_subscriber_def gen_new_subscriber_def idx_connect_def gen_connect_def
      fresh_subscriber_def open_socket_def sample_zmq_def sample_subscriber_def)

theorem subscribers_do_not_leak_witness:
  "length (z_open (snd (wait_run (idx_wait sample_zmq) 5 sample_subscriber))) \<le> 1 \<and>
   length (z_open (snd (wait_run (gen_wait sample_zmq) 5 sample_subscriber))) \<le> 1"
  using subscribers_do_not_leak [OF sample_new] by blast

theorem failed_reconnect_witness:
  "fst (idx_wait sample_zmq (snd (idx_wait sample_zmq sample_subscriber))) = NilSocket"
  using failed_reconnect [of sample_subscriber sample_zmq "''invalid argument''"]
  by (simp add: owns_def live_def sample_subscriber_def sample_zmq_def)

end
