(* ===== verification/Ingest_Run.thy ===== *)
theory Ingest_Run
  imports Ingest_Range Algo_Stats Zmq
begin

text \<open>
  \<open>Ingestor.Run\<close>, the daemon's main loop: one iteration retries the node, compares its height with the
  recorded tip, ingests the missing range or, at the tip, refreshes the statistics and waits for a
  ZMQ notification or the poll interval. A run is a number of iterations; a process that dies is
  started again on the database it left. The theorems are about any sequence of such runs.
\<close>

section \<open>The loop\<close>

text \<open>
  What ends \<open>Run\<close>: an error it returns, or a panic (a receive on a nil socket). \<open>p_algo\<close> gives the
  answers for the statistics when the clock shows that time.
\<close>

datatype run_exit = Returned string | Panicked

record run_env =
  p_env :: env
  p_zmq :: zmq_env
  p_algo :: "nat \<Rightarrow> algo_env"
  p_endpoint :: string
  p_batch :: int
  p_factor :: int

record run_state =
  rs_world :: world
  rs_sub :: "subscriber option"

definition at_clock :: "nat \<Rightarrow> run_state \<Rightarrow> run_state" where
  "at_clock n s = s\<lparr>rs_world := (rs_world s)\<lparr>w_clock := n\<rparr>\<rparr>"

text \<open>A sleep that the cancellation of the context cuts short.\<close>

definition sleep_step :: "run_env \<Rightarrow> run_state \<Rightarrow> run_exit option \<times> run_state" where
  "sleep_step p s =
     (let n = Suc (w_clock (rs_world s))
      in (if e_cancelled (p_env p) n then Some (Returned err_ctx) else None, at_clock n s))"

text \<open>At the tip: statistics, then the notification or one poll cycle.\<close>

definition tip_step :: "run_env \<Rightarrow> run_state \<Rightarrow> run_exit option \<times> run_state" where
  "tip_step p s =
     (let w = rs_world s;
          s1 = s\<lparr>rs_world := w\<lparr>w_db := refresh_algo_stats (p_algo p (w_clock w)) (w_db w)\<rparr>\<rparr>
      in case rs_sub s1 of
           None \<Rightarrow> sleep_step p s1
         | Some z \<Rightarrow>
             (case idx_wait (p_zmq p) z of
                (NilSocket, z') \<Rightarrow> (Some Panicked, s1\<lparr>rs_sub := Some z'\<rparr>)
              | (Timeout, z') \<Rightarrow> (None, s1\<lparr>rs_sub := Some z'\<rparr>)
              | (WaitError _, z') \<Rightarrow> sleep_step p (s1\<lparr>rs_sub := Some z'\<rparr>)
              | (Notified, z') \<Rightarrow> sleep_step p (s1\<lparr>rs_sub := Some z'\<rparr>)))"

text \<open>One iteration; \<open>None\<close> when the fuel of an inner loop ran out.\<close>

definition run_iter :: "nat \<Rightarrow> run_env \<Rightarrow> run_state \<Rightarrow> (run_exit option \<times> run_state) option" where
  "run_iter fuel p s =
     (let env = p_env p; w = rs_world s
      in if e_cancelled env (w_clock w) then Some (Some (Returned err_ctx), s)
         else case retry_get_block_count fuel env 0 (w_clock w) of
           None \<Rightarrow> None
         | Some (Inl e, n, _) \<Rightarrow> Some (Some (Returned e), at_clock n s)
         | Some (Inr tip, n, _) \<Rightarrow>
             (case get_db_tip env (w\<lparr>w_clock := n\<rparr>) of
                (Inl e, w1) \<Rightarrow> Some (Some (Returned e), s\<lparr>rs_world := w1\<rparr>)
              | (Inr (dbHeight, _), w1) \<Rightarrow>
                  (let s1 = s\<lparr>rs_world := w1\<rparr>
                   in if wrap64 (tip - dbHeight) > 0 then
                        (case ingest_range fuel env (p_factor p) (p_batch p) (wrap64 (dbHeight + 1)) tip w1 of
                           None \<Rightarrow> None
                         | Some (Inr _, w2) \<Rightarrow> Some (None, s1\<lparr>rs_world := w2\<rparr>)
                         | Some (Inl e, w2) \<Rightarrow>
                             Some ((if e_cancelled env (w_clock w2) then Some (Returned err_ctx)
                                    else if is_transient_rpc_err e then None else Some (Returned e)),
                                   s1\<lparr>rs_world := w2\<rparr>))
                      else Some (tip_step p s1))))"

fun run_loop :: "nat \<Rightarrow> nat \<Rightarrow> run_env \<Rightarrow> run_state \<Rightarrow> (run_exit option \<times> run_state) option" where
  "run_loop 0 fuel p s = Some (None, s)"
| "run_loop (Suc n) fuel p s =
     (case run_iter fuel p s of
        None \<Rightarrow> None
      | Some (Some x, s') \<Rightarrow> Some (Some x, s')
      | Some (None, s') \<Rightarrow> run_loop n fuel p s')"

text \<open>\<open>Run\<close>: the chain-state row, the subscriber (polling without it when it cannot be created), the loop.\<close>

definition start_sub :: "run_env \<Rightarrow> subscriber option" where
  "start_sub p =
     (if p_endpoint p = '''' then None
      else case idx_new_subscriber (p_zmq p) (p_endpoint p) of Inl _ \<Rightarrow> None | Inr z \<Rightarrow> Some z)"

definition run :: "nat \<Rightarrow> nat \<Rightarrow> run_env \<Rightarrow> world \<Rightarrow> (run_exit option \<times> world) option" where
  "run n fuel p w =
     (case ensure_chain_state (p_env p) w of
        (Inl e, w1) \<Rightarrow> Some (Some (Returned e), w1)
      | (Inr _, w1) \<Rightarrow>
          map_option (\<lambda>(x, s). (x, rs_world s))
            (run_loop n fuel p \<lparr>rs_world = w1, rs_sub = start_sub p\<rparr>))"

text \<open>Processes one after the other, each on the database the one before left; a run out of fuel leaves its start.\<close>

fun daemon :: "nat \<Rightarrow> (nat \<times> run_env) list \<Rightarrow> db \<Rightarrow> db" where
  "daemon fuel [] d = d"
| "daemon fuel ((n, p) # ps) d =
     daemon fuel ps (case run n fuel p \<lparr>w_db = d, w_clock = 0\<rparr> of None \<Rightarrow> d | Some (_, w) \<Rightarrow> w_db w)"

section \<open>The invariant\<close>

definition set_algos :: "algo_row list \<Rightarrow> db \<Rightarrow> db" where
  "set_algos as d = d\<lparr>d_algos := as\<rparr>"

lemma set_algos_sql:
  "sql_insert_block r (set_algos c d) = set_algos c (sql_insert_block r d)"
  "sql_insert_tx t (set_algos c d) = set_algos c (sql_insert_tx t d)"
  "sql_insert_input i (set_algos c d) = set_algos c (sql_insert_input i d)"
  "sql_insert_output q (set_algos c d) = set_algos c (sql_insert_output q d)"
  "sql_update_input_prev v a x n (set_algos c d) = set_algos c (sql_update_input_prev v a x n d)"
  "sql_mark_spent u m h y k (set_algos c d) = set_algos c (sql_mark_spent u m h y k d)"
  "sql_select_prevout x k (set_algos c d) = sql_select_prevout x k d"
  "set_algos c (set_algos c' d) = set_algos c d" "set_chain ch (set_algos c d) = set_algos c (set_chain ch d)"
  by (simp_all add: set_chain_def set_algos_def sql_insert_block_def sql_insert_tx_def sql_insert_input_def
      sql_insert_output_def sql_update_input_prev_def sql_mark_spent_def sql_select_prevout_def)

lemma fold_set_algos:
  "(\<And>a d. f a (set_algos c d) = set_algos c (f a d)) \<Longrightarrow> fold f as (set_algos c d) = set_algos c (fold f as d)"
  by (induction as arbitrary: d) simp_all

lemma block_effect_set_algos: "block_effect factor b (set_algos c d) = set_algos c (block_effect factor b d)"
proof -
  have "tx_effect factor b pt (set_algos c e) = set_algos c (tx_effect factor b pt e)" for pt e
    by (simp add: tx_effect_def links_effect_def outputs_effect_def inputs_effect_def link_effect_def
        Let_def set_algos_sql fold_set_algos)
  then show ?thesis by (simp add: block_effect_def set_algos_sql fold_set_algos)
qed

lemma snapshot_set_algos: "snapshot factor chain (set_algos c d0) k = set_algos c (snapshot factor chain d0 k)"
  by (simp add: snapshot_def fold_set_algos block_effect_set_algos set_algos_sql)

text \<open>The blocks up to the recorded tip, with any statistics.\<close>

definition at_tip :: "int \<Rightarrow> (int \<Rightarrow> BlockV2) \<Rightarrow> db \<Rightarrow> int \<Rightarrow> db \<Rightarrow> bool" where
  "at_tip factor chain d0 k d \<longleftrightarrow> -1 \<le> k \<and> k < 2 ^ 62 \<and> (\<exists>as. d = snapshot factor chain (set_algos as d0) k)"

text \<open>A database the daemon may find: never used, or at some tip.\<close>

definition consistent :: "int \<Rightarrow> (int \<Rightarrow> BlockV2) \<Rightarrow> db \<Rightarrow> db \<Rightarrow> bool" where
  "consistent factor chain d0 d \<longleftrightarrow> d = d0 \<or> (\<exists>k. at_tip factor chain d0 k d)"

definition good_env :: "run_env \<Rightarrow> (int \<Rightarrow> BlockV2) \<Rightarrow> bool" where
  "good_env p chain \<longleftrightarrow> serves (p_env p) chain \<and> 1 \<le> p_batch p \<and> p_batch p \<le> 2 ^ 62 \<and>
     (\<forall>n t. e_block_count (p_env p) n = Inr t \<longrightarrow> 0 \<le> t \<and> t < 2 ^ 62)"

lemma refresh_at_tip: "at_tip factor chain d0 k d \<Longrightarrow> at_tip factor chain d0 k (refresh_algo_stats env d)"
proof -
  assume t: "at_tip factor chain d0 k d"
  then obtain as where d: "d = set_algos as (snapshot factor chain d0 k)" by (auto simp: at_tip_def snapshot_set_algos)
  obtain bs where "refresh_algo_stats env d = set_algos bs d"
    using refresh_algo_stats_frame by (metis set_algos_def)
  then have "refresh_algo_stats env d = snapshot factor chain (set_algos bs d0) k"
    by (simp add: d set_algos_sql snapshot_set_algos)
  then show ?thesis using t by (auto simp: at_tip_def)
qed

lemma retry_in_range:
  assumes "\<And>n t. e_block_count env n = Inr t \<Longrightarrow> P t" and "retry_get_block_count fuel env a clk = Some (Inr t, clk', ds)"
  shows "P t"
  using assms(2)
proof (induction fuel arbitrary: a clk clk' ds)
  case (Suc fuel)
  then show ?case using assms(1)
    by (fastforce simp: Let_def split: sum.splits if_splits)
qed simp

lemma tip_step_db:
  "tip_step p s = (x, s') \<Longrightarrow> w_db (rs_world s') = refresh_algo_stats (p_algo p (w_clock (rs_world s))) (w_db (rs_world s))"
  by (auto simp: tip_step_def sleep_step_def at_clock_def Let_def split: option.splits wait_result.splits prod.splits)

lemma get_db_tip_cases:
  assumes "get_db_tip env w = (r, w')"
  shows "w_db w' = w_db w" and "r = Inr t \<Longrightarrow> d_chain (w_db w) = Some t"
  using assms by (auto simp: get_db_tip_def split: option.splits)

lemma snapshot_chain: "d_chain (snapshot factor chain d0 k) = Some (tip_of chain k)"
  by (simp add: snapshot_def set_chain_def)

lemma tip_of_fst: "-1 \<le> k \<Longrightarrow> fst (tip_of chain k) = k"
  by (auto simp: tip_of_def)

lemma run_iter_at_tip:
  assumes g: "good_env p chain" and t: "at_tip (p_factor p) chain d0 k (w_db (rs_world s))"
    and run: "run_iter fuel p s = Some (x, s')"
  shows "\<exists>k'. k \<le> k' \<and> at_tip (p_factor p) chain d0 k' (w_db (rs_world s'))"
proof -
  let ?env = "p_env p" and ?w = "rs_world s"
  have same: "w_db (rs_world s') = w_db ?w \<Longrightarrow> ?thesis" using t by auto
  show ?thesis
  proof (cases "e_cancelled ?env (w_clock ?w)")
    case True
    then show ?thesis using run same by (simp add: run_iter_def Let_def)
  next
    case False
    note run1 = run [unfolded run_iter_def Let_def, simplified False if_False]
    from run1 obtain r n ds where rt: "retry_get_block_count fuel ?env 0 (w_clock ?w) = Some (r, n, ds)"
      by (cases "retry_get_block_count fuel ?env 0 (w_clock ?w)") auto
    show ?thesis
    proof (cases r)
      case (Inl e)
      then show ?thesis using run1 rt same by (auto simp: at_clock_def)
    next
      case (Inr tip)
      have tip: "0 \<le> tip" "tip < 2 ^ 62"
        using retry_in_range [of ?env "\<lambda>t. 0 \<le> t \<and> t < 2 ^ 62", OF _ rt [unfolded Inr]] g
        unfolding good_env_def by blast+
      obtain r1 w1 where gt: "get_db_tip ?env (?w\<lparr>w_clock := n\<rparr>) = (r1, w1)" by fastforce
      note G = get_db_tip_cases [OF gt]
      have w1: "w_db w1 = w_db ?w" using G(1) by simp
      note run2 = run1 [unfolded rt Inr, simplified, unfolded gt, simplified]
      show ?thesis
      proof (cases r1)
        case (Inl e)
        then show ?thesis using run2 same w1 by auto
      next
        case r1: (Inr hh)
        obtain h hash where hh: "hh = (h, hash)" by fastforce
        from t obtain as where d: "w_db ?w = snapshot (p_factor p) chain (set_algos as d0) k" "-1 \<le> k" "k < 2 ^ 62"
          by (auto simp: at_tip_def)
        have "d_chain (w_db ?w) = Some (h, hash)" using G(2) r1 hh by simp
        then have h: "h = k" using d snapshot_chain tip_of_fst [OF d(2), of chain] by (metis fst_conv option.inject)
        have lag: "wrap64 (tip - k) = tip - k" "wrap64 (k + 1) = k + 1"
          using tip d(2,3) by (simp_all add: wrap64_id in64_def)
        show ?thesis
        proof (cases "tip - k > 0")
          case False
          then have "tip_step p (s\<lparr>rs_world := w1\<rparr>) = (x, s')" using run2 r1 hh h lag by simp
          from tip_step_db [OF this] have "w_db (rs_world s') = refresh_algo_stats (p_algo p (w_clock w1)) (w_db ?w)"
            using w1 by simp
          then show ?thesis using refresh_at_tip [OF t] by auto
        next
          case True
          obtain r2 w2 where ir: "ingest_range fuel ?env (p_factor p) (p_batch p) (k + 1) tip w1 = Some (r2, w2)"
            using run2 r1 hh h lag True by (auto split: option.splits)
          have sv: "serves ?env chain" "1 \<le> p_batch p" "tip + p_batch p < 2 ^ 63"
            using g tip by (auto simp: good_env_def)
          obtain k' where k': "k \<le> k'" "k' \<le> max k tip" "w_db w2 = snapshot (p_factor p) chain (set_algos as d0) k'"
            using ingest_range_snapshot [OF sv _ d(2) ir] w1 d(1) by auto
          have "w_db (rs_world s') = w_db w2"
            using run2 r1 hh h lag True ir by (auto split: sum.splits if_splits)
          then show ?thesis using k' d tip by (intro exI [of _ k']) (auto simp: at_tip_def)
        qed
      qed
    qed
  qed
qed

lemma run_loop_at_tip:
  assumes "good_env p chain" and "at_tip (p_factor p) chain d0 k (w_db (rs_world s))"
    and "run_loop n fuel p s = Some (x, s')"
  shows "\<exists>k'. k \<le> k' \<and> at_tip (p_factor p) chain d0 k' (w_db (rs_world s'))"
  using assms(2,3)
proof (induction n arbitrary: s k)
  case (Suc n)
  from Suc.prems(2) obtain y s1 where it: "run_iter fuel p s = Some (y, s1)"
    by (auto split: option.splits)
  obtain k1 where k1: "k \<le> k1" "at_tip (p_factor p) chain d0 k1 (w_db (rs_world s1))"
    using run_iter_at_tip [OF assms(1) Suc.prems(1) it] by blast
  show ?case
  proof (cases y)
    case None
    then have "run_loop n fuel p s1 = Some (x, s')" using Suc.prems(2) it by simp
    from Suc.IH [OF k1(2) this] show ?thesis using k1(1) by (meson order_trans)
  next
    case (Some e)
    then show ?thesis using Suc.prems(2) it k1 by auto
  qed
qed auto

lemma run_consistent:
  assumes g: "good_env p chain" and fresh: "d_chain d0 = None" and c: "consistent (p_factor p) chain d0 (w_db w)"
    and run: "run n fuel p w = Some (x, w')"
  shows "consistent (p_factor p) chain d0 (w_db w')"
    and "at_tip (p_factor p) chain d0 k (w_db w) \<Longrightarrow> \<exists>k'. k \<le> k' \<and> at_tip (p_factor p) chain d0 k' (w_db w')"
proof -
  obtain r w1 where e: "ensure_chain_state (p_env p) w = (r, w1)" by fastforce
  have tip1: "\<exists>k. at_tip (p_factor p) chain d0 k (w_db w1)" if "is_ok r"
  proof (cases "w_db w = d0")
    case True
    then have "w_db w1 = snapshot (p_factor p) chain (set_algos (d_algos d0) d0) (-1)"
      using e that fresh by (auto simp: ensure_chain_state_def sql_ensure_chain_state_def snapshot_def set_chain_def
          set_algos_def tip_of_def zero_hash_def split: option.splits)
    then show ?thesis by (auto simp: at_tip_def)
  next
    case False
    then obtain k where k: "at_tip (p_factor p) chain d0 k (w_db w)" using c by (auto simp: consistent_def)
    then have "d_chain (w_db w) \<noteq> None" by (auto simp: at_tip_def snapshot_chain)
    then have "w_db w1 = w_db w"
      using e by (auto simp: ensure_chain_state_def sql_ensure_chain_state_def split: option.splits)
    then show ?thesis using k by auto
  qed
  have err: "w_db w1 = w_db w" if "\<not> is_ok r" using e that by (auto simp: ensure_chain_state_def split: option.splits)
  have loop: "\<exists>s'. run_loop n fuel p \<lparr>rs_world = w1, rs_sub = start_sub p\<rparr> = Some (x, s') \<and> w' = rs_world s'"
    if "is_ok r" using run e that by (auto simp: run_def is_ok_def split: sum.splits)
  have stop: "w' = w1" if "\<not> is_ok r" using run e that by (auto simp: run_def is_ok_def split: sum.splits)
  show "consistent (p_factor p) chain d0 (w_db w')"
  proof (cases "is_ok r")
    case True
    then obtain k s' where k: "at_tip (p_factor p) chain d0 k (w_db (rs_world \<lparr>rs_world = w1, rs_sub = start_sub p\<rparr>))"
      and l: "run_loop n fuel p \<lparr>rs_world = w1, rs_sub = start_sub p\<rparr> = Some (x, s')" and w': "w' = rs_world s'"
      using tip1 loop by auto
    show ?thesis using run_loop_at_tip [OF g k l] w' by (auto simp: consistent_def)
  qed (use c err stop in simp)
  show "\<exists>k'. k \<le> k' \<and> at_tip (p_factor p) chain d0 k' (w_db w')" if k: "at_tip (p_factor p) chain d0 k (w_db w)"
  proof (cases "is_ok r")
    case True
    have "d_chain (w_db w) \<noteq> None" using k by (auto simp: at_tip_def snapshot_chain)
    then have "w_db w1 = w_db w"
      using e by (auto simp: ensure_chain_state_def sql_ensure_chain_state_def split: option.splits)
    then have k1: "at_tip (p_factor p) chain d0 k (w_db (rs_world \<lparr>rs_world = w1, rs_sub = start_sub p\<rparr>))"
      using k by simp
    show ?thesis using loop [OF True] run_loop_at_tip [OF g k1] by blast
  qed (use k err stop in auto)
qed

lemma run_iter_healthy:
  assumes g: "good_env p chain" and hl: "healthy (p_env p) chain tip"
    and t: "at_tip (p_factor p) chain d0 k (w_db (rs_world s))"
    and tip: "e_block_count (p_env p) (w_clock (rs_world s)) = Inr tip" "k < tip"
    and fuel: "nat (tip - k) < fuel"
  shows "\<exists>s'. run_iter fuel p s = Some (None, s') \<and> at_tip (p_factor p) chain d0 tip (w_db (rs_world s'))"
proof -
  let ?env = "p_env p" and ?w = "rs_world s"
  from fuel obtain f where f: "fuel = Suc f" by (cases fuel) auto
  have quiet: "e_fault ?env n = None" "\<not> e_cancelled ?env n" for n using hl by (simp_all add: healthy_def)
  have rt: "retry_get_block_count fuel ?env 0 (w_clock ?w) = Some (Inr tip, Suc (w_clock ?w), [])"
    using f tip by simp
  from t obtain as where d: "w_db ?w = snapshot (p_factor p) chain (set_algos as d0) k" "-1 \<le> k" "k < 2 ^ 62"
    by (auto simp: at_tip_def)
  define w1 where "w1 = ?w\<lparr>w_clock := Suc (Suc (w_clock ?w))\<rparr>"
  have gt: "get_db_tip ?env (?w\<lparr>w_clock := Suc (w_clock ?w)\<rparr>) = (Inr (tip_of chain k), w1)"
    using d(1) by (cases "tip_of chain k") (simp add: get_db_tip_def quiet snapshot_chain w1_def)
  have T: "0 \<le> tip" "tip < 2 ^ 62" using g tip(1) by (auto simp: good_env_def)
  have lag: "wrap64 (tip - k) = tip - k" "wrap64 (k + 1) = k + 1"
    using T d(2,3) by (simp_all add: wrap64_id in64_def)
  have sv: "serves ?env chain" "1 \<le> p_batch p" "tip + p_batch p < 2 ^ 63" using g T by (auto simp: good_env_def)
  obtain w2 where ir: "ingest_range fuel ?env (p_factor p) (p_batch p) (k + 1) tip w1 = Some (Inr (), w2)"
    using ingest_range_healthy [OF hl sv(2,3) order.refl, of "k + 1" fuel] d(2) fuel by auto
  have w1: "w_db w1 = snapshot (p_factor p) chain (set_algos as d0) k" by (simp add: w1_def d(1))
  have "w_db w2 = snapshot (p_factor p) chain (set_algos as d0) tip"
    using ingest_range_snapshot [OF sv w1 d(2) ir] tip(2) by auto
  then have "at_tip (p_factor p) chain d0 tip (w_db w2)" using T by (auto simp: at_tip_def)
  moreover obtain hash where th: "tip_of chain k = (k, hash)"
    using tip_of_fst [OF d(2), of chain] by (metis prod.collapse)
  have "run_iter fuel p s = Some (None, s\<lparr>rs_world := w2\<rparr>)"
    unfolding run_iter_def Let_def using quiet rt gt ir lag tip(2) by (simp add: th)
  ultimately show ?thesis by auto
qed

section \<open>Properties\<close>

text \<open>C1: crash consistency of the indexer. Start the daemon any number of times, one process after the
  other, on the database the last one left, each for any number of loop iterations and with any node
  failures, statement failures at any point, lost commit acknowledgements, cancellations, ZMQ behaviour
  and panics. As long as the nodes serve one chain, the database is always either untouched or holds
  exactly the blocks of the chain up to its recorded tip, and the tip never moves back.\<close>

theorem daemon_crash_consistent:
  assumes "\<forall>(n, p) \<in> set ps. good_env p chain \<and> p_factor p = factor" and "d_chain d0 = None"
    and "consistent factor chain d0 d"
  shows "consistent factor chain d0 (daemon fuel ps d) \<and>
     (\<forall>k. at_tip factor chain d0 k d \<longrightarrow> (\<exists>k' \<ge> k. at_tip factor chain d0 k' (daemon fuel ps d)))"
  using assms(1,3)
proof (induction ps arbitrary: d)
  case (Cons np ps)
  obtain n p where np: "np = (n, p)" by fastforce
  let ?w = "\<lparr>w_db = d, w_clock = 0\<rparr>"
  let ?d = "case run n fuel p ?w of None \<Rightarrow> d | Some (_, w) \<Rightarrow> w_db w"
  have g: "good_env p chain" "p_factor p = factor" using Cons.prems(1) np by auto
  have c: "consistent (p_factor p) chain d0 (w_db ?w)" using Cons.prems(2) g(2) by simp
  have one: "consistent factor chain d0 ?d" "\<forall>k. at_tip factor chain d0 k d \<longrightarrow> (\<exists>k' \<ge> k. at_tip factor chain d0 k' ?d)"
    using run_consistent [OF g(1) assms(2) c] Cons.prems(2) g(2) by (auto split: option.split)
  have ps: "\<forall>(n, p) \<in> set ps. good_env p chain \<and> p_factor p = factor" using Cons.prems(1) by simp
  have "daemon fuel (np # ps) d = daemon fuel ps ?d" by (simp add: np)
  then show ?case using Cons.IH [OF ps one(1)] one(2) by (metis order_trans)
qed auto

text \<open>C17: the daemon catches up: on a database at tip \<open>k\<close> below the node's height, one iteration of the
  loop with a node and a database that answer ends with every block up to that height stored and the tip
  recorded, and goes on.\<close>

theorem run_catches_up:
  assumes "good_env p chain" and "healthy (p_env p) chain tip"
    and "at_tip (p_factor p) chain d0 k (w_db (rs_world s))"
    and "e_block_count (p_env p) (w_clock (rs_world s)) = Inr tip" and "k < tip" and "nat (tip - k) < fuel"
  shows "\<exists>s'. run_iter fuel p s = Some (None, s') \<and> at_tip (p_factor p) chain d0 tip (w_db (rs_world s'))"
  using assms by (rule run_iter_healthy)


definition sample_run_env :: run_env where
  "sample_run_env = \<lparr>p_env = (sample_env no_faults)\<lparr>e_block_count := (\<lambda>_. Inr 2)\<rparr>, p_zmq = sample_zmq,
     p_algo = (\<lambda>_. sample_algo_env), p_endpoint = ''tcp://node'', p_batch = 500, p_factor = 100000000\<rparr>"

lemma sample_run_good: "good_env sample_run_env sample_block" "healthy (p_env sample_run_env) sample_block hi"
  using serves_sample [of no_faults] healthy_sample
  by (auto simp: good_env_def sample_run_env_def serves_def healthy_def)

theorem daemon_crash_consistent_witness:
  "consistent 100000000 sample_block empty_db (daemon 10 [(3, sample_run_env), (1, sample_run_env)] empty_db)"
proof -
  have "\<forall>(n, p) \<in> set [(3, sample_run_env), (1, sample_run_env)].
      good_env p sample_block \<and> p_factor p = 100000000"
    using sample_run_good by (simp add: sample_run_env_def)
  moreover have "d_chain empty_db = None" by (simp add: empty_db_def)
  moreover have "consistent 100000000 sample_block empty_db empty_db" by (simp add: consistent_def)
  ultimately show ?thesis using daemon_crash_consistent by blast
qed

definition sample_state :: run_state where
  "sample_state = \<lparr>rs_world = sample_world, rs_sub = None\<rparr>"

lemma sample_at_tip: "at_tip (p_factor sample_run_env) sample_block empty_db (-1) (w_db (rs_world sample_state))"
proof -
  have "w_db sample_world = snapshot (p_factor sample_run_env) sample_block (set_algos [] empty_db) (-1)"
    using sample_world_snapshot [of "p_factor sample_run_env"] by (simp add: set_algos_def empty_db_def)
  then show ?thesis by (auto simp: at_tip_def sample_state_def)
qed

theorem run_catches_up_witness:
  "\<exists>s'. run_iter 4 sample_run_env sample_state = Some (None, s') \<and>
     at_tip (p_factor sample_run_env) sample_block empty_db 2 (w_db (rs_world s'))"
  by (rule run_catches_up [OF sample_run_good sample_at_tip]) (simp_all add: sample_run_env_def)

definition refusing_env :: run_env where
  "refusing_env = sample_run_env\<lparr>p_env := (sample_env no_faults)\<lparr>e_block_count := (\<lambda>_. Inl ''rpc http 401: '')\<rparr>\<rparr>"

lemma refusing_run:
  "run_iter 4 refusing_env sample_state =
     Some (Some (Returned (err_block_count ''rpc http 401: '')), snd (the (run_iter 4 refusing_env sample_state)))"
  by code_simp


end
