(* ===== verification/Ingest_Types.thy ===== *)
theory Ingest_Types
  imports Ingest_Run
begin

text \<open>
  What holds of every stored row, whatever the node sends and whatever fails. The locale \<open>db_invariant\<close> carries an
  invariant that the effect of a block and the statements on \<open>chain_state\<close> and the statistics keep through
  \<open>ingestRange\<close>, \<open>Run\<close> and any sequence of processes; it is interpreted on the types of the columns and on the
  UNIQUE constraints. No property of the blocks is assumed here.
\<close>

section \<open>Invariants of the database\<close>

locale db_invariant =
  fixes inv :: "db \<Rightarrow> bool"
  assumes block: "inv d \<Longrightarrow> inv (block_effect factor b d)"
    and chain: "inv d \<Longrightarrow> inv (d\<lparr>d_chain := c\<rparr>)"
    and algos: "inv d \<Longrightarrow> inv (d\<lparr>d_algos := as\<rparr>)"
begin

lemma height:
  assumes "ingest_height env factor h x = (Inr blk, x')" and "\<not> x_aborted x" and "inv (x_db x)"
  shows "inv (x_db x') \<and> \<not> x_aborted x'"
proof -
  obtain b where "insert_block_bundle (e_fault env) factor b (tick (tick x)) = (Inr (), x')"
    using assms(1) by (auto simp: ingest_height_def split: sum.splits prod.splits)
  note B = tx_refinesD [OF insert_block_bundle_refines this]
  have "x_db x' = block_effect factor b (x_db x)" "\<not> x_aborted x'"
    using B(3,4) assms(2) by (simp_all add: tick_def)
  then show ?thesis using block assms(3) by simp
qed

lemma heights:
  assumes "ingest_heights env factor hs tip x = (Inr tip', x')" and "\<not> x_aborted x" and "inv (x_db x)"
  shows "inv (x_db x') \<and> \<not> x_aborted x'"
  using assms
proof (induction hs arbitrary: tip x)
  case (Cons h hs)
  then obtain blk x1 where "ingest_height env factor h x = (Inr blk, x1)"
      "ingest_heights env factor hs (blk_height blk, blk_hash blk) x1 = (Inr tip', x')"
    by (auto split: sum.splits prod.splits)
  then show ?case using height Cons.IH Cons.prems(2,3) by blast
qed simp

lemma batch: "inv (w_db w) \<Longrightarrow> inv (w_db (snd (ingest_batch env factor s e w)))"
proof -
  assume w: "inv (w_db w)"
  show ?thesis
  proof (cases "e_fault env (w_clock w)")
    case None
    define x0 where "x0 = \<lparr>x_db = w_db w, x_aborted = False, x_clock = Suc (w_clock w)\<rparr>"
    obtain r x1 where h: "ingest_heights env factor [s .. e] (-1, zero_hash) x0 = (r, x1)" by fastforce
    show ?thesis
    proof (cases r)
      case (Inl err)
      then show ?thesis using w h None by (simp add: ingest_batch_def x0_def)
    next
      case (Inr t)
      obtain lastHeight lastHash where t: "t = (lastHeight, lastHash)" by fastforce
      have x1: "inv (x_db x1)" "\<not> x_aborted x1" using heights [of env factor _ _ x0] h Inr w by (auto simp: x0_def)
      obtain r2 x2 where u: "exec_tx (e_fault env) (sql_update_chain_state lastHeight lastHash) x1 = (r2, x2)" by fastforce
      have "is_ok r2 \<Longrightarrow> inv (x_db x2)"
        using tx_refinesD(3) [OF tx_refines_exec u] x1 chain by (simp add: sql_update_chain_state_def)
      then show ?thesis
        using w u h Inr t None by (auto simp: ingest_batch_def x0_def [symmetric] split: sum.split option.split)
    qed
  qed (use w in \<open>simp add: ingest_batch_def\<close>)
qed

lemma range: "ingest_range fuel env factor B s e w = Some (r, w') \<Longrightarrow> inv (w_db w) \<Longrightarrow> inv (w_db w')"
proof (induction fuel arbitrary: s w)
  case (Suc fuel)
  show ?case
  proof (cases "s > e \<or> e_cancelled env (w_clock w)")
    case True
    then show ?thesis using Suc.prems by (auto split: if_splits)
  next
    case False
    obtain r1 w1 where b: "ingest_batch env factor s (batch_end B s e) w = (r1, w1)" by fastforce
    then have "inv (w_db w1)" using batch [OF Suc.prems(2), of env factor s "batch_end B s e"] by simp
    then show ?thesis using Suc.prems(1) Suc.IH False b by (cases r1) (auto simp: Let_def)
  qed
qed simp

lemma iter: "run_iter fuel p s = Some (x, s') \<Longrightarrow> inv (w_db (rs_world s)) \<Longrightarrow> inv (w_db (rs_world s'))"
proof -
  assume run: "run_iter fuel p s = Some (x, s')" and s: "inv (w_db (rs_world s))"
  have tip: "inv (w_db (rs_world (snd (tip_step p s1))))" if "inv (w_db (rs_world s1))" for s1
    using that tip_step_db [of p s1 "fst (tip_step p s1)" "snd (tip_step p s1)"] algos refresh_algo_stats_frame
    by (metis prod.collapse)
  show ?thesis
  proof (cases "e_cancelled (p_env p) (w_clock (rs_world s))")
    case True
    then show ?thesis using run s by (simp add: run_iter_def Let_def)
  next
    case False
    note run1 = run [unfolded run_iter_def Let_def, simplified False if_False]
    from run1 obtain r n ds where rt: "retry_get_block_count fuel (p_env p) 0 (w_clock (rs_world s)) = Some (r, n, ds)"
      by (cases "retry_get_block_count fuel (p_env p) 0 (w_clock (rs_world s))") auto
    show ?thesis
    proof (cases r)
      case (Inl e)
      then show ?thesis using run1 rt s by (auto simp: at_clock_def)
    next
      case (Inr t)
      obtain r1 w1 where gt: "get_db_tip (p_env p) ((rs_world s)\<lparr>w_clock := n\<rparr>) = (r1, w1)" by fastforce
      have w1: "inv (w_db w1)" using get_db_tip_cases(1) [OF gt] s by simp
      note run2 = run1 [unfolded rt Inr, simplified, unfolded gt, simplified]
      then show ?thesis
        using w1 range tip [of "s\<lparr>rs_world := w1\<rparr>"]
        by (auto split: sum.splits prod.splits if_splits option.splits dest: sym)
    qed
  qed
qed

lemma loop: "run_loop n fuel p s = Some (x, s') \<Longrightarrow> inv (w_db (rs_world s)) \<Longrightarrow> inv (w_db (rs_world s'))"
proof (induction n arbitrary: s)
  case (Suc n)
  obtain y s1 where it: "run_iter fuel p s = Some (y, s1)" using Suc.prems(1) by (cases "run_iter fuel p s") auto
  then show ?case using Suc iter [OF it] by (cases y) auto
qed simp

lemma process: "run n fuel p w = Some (x, w') \<Longrightarrow> inv (w_db w) \<Longrightarrow> inv (w_db w')"
proof -
  assume run: "run n fuel p w = Some (x, w')" and w: "inv (w_db w)"
  obtain r w1 where c: "ensure_chain_state (p_env p) w = (r, w1)" by fastforce
  have "inv (sql_ensure_chain_state (w_db w))"
    using w chain by (simp add: sql_ensure_chain_state_def split: option.split)
  then have w1: "inv (w_db w1)" using c w by (auto simp: ensure_chain_state_def split: option.splits)
  show ?thesis
    using run c w1 loop [of n fuel p "\<lparr>rs_world = w1, rs_sub = start_sub p\<rparr>"]
    by (cases r) (auto simp: run_def)
qed

lemma processes: "inv d \<Longrightarrow> inv (daemon fuel ps d)"
proof (induction ps arbitrary: d)
  case (Cons np ps)
  obtain n p where np: "np = (n, p)" by fastforce
  show ?case
    using Cons.IH Cons.prems process [of n fuel p "\<lparr>w_db = d, w_clock = 0\<rparr>"] by (auto simp: np split: option.split)
qed simp

end

section \<open>The types of the columns\<close>

text \<open>\<open>CHAR(64)\<close>, \<open>BIGINT\<close>, and text that is NULL rather than blank.\<close>

definition column64 :: "string \<Rightarrow> bool" where
  "column64 s \<longleftrightarrow> 64 \<le> length s"

definition column_text :: "string option \<Rightarrow> bool" where
  "column_text s \<longleftrightarrow> (case s of None \<Rightarrow> True | Some t \<Rightarrow> trim_space t \<noteq> '''')"

definition typed_block :: "block_row \<Rightarrow> bool" where
  "typed_block r \<longleftrightarrow> column64 (b_hash r) \<and> pred_option column64 (b_prev_hash r) \<and> pred_option column64 (b_merkle_root r) \<and>
     in64 (b_nonce r) \<and> in64 (b_total_out r) \<and> b_algo_id r \<in> {0 .. 7} \<and> b_algo_name r = algo_id_to_name (b_algo_id r) \<and>
     pred_option (\<lambda>x. \<not> is_nan x \<and> \<not> is_inf x) (b_difficulty r) \<and> column_text (b_bits r) \<and>
     column_text (b_chainwork r) \<and> column_text (b_auxpow_sign r) \<and> column_text (b_coreversion r)"

definition typed_tx :: "tx_row \<Rightarrow> bool" where
  "typed_tx r \<longleftrightarrow> column64 (t_txid r) \<and> column64 (t_block_hash r) \<and> 0 \<le> t_position r \<and> in64 (t_total_out r)"

text \<open>A coinbase input carries its text and names no output; the link of an input is a value that fits.\<close>

definition typed_input :: "input_row \<Rightarrow> bool" where
  "typed_input r \<longleftrightarrow> column64 (i_txid r) \<and> 0 \<le> i_vin r \<and> pred_option column64 (i_prev_txid r) \<and>
     column_text (i_script_sig_hex r) \<and> pred_option in64 (i_prev_value r) \<and> column_text (i_prev_address r) \<and>
     (i_is_coinbase r \<longleftrightarrow> i_coinbase_hex r \<noteq> None) \<and> (i_is_coinbase r \<longrightarrow> i_prev_txid r = None \<and> i_prev_vout r = None)"

text \<open>An output is spent in all three columns or in none.\<close>

definition typed_output :: "output_row \<Rightarrow> bool" where
  "typed_output r \<longleftrightarrow> column64 (o_txid r) \<and> in64 (o_value r) \<and> column_text (o_script_type r) \<and>
     column_text (o_script_hex r) \<and> column_text (o_address r) \<and> pred_option column64 (o_spent_by_txid r) \<and>
     (o_spent_by_vin r = None \<longleftrightarrow> o_spent_by_txid r = None) \<and> (o_spent_in_height r = None \<longleftrightarrow> o_spent_by_txid r = None)"

definition tables_typed :: "db \<Rightarrow> bool" where
  "tables_typed d \<longleftrightarrow> list_all typed_block (d_blocks d) \<and> list_all typed_tx (d_txs d) \<and>
     list_all typed_input (d_inputs d) \<and> list_all typed_output (d_outputs d)"

named_theorems column_simps

lemma column_char64 [column_simps]: "column64 (char64 s)"
  by (simp add: column64_def char64_def)

lemma column_null_if_empty [column_simps]: "column_text (null_if_empty s)" "column_text None"
  by (simp_all add: column_text_def null_if_empty_def)

lemma column_option [column_simps]: "pred_option column64 (map_option char64 x)"
  by (cases x) (simp_all add: column_char64)

lemma i64_in64: "in64 (i64_of_f x)"
  by (cases x) (simp_all add: i64_of_f_def in64_def)

lemma coin_in64 [column_simps]: "in64 (coin_to_base_units v factor)"
  by (simp add: coin_to_base_units_def i64_in64)

lemma sum_in64 [column_simps]: "in64 acc \<Longrightarrow> in64 (sum_base_units factor vs acc)"
  by (induction vs arbitrary: acc) (simp_all add: sum_base_units_def)

lemma block_total_in64 [column_simps]: "in64 (block_total_out factor b)"
proof -
  have step: "in64 (fold (\<lambda>t acc. sum_base_units factor (tx_vout t) acc) ts acc)" if "in64 acc" for ts acc
    using that by (induction ts arbitrary: acc) (simp_all add: sum_in64)
  have "in64 0" by (simp add: in64_def)
  then show ?thesis unfolding block_total_out_def by (rule step)
qed

lemma typed_rows:
  "typed_block (block_row_of factor b)" "typed_tx (tx_row_of factor b k t)" "typed_input (input_row_of t k v)"
  "typed_output (output_row_of factor t w)"
proof -
  have "pred_option (\<lambda>x. \<not> is_nan x \<and> \<not> is_inf x) (null_if_nan y)" for y by (simp add: null_if_nan_def)
  then show "typed_block (block_row_of factor b)"
    using decode_algo_range [of "blk_version b"]
    by (simp add: typed_block_def block_row_of_def Let_def column_simps)
  have "in64 0" by (simp add: in64_def)
  then show "typed_tx (tx_row_of factor b k t)" by (simp add: typed_tx_def tx_row_of_def column_simps)
  show "typed_input (input_row_of t k v)" "typed_output (output_row_of factor t w)"
    by (simp_all add: typed_input_def input_row_of_def typed_output_def output_row_of_def column_simps)
qed

section \<open>Every statement keeps the types\<close>

lemma typed_inserts:
  assumes "tables_typed d"
  shows "typed_block r \<Longrightarrow> tables_typed (sql_insert_block r d)"
    and "typed_tx t \<Longrightarrow> tables_typed (sql_insert_tx t d)"
    and "typed_input i \<Longrightarrow> tables_typed (sql_insert_input i d)"
    and "typed_output p \<Longrightarrow> tables_typed (sql_insert_output p d)"
  using assms blocks_table.ins_mem txs_table.ins_mem inputs_table.ins_mem outputs_table.ins_mem
  unfolding tables_typed_def list_all_iff table_simps by blast+

lemma prevout_typed:
  assumes "tables_typed d"
  shows "in64 (fst (prev_or_zero (sql_select_prevout x n d)))"
    and "column_text (snd (prev_or_zero (sql_select_prevout x n d)))"
proof -
  have "in64 (o_value r) \<and> column_text (o_address r)" if "find p (d_outputs d) = Some r" for p r
    using assms find_Some_mem [OF that] by (auto simp: tables_typed_def list_all_iff typed_output_def)
  moreover have "in64 0" by (simp add: in64_def)
  ultimately show "in64 (fst (prev_or_zero (sql_select_prevout x n d)))"
      "column_text (snd (prev_or_zero (sql_select_prevout x n d)))"
    by (auto simp: prev_or_zero_def sql_select_prevout_def select_one_def column_simps split: option.split)
qed

lemma typed_update_input:
  assumes "tables_typed d" and "in64 v" and "column_text a"
  shows "tables_typed (sql_update_input_prev v a x n d)"
  using assms
  by (auto simp: tables_typed_def sql_update_input_prev_def update_where_def list_all_iff typed_input_def)

lemma typed_mark_spent:
  assumes "tables_typed d"
  shows "tables_typed (sql_mark_spent y w h x n d)"
  using assms column_char64
  by (auto simp: tables_typed_def sql_mark_spent_def update_where_def list_all_iff typed_output_def)

lemma typed_fold: "(\<And>a e. tables_typed e \<Longrightarrow> tables_typed (f a e)) \<Longrightarrow> tables_typed d \<Longrightarrow> tables_typed (fold f as d)"
  by (induction as arbitrary: d) simp_all

lemma typed_link: "tables_typed d \<Longrightarrow> tables_typed (link_effect b t iv d)"
  by (simp add: link_effect_def Let_def typed_mark_spent typed_update_input prevout_typed)

lemma typed_tx_effect: "tables_typed d \<Longrightarrow> tables_typed (tx_effect factor b pt d)"
  by (simp add: tx_effect_def Let_def links_effect_def outputs_effect_def inputs_effect_def typed_fold typed_link
      typed_inserts typed_rows)

lemma typed_block_effect: "tables_typed d \<Longrightarrow> tables_typed (block_effect factor b d)"
  by (simp add: block_effect_def typed_fold typed_tx_effect typed_inserts typed_rows)

lemma wf_keys_block_effect: "wf_keys d \<Longrightarrow> wf_keys (block_effect factor b d)"
proof -
  have "wf_keys (fold (tx_effect factor b) pts e)" if "wf_keys e" for pts e
    using that by (induction pts arbitrary: e) (simp_all add: tx_effect_wf_keys)
  then show "wf_keys d \<Longrightarrow> ?thesis" by (simp add: block_effect_def wf_keys_effects)
qed

interpretation typed: db_invariant tables_typed
  by unfold_locales (simp_all add: typed_block_effect, simp_all add: tables_typed_def)

interpretation keyed: db_invariant wf_keys
  by unfold_locales (simp_all add: wf_keys_block_effect, simp_all add: wf_keys_def)

section \<open>Properties\<close>


section \<open>Witnesses\<close>


end
