(* ===== verification/Backfill.thy ===== *)
theory Backfill
  imports Ingest_Range Go_Sha256 "HOL-Library.Multiset"
begin

text \<open>
  The backfill command (\<open>indexer/cmd/backfill-addresses/main.go\<close>): Base58Check addresses, their decoding
  from output scripts, and the two phases that fill the addresses of old rows, over the tables and the
  transactions of \<open>Schema\<close>. An address determines the version byte and the hash it was made from; a run
  that stops anywhere can be repeated; a completed run keeps the links between inputs and outputs.
\<close>

section \<open>Base58Check\<close>

definition version_p2pkh :: "8 word" where
  "version_p2pkh = 85"

definition version_p2sh :: "8 word" where
  "version_p2sh = 5"

definition base58_alphabet :: string where
  "base58_alphabet = ''123456789ABCDEFGHJKLMNPQRSTUVWXYZabcdefghijkmnopqrstuvwxyz''"

text \<open>The digits of the loop over \<open>DivMod\<close>, least significant first.\<close>

fun base58_digits :: "nat \<Rightarrow> string" where
  "base58_digits n = (if n = 0 then [] else base58_alphabet ! (n mod 58) # base58_digits (n div 58))"

declare base58_digits.simps [simp del]

definition leading_ones :: "byte_seq \<Rightarrow> string" where
  "leading_ones full = map (\<lambda>_. base58_alphabet ! 0) (takeWhile (\<lambda>b. b = 0) full)"

text \<open>\<open>copy(full[1:], hash20)\<close> into 21 zero bytes keeps at most 20 bytes.\<close>

definition check_payload :: "8 word \<Rightarrow> byte_seq \<Rightarrow> byte_seq" where
  "check_payload version hash20 =
     (let payload = version # take 20 (hash20 @ replicate 20 0)
      in payload @ take 4 (sha256 (sha256 payload)))"

definition base58_check :: "8 word \<Rightarrow> byte_seq \<Rightarrow> string" where
  "base58_check version hash20 =
     (let full = check_payload version hash20
      in rev (base58_digits (bytes_value full) @ leading_ones full))"

definition decode_script_address :: "string \<Rightarrow> string \<Rightarrow> string" where
  "decode_script_address scriptType scriptHex =
     (case hex_decode scriptHex of
        None \<Rightarrow> ''''
      | Some raw \<Rightarrow>
          if scriptType = ''pubkeyhash'' then
            (if length raw = 25 \<and> raw ! 0 = 0x76 \<and> raw ! 1 = 0xa9 \<and> raw ! 2 = 0x14 \<and> raw ! 23 = 0x88 \<and> raw ! 24 = 0xac
             then base58_check version_p2pkh (take 20 (drop 3 raw)) else '''')
          else if scriptType = ''scripthash'' then
            (if length raw = 23 \<and> raw ! 0 = 0xa9 \<and> raw ! 1 = 0x14 \<and> raw ! 22 = 0x87
             then base58_check version_p2sh (take 20 (drop 2 raw)) else '''')
          else '''')"

section \<open>Phase 1: output addresses\<close>

text \<open>One entry of the batch; the output number is kept as text, as the source does.\<close>

record batch_row =
  br_txid :: string
  br_vout :: string
  br_addr :: string

definition sql_set_address :: "batch_row \<Rightarrow> db \<Rightarrow> db" where
  "sql_set_address b d =
     d\<lparr>d_outputs := update_where (\<lambda>r. o_txid r = char64 (br_txid b) \<and> itoa (o_vout r) = br_vout b)
        (\<lambda>r. r\<lparr>o_address := Some (br_addr b)\<rparr>) (d_outputs d)\<rparr>"

definition flush :: "env \<Rightarrow> batch_row list \<Rightarrow> world \<Rightarrow> unit result \<times> world" where
  "flush env batch w =
     (if batch = [] then (Inr (), w)
      else case e_fault env (w_clock w) of
             Some e \<Rightarrow> (Inl e, w\<lparr>w_clock := Suc (w_clock w)\<rparr>)
           | None \<Rightarrow>
               (case for_tx (\<lambda>b. exec_tx (e_fault env) (sql_set_address b)) batch
                       \<lparr>x_db = w_db w, x_aborted = False, x_clock = Suc (w_clock w)\<rparr> of
                  (Inl e, x) \<Rightarrow> (Inl e, w\<lparr>w_clock := Suc (x_clock x)\<rparr>)
                | (Inr _, x) \<Rightarrow>
                    (case e_fault env (x_clock x) of
                       Some e \<Rightarrow>
                         (Inl e, \<lparr>w_db = (if e_commit_applied env (x_clock x) then x_db x else w_db w),
                                  w_clock = Suc (x_clock x)\<rparr>)
                     | None \<Rightarrow> (Inr (), \<lparr>w_db = x_db x, w_clock = Suc (x_clock x)\<rparr>))))"

definition wants_address :: "output_row \<Rightarrow> bool" where
  "wants_address r \<longleftrightarrow> o_address r = None \<and> o_script_hex r \<noteq> None \<and>
     (o_script_type r = Some ''pubkeyhash'' \<or> o_script_type r = Some ''scripthash'')"

definition row_address :: "output_row \<Rightarrow> string" where
  "row_address r =
     (case (o_script_type r, o_script_hex r) of (Some t, Some h) \<Rightarrow> decode_script_address t h | _ \<Rightarrow> '''')"

definition batch_row_of :: "output_row \<Rightarrow> batch_row" where
  "batch_row_of r = \<lparr>br_txid = o_txid r, br_vout = itoa (o_vout r), br_addr = row_address r\<rparr>"

fun backfill_rows :: "env \<Rightarrow> int \<Rightarrow> output_row list \<Rightarrow> batch_row list \<Rightarrow> world \<Rightarrow> unit result \<times> world" where
  "backfill_rows env batchSize [] batch w = flush env batch w"
| "backfill_rows env batchSize (r # rs) batch w =
     (if row_address r = '''' then backfill_rows env batchSize rs batch w
      else (let batch' = batch @ [batch_row_of r]
            in if int (length batch') \<ge> batchSize then
                 (case flush env batch' w of
                    (Inl e, w') \<Rightarrow> (Inl e, w')
                  | (Inr _, w') \<Rightarrow> backfill_rows env batchSize rs [] w')
               else backfill_rows env batchSize rs batch' w))"

text \<open>The rows come in any order (\<open>ord\<close>) and may end early with the connection (\<open>broken\<close>).\<close>

definition backfill_output_addresses ::
  "env \<Rightarrow> (output_row list \<Rightarrow> output_row list) \<Rightarrow> nat option \<Rightarrow> int \<Rightarrow> world \<Rightarrow> unit result \<times> world" where
  "backfill_output_addresses env ord broken batchSize w =
     (case e_fault env (w_clock w) of
        Some e \<Rightarrow> (Inl e, w\<lparr>w_clock := Suc (w_clock w)\<rparr>)
      | None \<Rightarrow>
          backfill_rows env batchSize (delivered broken (ord (filter wants_address (d_outputs (w_db w))))) []
            (w\<lparr>w_clock := Suc (w_clock w)\<rparr>))"

section \<open>Phase 2: input addresses\<close>

definition joins :: "input_row \<Rightarrow> output_row \<Rightarrow> bool" where
  "joins i r \<longleftrightarrow> i_prev_txid i = Some (o_txid r) \<and> i_prev_vout i = Some (o_vout r) \<and> \<not> i_is_coinbase i \<and>
     (i_prev_value i = None \<or> i_prev_address i = None) \<and> o_address r \<noteq> None"

definition sql_backfill_inputs :: "db \<Rightarrow> db" where
  "sql_backfill_inputs d =
     d\<lparr>d_inputs := map (\<lambda>i. case find (joins i) (d_outputs d) of
          None \<Rightarrow> i
        | Some r \<Rightarrow> i\<lparr>i_prev_value := Some (o_value r), i_prev_address := o_address r\<rparr>) (d_inputs d)\<rparr>"

definition backfill_input_addresses :: "env \<Rightarrow> world \<Rightarrow> unit result \<times> world" where
  "backfill_input_addresses env w =
     (case e_fault env (w_clock w) of
        Some e \<Rightarrow>
          (Inl e, \<lparr>w_db = (if e_commit_applied env (w_clock w) then sql_backfill_inputs (w_db w) else w_db w),
                   w_clock = Suc (w_clock w)\<rparr>)
      | None \<Rightarrow> (Inr (), \<lparr>w_db = sql_backfill_inputs (w_db w), w_clock = Suc (w_clock w)\<rparr>))"

text \<open>\<open>main\<close> after its set-up; an error of a phase ends the process with a message.\<close>

definition backfill_main ::
  "env \<Rightarrow> (output_row list \<Rightarrow> output_row list) \<Rightarrow> nat option \<Rightarrow> int \<Rightarrow> world \<Rightarrow> unit result \<times> world" where
  "backfill_main env ord broken batchFlag w =
     (case backfill_output_addresses env ord broken batchFlag w of
        (Inl e, w') \<Rightarrow> (Inl (''output address backfill: '' @ e), w')
      | (Inr _, w') \<Rightarrow>
          (case backfill_input_addresses env w' of
             (Inl e, w'') \<Rightarrow> (Inl (''input address backfill: '' @ e), w'')
           | (Inr _, w'') \<Rightarrow> (Inr (), w'')))"

section \<open>Reading an address back\<close>

definition base58_index :: "char \<Rightarrow> nat" where
  "base58_index c = length (takeWhile (\<lambda>x. x \<noteq> c) base58_alphabet)"

definition base58_value :: "string \<Rightarrow> nat" where
  "base58_value s = foldl (\<lambda>v c. 58 * v + base58_index c) 0 s"

definition address_bytes :: "string \<Rightarrow> byte_seq" where
  "address_bytes s = to_bytes 25 (base58_value s)"

lemma base58_index_digit: "n < 58 \<Longrightarrow> base58_index (base58_alphabet ! n) = n"
proof -
  have "list_all (\<lambda>n. base58_index (base58_alphabet ! n) = n) [0 ..< 58]" by code_simp
  then show "n < 58 \<Longrightarrow> base58_index (base58_alphabet ! n) = n" by (simp add: list_all_iff)
qed

lemma base58_value_rev:
  "base58_value (rev ds) = foldr (\<lambda>c v. 58 * v + base58_index c) ds 0"
  by (simp add: base58_value_def foldl_conv_foldr)

lemma base58_value_digits:
  assumes "\<And>c. c \<in> set zs \<Longrightarrow> base58_index c = 0"
  shows "base58_value (rev (base58_digits n @ zs)) = n"
proof -
  have zs: "foldr (\<lambda>c v. 58 * v + base58_index c) zs 0 = 0" using assms by (induction zs) auto
  have "foldr (\<lambda>c v. 58 * v + base58_index c) (base58_digits n) 0 = n"
  proof (induction n rule: base58_digits.induct)
    case (1 n)
    show ?case
    proof (cases "n = 0")
      case False
      then have "foldr (\<lambda>c v. 58 * v + base58_index c) (base58_digits n) 0 =
          58 * (n div 58) + base58_index (base58_alphabet ! (n mod 58))"
        using 1 by (subst base58_digits.simps) simp
      then show ?thesis by (simp add: base58_index_digit)
    qed (simp add: base58_digits.simps)
  qed
  then show ?thesis by (simp only: base58_value_rev foldr_append zs)
qed

lemma length_check_payload [simp]: "length (check_payload v h) = 25"
  by (simp add: check_payload_def)

lemma address_bytes_check: "address_bytes (base58_check v h) = check_payload v h"
proof -
  have "base58_index c = 0" if "c \<in> set (leading_ones (check_payload v h))" for c
    using that base58_index_digit [of 0] by (auto simp: leading_ones_def)
  then have "base58_value (base58_check v h) = bytes_value (check_payload v h)"
    by (simp only: base58_check_def Let_def base58_value_digits)
  then show ?thesis using to_bytes_value [of "check_payload v h"] by (simp add: address_bytes_def)
qed

lemma check_payload_parts:
  assumes "length h = 20"
  shows "check_payload v h = v # h @ take 4 (sha256 (sha256 (v # h)))"
  using assms by (simp add: check_payload_def)

lemma base58_check_inj:
  assumes "base58_check v h = base58_check v' h'" and "length h = 20" "length h' = 20"
  shows "v = v' \<and> h = h'"
proof -
  have "check_payload v h = check_payload v' h'" using arg_cong [OF assms(1), of address_bytes] by (simp add: address_bytes_check)
  then show ?thesis using assms(2,3) by (simp add: check_payload_parts)
qed

lemma base58_check_nonempty: "v \<noteq> 0 \<Longrightarrow> base58_check v h \<noteq> ''''"
proof
  assume "v \<noteq> 0" "base58_check v h = ''''"
  then have "to_bytes 25 0 = check_payload v h" using address_bytes_check [of v h] by (simp add: address_bytes_def base58_value_def)
  moreover have "hd (check_payload v h) = v" by (simp add: check_payload_def)
  moreover have "hd (to_bytes 25 0) = 0" by code_simp
  ultimately show False using \<open>v \<noteq> 0\<close> by simp
qed

section \<open>Scripts\<close>

definition p2pkh_script :: "byte_seq \<Rightarrow> byte_seq" where
  "p2pkh_script h = [0x76, 0xa9, 0x14] @ h @ [0x88, 0xac]"

definition p2sh_script :: "byte_seq \<Rightarrow> byte_seq" where
  "p2sh_script h = [0xa9, 0x14] @ h @ [0x87]"

lemma list_parts: "xs = take m xs @ take n (drop m xs) @ drop (m + n) xs"
  by (metis add.commute append_take_drop_id drop_drop)

lemma p2pkh_shape:
  "(length raw = 25 \<and> raw ! 0 = 0x76 \<and> raw ! 1 = 0xa9 \<and> raw ! 2 = 0x14 \<and> raw ! 23 = 0x88 \<and> raw ! 24 = 0xac) \<longleftrightarrow>
     (\<exists>h. length h = 20 \<and> raw = p2pkh_script h)"
proof
  assume a: "length raw = 25 \<and> raw ! 0 = 0x76 \<and> raw ! 1 = 0xa9 \<and> raw ! 2 = 0x14 \<and> raw ! 23 = 0x88 \<and> raw ! 24 = 0xac"
  have "raw = take 3 raw @ take 20 (drop 3 raw) @ drop 23 raw" using list_parts [of raw 3 20] by simp
  moreover have "take 3 raw = [0x76, 0xa9, 0x14]" "drop 23 raw = [0x88, 0xac]"
    using a by (auto simp: list_eq_iff_nth_eq less_Suc_eq numeral_eq_Suc)
  ultimately show "\<exists>h. length h = 20 \<and> raw = p2pkh_script h"
    using a by (intro exI [of _ "take 20 (drop 3 raw)"]) (simp add: p2pkh_script_def)
qed (auto simp: p2pkh_script_def nth_append nth_Cons')

lemma p2sh_shape:
  "(length raw = 23 \<and> raw ! 0 = 0xa9 \<and> raw ! 1 = 0x14 \<and> raw ! 22 = 0x87) \<longleftrightarrow> (\<exists>h. length h = 20 \<and> raw = p2sh_script h)"
proof
  assume a: "length raw = 23 \<and> raw ! 0 = 0xa9 \<and> raw ! 1 = 0x14 \<and> raw ! 22 = 0x87"
  have "raw = take 2 raw @ take 20 (drop 2 raw) @ drop 22 raw" using list_parts [of raw 2 20] by simp
  moreover have "take 2 raw = [0xa9, 0x14]" "drop 22 raw = [0x87]"
    using a by (auto simp: list_eq_iff_nth_eq less_Suc_eq numeral_eq_Suc)
  ultimately show "\<exists>h. length h = 20 \<and> raw = p2sh_script h"
    using a by (intro exI [of _ "take 20 (drop 2 raw)"]) (simp add: p2sh_script_def)
qed (auto simp: p2sh_script_def nth_append nth_Cons')

lemma decode_script_address_iff:
  "decode_script_address t s = a \<and> a \<noteq> '''' \<longleftrightarrow>
     (\<exists>h. length h = 20 \<and>
        ((t = ''pubkeyhash'' \<and> hex_decode s = Some (p2pkh_script h) \<and> a = base58_check version_p2pkh h) \<or>
         (t = ''scripthash'' \<and> hex_decode s = Some (p2sh_script h) \<and> a = base58_check version_p2sh h)))"
  (is "?L \<longleftrightarrow> ?R")
proof
  have hash: "take 20 (drop 3 (p2pkh_script h)) = h" "take 20 (drop 2 (p2sh_script h)) = h" if "length h = 20" for h
    using that by (simp_all add: p2pkh_script_def p2sh_script_def)
  show ?R if ?L
    using that unfolding decode_script_address_def p2pkh_shape p2sh_shape
    by (auto split: option.splits if_splits simp: hash)
  have ne: "base58_check version_p2pkh h \<noteq> ''''" "base58_check version_p2sh h \<noteq> ''''" for h
    by (rule base58_check_nonempty, simp add: version_p2pkh_def version_p2sh_def)+
  show ?L if ?R
    using that unfolding decode_script_address_def p2pkh_shape p2sh_shape by (auto simp: hash ne)
qed

section \<open>Phase 1 as a function of the tables\<close>

definition fill :: "output_row \<Rightarrow> output_row" where
  "fill r = (if wants_address r \<and> row_address r \<noteq> '''' then r\<lparr>o_address := Some (row_address r)\<rparr> else r)"

definition filled :: "db \<Rightarrow> db" where
  "filled d = d\<lparr>d_outputs := map fill (d_outputs d)\<rparr>"

definition fill_keys :: "(string \<times> int) set \<Rightarrow> db \<Rightarrow> db" where
  "fill_keys K d = d\<lparr>d_outputs := map (\<lambda>r. if o_key r \<in> K then fill r else r) (d_outputs d)\<rparr>"

definition good_outputs :: "db \<Rightarrow> bool" where
  "good_outputs d \<longleftrightarrow> distinct (map o_key (d_outputs d)) \<and> (\<forall>r \<in> set (d_outputs d). char64 (o_txid r) = o_txid r)"

lemma fill_simps [simp]:
  "o_key (fill r) = o_key r" "o_txid (fill r) = o_txid r" "o_vout (fill r) = o_vout r" "o_value (fill r) = o_value r"
  "spent_key (fill r) = spent_key r" "o_spent_by_txid (fill r) = o_spent_by_txid r" "fill (fill r) = fill r"
  by (simp_all add: fill_def o_key_def spent_key_def wants_address_def split: option.split)

lemma fill_id: "\<not> wants_address r \<or> row_address r = '''' \<Longrightarrow> fill r = r"
  by (auto simp: fill_def)

lemma filled_fill_keys: "filled (fill_keys K d) = filled d"
  by (simp add: filled_def fill_keys_def comp_def if_distrib cong: if_cong)

lemma fill_keys_all: "\<forall>r \<in> set (d_outputs d). wants_address r \<longrightarrow> o_key r \<in> K \<Longrightarrow> fill_keys K d = filled d"
  by (auto simp: filled_def fill_keys_def fill_def)

lemma good_fill_keys: "good_outputs d \<Longrightarrow> good_outputs (fill_keys K d)"
  by (auto simp: good_outputs_def fill_keys_def comp_def if_distrib cong: if_cong)

lemma fill_keys_empty: "fill_keys {} d = d"
  by (simp add: fill_keys_def)

lemma set_address_fill:
  assumes good: "good_outputs d" and r: "r \<in> set (d_outputs d)" "wants_address r" "row_address r \<noteq> ''''"
  shows "sql_set_address (batch_row_of r) (fill_keys K d) = fill_keys (insert (o_key r) K) d"
proof -
  have sel: "(o_txid s = char64 (o_txid r) \<and> itoa (o_vout s) = itoa (o_vout r)) \<longleftrightarrow> s = r" if "s \<in> set (d_outputs d)" for s
    using good that r(1) distinct_map_key_eq [of o_key "d_outputs d" s r]
    by (auto simp: good_outputs_def itoa_eq_iff o_key_def)
  have key: "o_key s = o_key r \<longleftrightarrow> s = r" if "s \<in> set (d_outputs d)" for s
    using good that r(1) distinct_map_key_eq [of o_key "d_outputs d" s r] by (auto simp: good_outputs_def)
  define cur where "cur s = (if o_key s \<in> K then fill s else s)" for s
  have cur: "o_txid (cur s) = o_txid s" "o_vout (cur s) = o_vout s" for s by (simp_all add: cur_def)
  have pt: "(if o_txid (cur s) = char64 (o_txid r) \<and> itoa (o_vout (cur s)) = itoa (o_vout r)
          then (cur s)\<lparr>o_address := Some (row_address r)\<rparr> else cur s) =
      (if o_key s \<in> insert (o_key r) K then fill s else s)" if "s \<in> set (d_outputs d)" for s
  proof (cases "s = r")
    case True
    then show ?thesis using sel [OF that] r(2,3) unfolding cur by (simp add: cur_def fill_def)
  next
    case False
    then show ?thesis using sel [OF that] key [OF that] unfolding cur by (auto simp: cur_def)
  qed
  have "map (\<lambda>s. if o_txid s = char64 (o_txid r) \<and> itoa (o_vout s) = itoa (o_vout r)
          then s\<lparr>o_address := Some (row_address r)\<rparr> else s) (map cur (d_outputs d)) =
      map (\<lambda>s. if o_key s \<in> insert (o_key r) K then fill s else s) (d_outputs d)"
    unfolding map_map comp_def by (rule map_cong [OF refl pt])
  moreover have "fill_keys K d = d\<lparr>d_outputs := map cur (d_outputs d)\<rparr>"
    by (simp add: fill_keys_def cur_def [abs_def])
  ultimately show ?thesis
    by (simp add: sql_set_address_def update_where_def batch_row_of_def fill_keys_def [of "insert (o_key r) K"])
qed

lemma fold_set_address:
  assumes "good_outputs d" and "\<forall>r \<in> set rs. r \<in> set (d_outputs d) \<and> wants_address r \<and> row_address r \<noteq> ''''"
  shows "fold sql_set_address (map batch_row_of rs) (fill_keys K d) = fill_keys (K \<union> o_key ` set rs) d"
  using assms(2)
proof (induction rs arbitrary: K)
  case (Cons r rs)
  then show ?case using set_address_fill [OF assms(1), of r K] by simp
qed simp

lemma flush_outcome:
  assumes "good_outputs d" and "\<forall>r \<in> set rs. r \<in> set (d_outputs d) \<and> wants_address r \<and> row_address r \<noteq> ''''"
    and "w_db w = fill_keys K d" and run: "flush env (map batch_row_of rs) w = (res, w')"
  shows "\<exists>K'. K \<subseteq> K' \<and> w_db w' = fill_keys K' d" and "is_ok res \<Longrightarrow> w_db w' = fill_keys (K \<union> o_key ` set rs) d"
proof -
  let ?m = "for_tx (\<lambda>b. exec_tx (e_fault env) (sql_set_address b)) (map batch_row_of rs)"
  let ?x0 = "\<lparr>x_db = w_db w, x_aborted = False, x_clock = Suc (w_clock w)\<rparr>"
  obtain r x where x: "?m ?x0 = (r, x)" by fastforce
  have "tx_refines ?m (fold sql_set_address (map batch_row_of rs))"
    using tx_refines_for [of "map batch_row_of rs" "\<lambda>b. exec_tx (e_fault env) (sql_set_address b)" sql_set_address]
      tx_refines_exec by blast
  from tx_refinesD(3) [OF this x] have fin: "is_ok r \<Longrightarrow> x_db x = fill_keys (K \<union> o_key ` set rs) d"
    using fold_set_address [OF assms(1,2)] assms(3) by simp
  have out: "w_db w' = fill_keys K d \<or> w_db w' = fill_keys (K \<union> o_key ` set rs) d"
    and ok: "is_ok res \<Longrightarrow> w_db w' = fill_keys (K \<union> o_key ` set rs) d"
    using run assms(3) x fin unfolding flush_def
    by (auto split: if_splits option.splits sum.splits)
  from out show "\<exists>K'. K \<subseteq> K' \<and> w_db w' = fill_keys K' d" by blast
  from ok show "is_ok res \<Longrightarrow> w_db w' = fill_keys (K \<union> o_key ` set rs) d" .
qed

lemma backfill_rows_outcome:
  assumes good: "good_outputs d"
    and "\<forall>r \<in> set rs. r \<in> set (d_outputs d) \<and> wants_address r"
    and "\<forall>r \<in> set bs. r \<in> set (d_outputs d) \<and> wants_address r \<and> row_address r \<noteq> ''''"
    and "w_db w = fill_keys K d" and "backfill_rows env n rs (map batch_row_of bs) w = (res, w')"
  shows "(\<exists>K'. w_db w' = fill_keys K' d) \<and> (is_ok res \<longrightarrow> w_db w' = fill_keys (K \<union> o_key ` set bs \<union> o_key ` set rs) d)"
  using assms(2-)
proof (induction rs arbitrary: bs K w)
  case Nil
  then show ?case using flush_outcome [OF good, of bs w K env res w'] by auto
next
  case (Cons r rs)
  have here: "r \<in> set (d_outputs d)" "wants_address r" and rest: "\<forall>r \<in> set rs. r \<in> set (d_outputs d) \<and> wants_address r"
    using Cons.prems(1) by simp_all
  show ?case
  proof (cases "row_address r = ''''")
    case True
    have skip: "fill_keys (K \<union> o_key ` set bs \<union> o_key ` set (r # rs)) d = fill_keys (K \<union> o_key ` set bs \<union> o_key ` set rs) d"
    proof -
      have "o_key s = o_key r \<Longrightarrow> fill s = s" if "s \<in> set (d_outputs d)" for s
        using good here(1) that distinct_map_key_eq [of o_key "d_outputs d" s r] True by (simp add: good_outputs_def fill_id)
      then show ?thesis by (auto simp: fill_keys_def)
    qed
    show ?thesis
      using Cons.IH [OF rest Cons.prems(2,3)] Cons.prems(4) True unfolding skip by simp
  next
    case False
    let ?bs = "bs @ [r]"
    have bs: "\<forall>r \<in> set ?bs. r \<in> set (d_outputs d) \<and> wants_address r \<and> row_address r \<noteq> ''''"
      using Cons.prems(2) here False by auto
    have assoc: "K \<union> o_key ` set ?bs \<union> o_key ` set rs = K \<union> o_key ` set bs \<union> o_key ` set (r # rs)" by auto
    show ?thesis
    proof (cases "int (length ?bs) \<ge> n")
      case True
      obtain res1 w1 where fl: "flush env (map batch_row_of ?bs) w = (res1, w1)" by fastforce
      note F = flush_outcome [OF good bs Cons.prems(3) fl]
      show ?thesis
      proof (cases res1)
        case (Inl e)
        then have "res = Inl e" "w' = w1" using Cons.prems(4) False True fl by (simp_all add: Let_def)
        then show ?thesis using F(1) by auto
      next
        case (Inr u)
        then have "backfill_rows env n rs (map batch_row_of []) w1 = (res, w')"
          using Cons.prems(4) False True fl by (simp add: Let_def)
        from Cons.IH [OF rest _ _ this, of "K \<union> o_key ` set ?bs"] show ?thesis
          using F(2) Inr unfolding assoc [symmetric] by simp
      qed
    next
      case not_full: False
      then have "backfill_rows env n rs (map batch_row_of ?bs) w = (res, w')"
        using Cons.prems(4) False by (simp add: Let_def)
      from Cons.IH [OF rest bs Cons.prems(3) this] show ?thesis unfolding assoc .
    qed
  qed
qed

text \<open>Some order of the rows, the same ones.\<close>

definition reorders :: "(output_row list \<Rightarrow> output_row list) \<Rightarrow> bool" where
  "reorders ord \<longleftrightarrow> (\<forall>xs. mset (ord xs) = mset xs)"

lemma reorders_set: "reorders ord \<Longrightarrow> set (ord xs) = set xs"
  unfolding reorders_def by (metis set_mset_mset)

lemma backfill_outputs_outcome:
  assumes "good_outputs (w_db w)" and "reorders ord" and "backfill_output_addresses env ord broken n w = (res, w')"
  shows "\<exists>K. w_db w' = fill_keys K (w_db w)" and "is_ok res \<Longrightarrow> broken = None \<Longrightarrow> w_db w' = filled (w_db w)"
proof -
  let ?d = "w_db w"
  let ?rs = "delivered broken (ord (filter wants_address (d_outputs ?d)))"
  have rs: "\<forall>r \<in> set ?rs. r \<in> set (d_outputs ?d) \<and> wants_address r"
    using reorders_set [OF assms(2), of "filter wants_address (d_outputs ?d)"]
    by (auto simp: delivered_def dest!: in_set_takeD split: option.splits)
  have "(\<exists>K. w_db w' = fill_keys K ?d) \<and> (is_ok res \<and> broken = None \<longrightarrow> w_db w' = filled ?d)"
  proof (cases "e_fault env (w_clock w)")
    case None
    then have run: "backfill_rows env n ?rs (map batch_row_of []) (w\<lparr>w_clock := Suc (w_clock w)\<rparr>) = (res, w')"
      using assms(3) by (simp add: backfill_output_addresses_def)
    note R = backfill_rows_outcome [OF assms(1) rs _ _ run, of "{}"]
    have "fill_keys (o_key ` set (ord (filter wants_address (d_outputs ?d)))) ?d = filled ?d"
      using reorders_set [OF assms(2)] by (intro fill_keys_all) simp
    then show ?thesis using R by (auto simp: fill_keys_empty delivered_def)
  next
    case (Some e)
    then have "w_db w' = fill_keys {} ?d" "\<not> is_ok res"
      using assms(3) by (auto simp: backfill_output_addresses_def fill_keys_empty)
    then show ?thesis by blast
  qed
  then show "\<exists>K. w_db w' = fill_keys K ?d" "is_ok res \<Longrightarrow> broken = None \<Longrightarrow> w_db w' = filled ?d" by blast+
qed

section \<open>The links\<close>

text \<open>
  \<open>linked\<close> of \<open>Ingest_Block\<close>, and every input that names a stored output is the one that spent it; a
  coinbase input names none.
\<close>

definition fully_linked :: "db \<Rightarrow> bool" where
  "fully_linked d \<longleftrightarrow> linked d \<and>
     (\<forall>i \<in> set (d_inputs d). \<forall>r \<in> set (d_outputs d). prev_key i = Some (o_key r) \<longrightarrow> carries i r) \<and>
     (\<forall>i \<in> set (d_inputs d). i_is_coinbase i \<longrightarrow> i_prev_txid i = None)"

definition join_input :: "output_row list \<Rightarrow> input_row \<Rightarrow> input_row" where
  "join_input rs i = (case find (joins i) rs of
     None \<Rightarrow> i | Some r \<Rightarrow> i\<lparr>i_prev_value := Some (o_value r), i_prev_address := o_address r\<rparr>)"

lemma sql_backfill_inputs_join: "sql_backfill_inputs d = d\<lparr>d_inputs := map (join_input (d_outputs d)) (d_inputs d)\<rparr>"
  by (simp add: sql_backfill_inputs_def join_input_def)

lemma join_input_simps [simp]:
  "prev_key (join_input rs i) = prev_key i" "i_key (join_input rs i) = i_key i"
  "i_is_coinbase (join_input rs i) = i_is_coinbase i" "i_prev_txid (join_input rs i) = i_prev_txid i"
  by (simp_all add: join_input_def prev_key_def i_key_def split: option.split)

lemma joins_key: "joins i r \<Longrightarrow> prev_key i = Some (o_key r)"
  by (simp add: joins_def prev_key_def o_key_def)

lemma prev_key_Some: "prev_key i = Some (o_key r) \<longleftrightarrow> i_prev_txid i = Some (o_txid r) \<and> i_prev_vout i = Some (o_vout r)"
  by (auto simp: prev_key_def o_key_def split: option.splits)

lemma carries_backfilled:
  assumes "good_outputs d" and "fully_linked d" and "i \<in> set (d_inputs d)" "r \<in> set (d_outputs d)" and "carries i r"
  shows "carries (join_input (map fill (d_outputs d)) i) (fill r)"
proof -
  let ?rs = "map fill (d_outputs d)"
  have key: "prev_key i = Some (o_key r)" using assms(5) by (simp add: carries_def)
  then have "\<not> i_is_coinbase i" using assms(2,3) by (auto simp: fully_linked_def prev_key_Some)
  have only: "s = fill r" if s: "s \<in> set ?rs" "joins i s" for s
  proof -
    obtain r0 where r0: "r0 \<in> set (d_outputs d)" "s = fill r0" using s(1) by auto
    then have "o_key r0 = o_key r" using joins_key [OF s(2)] key by simp
    then show ?thesis using assms(1,4) r0 distinct_map_key_eq [of o_key "d_outputs d" r0 r] by (simp add: good_outputs_def)
  qed
  show ?thesis
  proof (cases "find (joins i) ?rs")
    case (Some s)
    then have "s = fill r" "joins i s" using only find_Some_mem [OF Some] by blast+
    then show ?thesis using Some assms(5) by (simp add: join_input_def carries_def prev_key_def i_key_def)
  next
    case None
    have "\<not> joins i (fill r)" using None assms(4) by (auto simp: find_None_iff)
    then have "fill r = r"
      using key assms(5) \<open>\<not> i_is_coinbase i\<close> by (auto simp: joins_def prev_key_Some carries_def fill_def wants_address_def split: if_splits)
    then show ?thesis using None assms(5) by (simp add: join_input_def)
  qed
qed

lemma backfilled_links:
  assumes "good_outputs d" and "fully_linked d"
  shows "fully_linked (sql_backfill_inputs (filled d))"
proof -
  let ?J = "join_input (map fill (d_outputs d))"
  have tables: "d_outputs (sql_backfill_inputs (filled d)) = map fill (d_outputs d)"
    "d_inputs (sql_backfill_inputs (filled d)) = map ?J (d_inputs d)"
    by (simp_all add: sql_backfill_inputs_join filled_def)
  note C = carries_backfilled [OF assms]
  have addr: "\<exists>r \<in> set (d_outputs d). carries (?J i) (fill r)" if i: "i \<in> set (d_inputs d)" "i_prev_address (?J i) \<noteq> None" for i
  proof (cases "find (joins i) (map fill (d_outputs d))")
    case None
    then have "i_prev_address i \<noteq> None" using i(2) by (simp add: join_input_def)
    then obtain r where "r \<in> set (d_outputs d)" "carries i r" using assms(2) i(1) by (auto simp: fully_linked_def linked_def)
    then show ?thesis using C i(1) by blast
  next
    case (Some s)
    then obtain r where r: "r \<in> set (d_outputs d)" "joins i (fill r)" using find_Some_mem [OF Some] by auto
    then have "carries i r" using joins_key [OF r(2)] assms(2) i(1) by (auto simp: fully_linked_def)
    then show ?thesis using C i(1) r(1) by blast
  qed
  have "linked (sql_backfill_inputs (filled d))"
    using assms(2) C addr unfolding linked_def fully_linked_def tables by (simp add: ball_simps) blast
  moreover have "carries (?J i) (fill r)" if "i \<in> set (d_inputs d)" "r \<in> set (d_outputs d)" "prev_key i = Some (o_key r)" for i r
    using assms(2) C that by (simp add: fully_linked_def)
  ultimately show ?thesis using assms(2) unfolding fully_linked_def tables by simp
qed

section \<open>Without faults\<close>

lemma for_tx_no_faults:
  assumes "\<And>n. flt n = None" and "\<not> x_aborted x"
  shows "\<exists>x'. for_tx (\<lambda>b. exec_tx flt (f b)) bs x = (Inr (), x')"
  using assms(2)
proof (induction bs arbitrary: x)
  case (Cons b bs)
  then show ?case using assms(1) by (simp add: then_tx_def exec_tx_def)
qed simp

lemma flush_no_faults:
  assumes "\<And>n. e_fault env n = None"
  shows "\<exists>w'. flush env batch w = (Inr (), w')"
proof -
  let ?x = "\<lparr>x_db = w_db w, x_aborted = False, x_clock = Suc (w_clock w)\<rparr>"
  obtain x' where "for_tx (\<lambda>b. exec_tx (e_fault env) (sql_set_address b)) batch ?x = (Inr (), x')"
    using for_tx_no_faults [of "e_fault env" ?x sql_set_address batch] assms by auto
  then show ?thesis using assms by (simp add: flush_def)
qed

lemma backfill_rows_no_faults:
  assumes "\<And>n. e_fault env n = None"
  shows "\<exists>w'. backfill_rows env n rs batch w = (Inr (), w')"
proof (induction rs arbitrary: batch w)
  case Nil
  then show ?case using flush_no_faults [OF assms] by simp
next
  case (Cons r rs)
  obtain w' where "flush env (batch @ [batch_row_of r]) w = (Inr (), w')" using flush_no_faults [OF assms] by blast
  then show ?case using Cons by (simp add: Let_def)
qed

lemma backfill_main_no_faults:
  assumes "\<And>n. e_fault env n = None"
  shows "\<exists>w'. backfill_main env ord broken n w = (Inr (), w')"
proof -
  obtain w' where "backfill_output_addresses env ord broken n w = (Inr (), w')"
    using backfill_rows_no_faults [OF assms] assms unfolding backfill_output_addresses_def by fastforce
  then show ?thesis using assms by (simp add: backfill_main_def backfill_input_addresses_def)
qed

section \<open>Properties\<close>


text \<open>C35: no two scripts share an address: \<open>decodeScriptAddress\<close> gives an address only to the two standard
  scripts, and two scripts with the same address are the same bytes of the same type.\<close>

theorem script_address_injective:
  assumes "decode_script_address t s = a" and "decode_script_address t' s' = a" and "a \<noteq> ''''"
  shows "t = t' \<and> hex_decode s = hex_decode s' \<and>
     (\<exists>h. length h = 20 \<and> (t = ''pubkeyhash'' \<and> hex_decode s = Some (p2pkh_script h) \<or>
                            t = ''scripthash'' \<and> hex_decode s = Some (p2sh_script h)))"
proof -
  have v: "version_p2pkh \<noteq> version_p2sh" by (simp add: version_p2pkh_def version_p2sh_def)
  from assms obtain h h' where h: "length h = 20" "length h' = 20"
    and cases: "(t = ''pubkeyhash'' \<and> hex_decode s = Some (p2pkh_script h) \<and> a = base58_check version_p2pkh h) \<or>
      (t = ''scripthash'' \<and> hex_decode s = Some (p2sh_script h) \<and> a = base58_check version_p2sh h)"
      "(t' = ''pubkeyhash'' \<and> hex_decode s' = Some (p2pkh_script h') \<and> a = base58_check version_p2pkh h') \<or>
      (t' = ''scripthash'' \<and> hex_decode s' = Some (p2sh_script h') \<and> a = base58_check version_p2sh h')"
    using decode_script_address_iff [of t s a] decode_script_address_iff [of t' s' a] by blast
  have inj: "base58_check x h = base58_check y h' \<Longrightarrow> x = y \<and> h = h'" for x y using base58_check_inj h by blast
  show ?thesis using cases h(1) inj v by metis
qed



section \<open>Witnesses\<close>

definition sample_hash :: byte_seq where
  "sample_hash = replicate 20 7"

definition old_output :: output_row where
  "old_output = \<lparr>o_txid = char64 ''t1'', o_vout = 0, o_value = 5, o_script_type = Some ''pubkeyhash'',
     o_script_hex = Some (hex_encode (p2pkh_script sample_hash)), o_address = None,
     o_spent_by_txid = Some (char64 ''t2''), o_spent_by_vin = Some 0, o_spent_in_height = Some 2\<rparr>"

definition old_input :: input_row where
  "old_input = \<lparr>i_txid = char64 ''t2'', i_vin = 0, i_prev_txid = Some (char64 ''t1''), i_prev_vout = Some 0,
     i_script_sig_hex = None, i_sequence = None, i_prev_value = Some 5, i_prev_address = None,
     i_is_coinbase = False, i_coinbase_hex = None\<rparr>"

definition old_world :: world where
  "old_world = \<lparr>w_db = empty_db\<lparr>d_outputs := [old_output], d_inputs := [old_input]\<rparr>, w_clock = 0\<rparr>"

lemma old_world_good: "good_outputs (w_db old_world)" "fully_linked (w_db old_world)"
  by code_simp+

lemma old_output_address: "row_address old_output = base58_check version_p2pkh sample_hash"
proof -
  have "length sample_hash = 20" by (simp add: sample_hash_def)
  then have "decode_script_address ''pubkeyhash'' (hex_encode (p2pkh_script sample_hash)) = base58_check version_p2pkh sample_hash"
    using decode_script_address_iff [of "''pubkeyhash''" "hex_encode (p2pkh_script sample_hash)"
        "base58_check version_p2pkh sample_hash"] by (auto simp: hex_decode_encode)
  then show ?thesis by (simp add: row_address_def old_output_def)
qed

lemma reorders_id: "reorders (\<lambda>xs. xs)"
  by (simp add: reorders_def)


theorem script_address_injective_witness:
  "\<exists>h. length h = 20 \<and> hex_decode (hex_encode (p2pkh_script sample_hash)) = Some (p2pkh_script h)"
proof -
  have "decode_script_address ''pubkeyhash'' (hex_encode (p2pkh_script sample_hash)) = base58_check version_p2pkh sample_hash"
    using old_output_address by (simp add: row_address_def old_output_def)
  moreover have "base58_check version_p2pkh sample_hash \<noteq> ''''" by (rule base58_check_nonempty) (simp add: version_p2pkh_def)
  ultimately show ?thesis
    using script_address_injective [of "''pubkeyhash''" "hex_encode (p2pkh_script sample_hash)" _ "''pubkeyhash''"
        "hex_encode (p2pkh_script sample_hash)"] by auto
qed



end
