(* ===== verification/Explorer_Address.thy ===== *)
theory Explorer_Address
  imports Ingest_Block "HOL-Library.Product_Lexorder" "HOL-Library.Multiset"
begin

text \<open>
  The address page (\<open>generator/internal/db/addressdetail.go\<close>): the totals and the history query over the
  tables the indexer writes, with the running balance. The main results connect it to the ledger of
  \<open>Ingest_Block\<close>: on a database the indexer built from valid blocks, the balance shown, the last
  running balance of the history and the unspent outputs of the address agree.
\<close>

section \<open>Data\<close>

record AddressTxRow =
  at_txid :: string
  at_block_height :: int
  at_time :: int
  at_net_sats :: int
  at_net_btm :: f64
  at_balance_sats :: int
  at_balance_btm :: f64

record AddressDetail =
  ad_address :: string
  ad_balance_sats :: int
  ad_balance_btm :: f64
  ad_recv_sats :: int
  ad_recv_btm :: f64
  ad_sent_sats :: int
  ad_sent_btm :: f64
  ad_tx_count :: int
  ad_txs :: "AddressTxRow list"

type_synonym joined = "tx_row \<times> block_row"

text \<open>
  What the database may do: fail a query, order rows with equal sort keys either way (\<open>aq_order\<close>), or
  lose the connection after some rows (\<open>aq_rows\<close>), which the code does not notice.
\<close>

record addr_query =
  aq_summary :: "string option"
  aq_count :: "string option"
  aq_history :: "string option"
  aq_order :: "joined list \<Rightarrow> joined list"
  aq_rows :: "nat option"

section \<open>Queries\<close>

definition btm :: "int \<Rightarrow> f64" where
  "btm n = f_of_int n / lit 100000000"

definition addr_outputs :: "string \<Rightarrow> db \<Rightarrow> output_row list" where
  "addr_outputs addr d = filter (\<lambda>r. o_address r = Some addr) (d_outputs d)"

definition addr_inputs :: "string \<Rightarrow> db \<Rightarrow> input_row list" where
  "addr_inputs addr d = filter (\<lambda>i. i_prev_address i = Some addr) (d_inputs d)"

definition is_spent :: "output_row \<Rightarrow> bool" where
  "is_spent r \<longleftrightarrow> o_spent_by_txid r \<noteq> None"

definition prev_value :: "input_row \<Rightarrow> int" where
  "prev_value i = (case i_prev_value i of None \<Rightarrow> 0 | Some v \<Rightarrow> v)"

definition total_recv :: "string \<Rightarrow> db \<Rightarrow> int" where
  "total_recv addr d = (\<Sum>r\<leftarrow>addr_outputs addr d. o_value r)"

definition total_spent :: "string \<Rightarrow> db \<Rightarrow> int" where
  "total_spent addr d = (\<Sum>r\<leftarrow>filter is_spent (addr_outputs addr d). o_value r)"

text \<open>The groups \<open>output_txs\<close> and \<open>input_txs\<close> of the history query, and their outer join per transaction.\<close>

definition tx_received :: "string \<Rightarrow> db \<Rightarrow> string \<Rightarrow> int" where
  "tx_received addr d txid = (\<Sum>r\<leftarrow>filter (\<lambda>r. o_txid r = txid) (addr_outputs addr d). o_value r)"

definition tx_spent :: "string \<Rightarrow> db \<Rightarrow> string \<Rightarrow> int" where
  "tx_spent addr d txid = (\<Sum>i\<leftarrow>filter (\<lambda>i. i_txid i = txid) (addr_inputs addr d). prev_value i)"

definition net_sats :: "string \<Rightarrow> db \<Rightarrow> string \<Rightarrow> int" where
  "net_sats addr d txid = tx_received addr d txid - tx_spent addr d txid"

definition touches :: "string \<Rightarrow> db \<Rightarrow> string \<Rightarrow> bool" where
  "touches addr d txid \<longleftrightarrow> txid \<in> o_txid ` set (addr_outputs addr d) \<or> txid \<in> i_txid ` set (addr_inputs addr d)"

definition best_blocks_of :: "db \<Rightarrow> tx_row \<Rightarrow> block_row list" where
  "best_blocks_of d t = filter (\<lambda>b. b_hash b = t_block_hash t \<and> b_in_best_chain b) (d_blocks d)"

definition history_rows :: "string \<Rightarrow> db \<Rightarrow> joined list" where
  "history_rows addr d =
     concat (map (\<lambda>t. map (Pair t) (best_blocks_of d t)) (filter (\<lambda>t. touches addr d (t_txid t)) (d_txs d)))"

definition height_position :: "joined \<Rightarrow> int \<times> int" where
  "height_position tb = (t_block_height (fst tb), t_position (fst tb))"

text \<open>\<open>ORDER BY block_height, position_in_block\<close>: some sorted permutation.\<close>

definition orders_rows :: "(joined list \<Rightarrow> joined list) \<Rightarrow> bool" where
  "orders_rows ord \<longleftrightarrow> (\<forall>xs. mset (ord xs) = mset xs \<and> sorted (map height_position (ord xs)))"

text \<open>The loop over the rows; a net amount that does not fit \<open>int64\<close> makes \<open>Scan\<close> fail and is skipped.\<close>

fun running :: "string \<Rightarrow> db \<Rightarrow> int \<Rightarrow> joined list \<Rightarrow> AddressTxRow list" where
  "running addr d bal [] = []"
| "running addr d bal ((t, b) # rows) =
     (let net = net_sats addr d (t_txid t)
      in if \<not> in64 net then running addr d bal rows
         else (let bal' = wrap64 (bal + net)
               in \<lparr>at_txid = trim_space (t_txid t), at_block_height = t_block_height t, at_time = b_time_utc b,
                   at_net_sats = net, at_net_btm = btm net, at_balance_sats = bal', at_balance_btm = btm bal'\<rparr>
                  # running addr d bal' rows))"

definition err_range :: string where
  "err_range = ''cannot scan numeric into int64''"

definition address_detail :: "addr_query \<Rightarrow> string \<Rightarrow> db \<Rightarrow> AddressDetail option result" where
  "address_detail q addr0 d =
     (let addr = trim_space addr0
      in if addr = '''' then Inr None
         else case aq_summary q of
           Some e \<Rightarrow> Inl e
         | None \<Rightarrow>
             (let recv = total_recv addr d; sent = total_spent addr d
              in if \<not> in64 recv \<or> \<not> in64 sent then Inl err_range
                 else if recv = 0 \<and> sent = 0 \<and> (aq_count q \<noteq> None \<or> addr_inputs addr d = [])
                 then Inr None
                 else case aq_history q of
                   Some e \<Rightarrow> Inl e
                 | None \<Rightarrow>
                     (let bal = wrap64 (recv - sent);
                          txs = running addr d 0 (delivered (aq_rows q) (aq_order q (history_rows addr d)))
                      in Inr (Some \<lparr>ad_address = addr, ad_balance_sats = bal, ad_balance_btm = btm bal,
                                    ad_recv_sats = recv, ad_recv_btm = btm recv, ad_sent_sats = sent,
                                    ad_sent_btm = btm sent, ad_tx_count = int (length txs), ad_txs = txs\<rparr>))))"

section \<open>Sums\<close>

definition final_balance :: "int \<Rightarrow> AddressTxRow list \<Rightarrow> int" where
  "final_balance bal rows = (if rows = [] then bal else at_balance_sats (last rows))"

lemma final_balance_Cons: "final_balance bal (r # rows) = final_balance (at_balance_sats r) rows"
  by (simp add: final_balance_def)

lemma running_final:
  assumes "\<And>t b. (t, b) \<in> set rows \<Longrightarrow> in64 (net_sats addr d (t_txid t))"
  shows "length (running addr d bal rows) = length rows"
    and "final_balance (wrap64 bal) (running addr d (wrap64 bal) rows) =
      wrap64 (bal + (\<Sum>tb\<leftarrow>rows. net_sats addr d (t_txid (fst tb))))"
proof -
  have "length (running addr d bal rows) = length rows \<and>
      final_balance (wrap64 bal) (running addr d (wrap64 bal) rows) =
      wrap64 (bal + (\<Sum>tb\<leftarrow>rows. net_sats addr d (t_txid (fst tb))))" for bal
    using assms
  proof (induction rows arbitrary: bal)
    case Nil
    then show ?case by (simp add: final_balance_def)
  next
    case (Cons tb rows)
    obtain t b where tb: "tb = (t, b)" by fastforce
    let ?n = "net_sats addr d (t_txid t)"
    have n: "in64 ?n" using Cons.prems [of t b] tb by simp
    have ih: "length (running addr d b' rows) = length rows" for b' using Cons.IH Cons.prems by auto
    have "final_balance (wrap64 (bal + ?n)) (running addr d (wrap64 (bal + ?n)) rows) =
        wrap64 (bal + ?n + (\<Sum>tb\<leftarrow>rows. net_sats addr d (t_txid (fst tb))))"
      using Cons.IH [of "bal + ?n"] Cons.prems by auto
    then show ?case using n ih by (simp add: tb Let_def final_balance_Cons add.assoc)
  qed
  then show "length (running addr d bal rows) = length rows"
    "final_balance (wrap64 bal) (running addr d (wrap64 bal) rows) =
      wrap64 (bal + (\<Sum>tb\<leftarrow>rows. net_sats addr d (t_txid (fst tb))))" by auto
qed

text \<open>A sum by groups is the sum, when every element belongs to exactly one group.\<close>

lemma sum_list_singleton_group:
  "distinct (map g ts) \<Longrightarrow> k \<in> g ` set ts \<Longrightarrow> (\<Sum>t\<leftarrow>ts. if k = g t then x else (0 :: int)) = x"
proof (induction ts)
  case (Cons t ts)
  show ?case
  proof (cases "k = g t")
    case True
    have "(\<Sum>t\<leftarrow>us. if k = g t then x else (0 :: int)) = 0" if "k \<notin> g ` set us" for us
      using that by (induction us) auto
    then have "(\<Sum>t\<leftarrow>ts. if k = g t then x else (0 :: int)) = 0" using Cons.prems(1) True by simp
    then show ?thesis using True by simp
  qed (use Cons in auto)
qed simp

lemma sum_list_group:
  assumes "distinct (map g ts)" and "\<And>r. r \<in> set rs \<Longrightarrow> k r \<in> g ` set ts"
  shows "(\<Sum>t\<leftarrow>ts. \<Sum>r\<leftarrow>filter (\<lambda>r. k r = g t) rs. f r) = (\<Sum>r\<leftarrow>rs. f r :: int)"
  using assms(2)
proof (induction rs)
  case (Cons r rs)
  have "(\<Sum>t\<leftarrow>ts. \<Sum>r\<leftarrow>filter (\<lambda>r. k r = g t) (r # rs). f r) =
      (\<Sum>t\<leftarrow>ts. (if k r = g t then f r else 0) + (\<Sum>r\<leftarrow>filter (\<lambda>r. k r = g t) rs. f r))"
    by (intro arg_cong [of _ _ sum_list] map_cong) auto
  also have "\<dots> = f r + (\<Sum>r\<leftarrow>rs. f r)"
    using Cons sum_list_singleton_group [OF assms(1), of "k r" "f r"] by (simp add: sum_list_addf)
  finally show ?case by simp
qed simp

section \<open>The invariant the indexer provides\<close>

text \<open>Every output and input belongs to a stored transaction, and every transaction to a best-chain block.\<close>

definition recorded :: "db \<Rightarrow> bool" where
  "recorded d \<longleftrightarrow>
     o_txid ` set (d_outputs d) \<subseteq> t_txid ` set (d_txs d) \<and>
     i_txid ` set (d_inputs d) \<subseteq> t_txid ` set (d_txs d) \<and>
     t_block_hash ` set (d_txs d) \<subseteq> b_hash ` set (d_blocks d) \<and>
     (\<forall>b \<in> set (d_blocks d). b_in_best_chain b)"

lemma best_blocks_singleton:
  assumes "wf_keys d" and "recorded d" and "t \<in> set (d_txs d)"
  shows "\<exists>b. best_blocks_of d t = [b]"
proof -
  have dist: "distinct (map b_hash (d_blocks d))" using assms(1) by (simp add: wf_keys_def)
  obtain b where b: "b \<in> set (d_blocks d)" "b_hash b = t_block_hash t"
    using assms(2,3) unfolding recorded_def by (metis imageE image_eqI subsetD)
  have "best_blocks_of d t = filter (\<lambda>c. b_hash c = b_hash b) (d_blocks d)"
    using assms(2) b(2) unfolding best_blocks_of_def recorded_def by (intro filter_cong) auto
  moreover have "filter (\<lambda>c. b_hash c = b_hash b) xs = [b]" if "distinct (map b_hash xs)" "b \<in> set xs" for xs
    using that
  proof (induction xs)
    case (Cons x xs)
    then show ?case by (cases "x = b") (auto simp: filter_empty_conv rev_image_eqI)
  qed simp
  ultimately show ?thesis using dist b(1) by auto
qed

lemma history_net_sum:
  assumes "wf_keys d" and "recorded d"
  shows "(\<Sum>tb\<leftarrow>history_rows addr d. net_sats addr d (t_txid (fst tb))) =
     total_recv addr d - (\<Sum>i\<leftarrow>addr_inputs addr d. prev_value i)"
proof -
  let ?net = "\<lambda>t. net_sats addr d (t_txid t)"
  have dist: "distinct (map t_txid (d_txs d))" using assms(1) by (simp add: wf_keys_def)
  have "(\<Sum>tb\<leftarrow>concat (map (\<lambda>t. map (Pair t) (best_blocks_of d t)) (filter P ts)). ?net (fst tb)) =
      (\<Sum>t\<leftarrow>filter P ts. ?net t)" if "set ts \<subseteq> set (d_txs d)" for ts P
    using that
  proof (induction ts)
    case (Cons t ts)
    then obtain b where "best_blocks_of d t = [b]" using best_blocks_singleton [OF assms, of t] by auto
    then show ?case using Cons by simp
  qed simp
  then have "(\<Sum>tb\<leftarrow>history_rows addr d. ?net (fst tb)) =
      (\<Sum>t\<leftarrow>filter (\<lambda>t. touches addr d (t_txid t)) (d_txs d). ?net t)"
    by (simp add: history_rows_def)
  also have "\<dots> = (\<Sum>t\<leftarrow>d_txs d. ?net t)"
  proof -
    have "net_sats addr d x = 0" if "\<not> touches addr d x" for x
    proof -
      have "filter (\<lambda>r. o_txid r = x) (addr_outputs addr d) = []" "filter (\<lambda>i. i_txid i = x) (addr_inputs addr d) = []"
        using that unfolding touches_def by (auto simp: filter_empty_conv)
      then show ?thesis by (simp add: net_sats_def tx_received_def tx_spent_def)
    qed
    then show ?thesis by (intro sum_list_map_filter) auto
  qed
  also have "\<dots> = (\<Sum>t\<leftarrow>d_txs d. tx_received addr d (t_txid t)) - (\<Sum>t\<leftarrow>d_txs d. tx_spent addr d (t_txid t))"
    by (simp add: net_sats_def sum_list_subtractf)
  also have "(\<Sum>t\<leftarrow>d_txs d. tx_received addr d (t_txid t)) = total_recv addr d"
    unfolding tx_received_def total_recv_def
    by (rule sum_list_group [OF dist]) (use assms(2) in \<open>auto simp: recorded_def addr_outputs_def\<close>)
  also have "(\<Sum>t\<leftarrow>d_txs d. tx_spent addr d (t_txid t)) = (\<Sum>i\<leftarrow>addr_inputs addr d. prev_value i)"
    unfolding tx_spent_def
    by (rule sum_list_group [OF dist]) (use assms(2) in \<open>auto simp: recorded_def addr_inputs_def\<close>)
  finally show ?thesis .
qed


text \<open>Spent outputs and the inputs that carry them correspond one to one.\<close>

lemma carries_unique:
  assumes "wf_keys d" and "carries i r" and "carries i' r'"
    and "i \<in> set (d_inputs d)" "i' \<in> set (d_inputs d)" "r \<in> set (d_outputs d)" "r' \<in> set (d_outputs d)"
  shows "i = i' \<longleftrightarrow> r = r'"
proof -
  have di: "distinct (map i_key (d_inputs d))" and do: "distinct (map o_key (d_outputs d))"
    using assms(1) by (simp_all add: wf_keys_def)
  show ?thesis
    using assms distinct_map_key_eq [OF di assms(4,5)] distinct_map_key_eq [OF do assms(6,7)]
    by (auto simp: carries_def)
qed

lemma spent_inputs_sum:
  assumes "wf_keys d" and "linked d"
  shows "(\<Sum>i\<leftarrow>addr_inputs addr d. prev_value i) = total_spent addr d"
proof -
  let ?I = "set (addr_inputs addr d)" and ?R = "set (filter is_spent (addr_outputs addr d))"
  have di: "distinct (addr_inputs addr d)" and dr: "distinct (filter is_spent (addr_outputs addr d))"
    using assms(1) by (simp_all add: wf_keys_def addr_inputs_def addr_outputs_def distinct_map)
  define g where "g i = (SOME r. r \<in> set (d_outputs d) \<and> carries i r)" for i
  have ex: "\<exists>r. r \<in> set (d_outputs d) \<and> carries i r" if "i \<in> ?I" for i
    using that assms(2) unfolding linked_def addr_inputs_def by (metis (mono_tags, lifting) mem_Collect_eq option.distinct(1) set_filter)
  have g: "g i \<in> set (d_outputs d)" "carries i (g i)" if "i \<in> ?I" for i
    using someI_ex [OF ex [OF that]] by (simp_all add: g_def)
  have gR: "g i \<in> ?R" if "i \<in> ?I" for i
  proof -
    have "o_address (g i) = Some addr" "o_spent_by_txid (g i) \<noteq> None"
      using g [OF that] that by (auto simp: carries_def addr_inputs_def spent_key_def split: option.splits)
    then show ?thesis using g(1) [OF that] by (simp add: addr_outputs_def is_spent_def)
  qed
  have mem: "i \<in> set (d_inputs d)" if "i \<in> ?I" for i using that by (simp add: addr_inputs_def)
  have "bij_betw g ?I ?R"
    unfolding bij_betw_def
  proof
    show "inj_on g ?I"
    proof (rule inj_onI)
      fix i j assume "i \<in> ?I" "j \<in> ?I" "g i = g j"
      then show "i = j" using carries_unique [OF assms(1) g(2) g(2) mem mem g(1) g(1)] by metis
    qed
    show "g ` ?I = ?R"
    proof (intro equalityI subsetI)
      fix r assume r: "r \<in> ?R"
      then have "r \<in> set (d_outputs d)" "o_spent_by_txid r \<noteq> None" "o_address r = Some addr"
        by (auto simp: addr_outputs_def is_spent_def)
      then obtain i where i: "i \<in> set (d_inputs d)" "carries i r" using assms(2) by (auto simp: linked_def)
      then have iI: "i \<in> ?I" using \<open>o_address r = Some addr\<close> by (simp add: addr_inputs_def carries_def)
      have "g i = r"
        using carries_unique [OF assms(1) g(2) [OF iI] i(2) i(1) i(1) g(1) [OF iI] \<open>r \<in> set (d_outputs d)\<close>] by simp
      then show "r \<in> g ` ?I" using iI by blast
    qed (use gR in auto)
  qed
  moreover have "prev_value i = o_value (g i)" if "i \<in> ?I" for i
    using g(2) [OF that] by (simp add: prev_value_def carries_def)
  ultimately have "sum prev_value ?I = sum o_value ?R"
    using sum.reindex_bij_betw [of g ?I ?R o_value] sum.cong [of ?I ?I prev_value "\<lambda>i. o_value (g i)"] by simp
  then show ?thesis
    unfolding total_spent_def using di dr by (simp add: sum_list_distinct_conv_sum_set)
qed

section \<open>The balance of a ledger\<close>

lemma sum_list_split:
  "(\<Sum>r\<leftarrow>xs. f r :: int) = (\<Sum>r\<leftarrow>filter P xs. f r) + (\<Sum>r\<leftarrow>filter (\<lambda>r. \<not> P r) xs. f r)"
  by (induction xs) auto

definition ledger_balance :: "string \<Rightarrow> ledger \<Rightarrow> int" where
  "ledger_balance addr L = (\<Sum>k | \<exists>v. L k = Some (v, Some addr). fst (the (L k)))"

lemma unspent_sum:
  assumes "wf_keys d"
  shows "total_recv addr d - total_spent addr d = ledger_balance addr (utxo d)"
proof -
  let ?A = "addr_outputs addr d"
  have do: "distinct (map o_key (d_outputs d))" using assms by (simp add: wf_keys_def)
  then have dA: "distinct ?A" unfolding addr_outputs_def by (simp add: distinct_map)
  have "total_recv addr d = total_spent addr d + (\<Sum>r\<leftarrow>filter (\<lambda>r. \<not> is_spent r) ?A. o_value r)"
    unfolding total_recv_def total_spent_def by (rule sum_list_split)
  moreover have "(\<Sum>r\<leftarrow>filter (\<lambda>r. \<not> is_spent r) ?A. o_value r) = ledger_balance addr (utxo d)"
  proof -
    let ?U = "set (filter (\<lambda>r. \<not> is_spent r) ?A)"
    have u: "utxo d (o_key r) = Some (o_value r, o_address r)" if "r \<in> ?U" for r
      using that find_output_Some [OF do, of r] by (auto simp: utxo_def addr_outputs_def is_spent_def)
    have "inj_on o_key ?U" using do by (auto simp: distinct_map addr_outputs_def intro: inj_on_subset)
    moreover have "o_key ` ?U = {k. \<exists>v. utxo d k = Some (v, Some addr)}"
    proof (intro equalityI subsetI)
      fix k assume "k \<in> o_key ` ?U"
      then show "k \<in> {k. \<exists>v. utxo d k = Some (v, Some addr)}" using u by (auto simp: addr_outputs_def)
    next
      fix k assume "k \<in> {k. \<exists>v. utxo d k = Some (v, Some addr)}"
      then obtain r where "find_output d k = Some r" "o_spent_by_txid r = None" "o_address r = Some addr"
        by (auto simp: utxo_def split: option.splits if_splits)
      then show "k \<in> o_key ` ?U"
        using find_output_key [of d k r] by (auto simp: addr_outputs_def is_spent_def intro!: image_eqI [of _ _ r])
    qed
    ultimately have "ledger_balance addr (utxo d) = sum (\<lambda>r. fst (the (utxo d (o_key r)))) ?U"
      unfolding ledger_balance_def by (metis (no_types, lifting) comp_apply sum.cong sum.reindex)
    also have "\<dots> = sum o_value ?U" using u by (intro sum.cong) auto
    finally show ?thesis using dA by (simp add: sum_list_distinct_conv_sum_set)
  qed
  ultimately show ?thesis by simp
qed

section \<open>The indexer provides the invariant\<close>

lemma tx_row_keys [simp]:
  "t_txid (tx_row_of factor b pos t) = char64 (tx_txid t)"
  "t_block_hash (tx_row_of factor b pos t) = char64 (blk_hash b)"
  by (simp_all add: tx_row_of_def Let_def)

lemma tx_effect_recorded:
  assumes "recorded d" and "char64 (blk_hash b) \<in> b_hash ` set (d_blocks d)"
  shows "recorded (tx_effect factor b pt d)"
proof -
  let ?d = "tx_effect factor b pt d" and ?r = "tx_row_of factor b (fst pt) (snd pt)"
  have keys: "t_txid ` set (d_txs ?d) = insert (char64 (tx_txid (snd pt))) (t_txid ` set (d_txs d))"
    using txs_table.keys_ins [of ?r d] by (simp add: tx_effect_txs)
  have "t_block_hash ` set (d_txs ?d) \<subseteq> b_hash ` set (d_blocks d)"
  proof
    fix h assume "h \<in> t_block_hash ` set (d_txs ?d)"
    then obtain t where t: "t \<in> set (d_txs (sql_insert_tx ?r d))" "h = t_block_hash t" by (auto simp: tx_effect_txs)
    from txs_table.ins_mem [OF t(1)] show "h \<in> b_hash ` set (d_blocks d)"
      using assms t(2) by (auto simp: recorded_def)
  qed
  moreover have "o_txid ` set (d_outputs ?d) \<subseteq> t_txid ` set (d_txs ?d)"
    using order_trans [OF tx_effect_txids insert_mono] assms(1) by (simp add: recorded_def keys)
  moreover have "i_txid ` set (d_inputs ?d) \<subseteq> t_txid ` set (d_txs ?d)"
    using order_trans [OF tx_effect_input_txids insert_mono] assms(1) by (simp add: recorded_def keys)
  moreover have "\<forall>b \<in> set (d_blocks d). b_in_best_chain b" using assms(1) by (simp add: recorded_def)
  ultimately show ?thesis unfolding recorded_def tx_effect_blocks by (intro conjI)
qed

lemma block_effect_recorded: "recorded d \<Longrightarrow> recorded (block_effect factor b d)"
proof -
  let ?d = "sql_insert_block (block_row_of factor b) d"
  assume d: "recorded d"
  have "recorded (fold (tx_effect factor b) pts e)"
    if "recorded e" "char64 (blk_hash b) \<in> b_hash ` set (d_blocks e)" for pts e
    using that
  proof (induction pts arbitrary: e)
    case (Cons pt pts)
    then show ?case using tx_effect_recorded [OF Cons.prems] by (simp add: tx_effect_blocks)
  qed simp
  moreover have hashes: "b_hash ` set (d_blocks ?d) = insert (char64 (blk_hash b)) (b_hash ` set (d_blocks d))"
    using blocks_table.keys_ins [of "block_row_of factor b" d] by simp
  moreover have "recorded ?d"
  proof -
    have "b_in_best_chain c" if "c \<in> set (d_blocks ?d)" for c
      using blocks_table.ins_mem [OF that] d by (auto simp: recorded_def)
    moreover have "t_block_hash ` set (d_txs d) \<subseteq> insert (char64 (blk_hash b)) (b_hash ` set (d_blocks d))"
      using d by (auto simp: recorded_def)
    ultimately show ?thesis
      using d hashes by (simp add: recorded_def sql_frames)
  qed
  ultimately show "recorded (block_effect factor b d)" by (simp add: block_effect_def)
qed

text \<open>The tables after ingesting a list of blocks, each of them new and valid when it arrives.\<close>

definition chain_db :: "int \<Rightarrow> BlockV2 list \<Rightarrow> db" where
  "chain_db factor bs = fold (block_effect factor) bs empty_db"

primrec chain_valid :: "int \<Rightarrow> BlockV2 list \<Rightarrow> db \<Rightarrow> bool" where
  "chain_valid factor [] d = True"
| "chain_valid factor (b # bs) d =
     (new_block d b \<and> valid_txs factor (blk_tx b) (utxo d) \<and> chain_valid factor bs (block_effect factor b d))"

definition explorer_inv :: "db \<Rightarrow> bool" where
  "explorer_inv d \<longleftrightarrow> wf_keys d \<and> linked d \<and> recorded d"

lemma fold_block_effect_inv:
  "explorer_inv d \<Longrightarrow> chain_valid factor bs d \<Longrightarrow>
     explorer_inv (fold (block_effect factor) bs d) \<and>
     utxo (fold (block_effect factor) bs d) = fold (ledger_block factor) bs (utxo d)"
proof (induction bs arbitrary: d)
  case (Cons b bs)
  have "explorer_inv (block_effect factor b d)"
    using Cons.prems block_effect_invariants [of d b factor] block_effect_recorded by (simp add: explorer_inv_def)
  moreover have "utxo (block_effect factor b d) = ledger_block factor b (utxo d)"
    using Cons.prems(2) by (intro block_effect_ledger) (simp add: new_block_def)
  ultimately show ?case using Cons by simp
qed simp

lemma chain_db_inv:
  assumes "chain_valid factor bs empty_db"
  shows "explorer_inv (chain_db factor bs)"
    and "utxo (chain_db factor bs) = fold (ledger_block factor) bs Map.empty"
proof -
  have "explorer_inv empty_db" by (simp add: explorer_inv_def wf_keys_def linked_def recorded_def empty_db_def)
  moreover have "utxo empty_db = Map.empty" by (simp add: utxo_def find_output_def empty_db_def fun_eq_iff)
  ultimately show "explorer_inv (chain_db factor bs)" "utxo (chain_db factor bs) = fold (ledger_block factor) bs Map.empty"
    using fold_block_effect_inv [OF _ assms] by (simp_all add: chain_db_def)
qed

section \<open>The page\<close>

lemma address_detail_Some:
  assumes "address_detail q addr0 d = Inr (Some a)"
  shows "aq_history q = None" and "ad_address a = trim_space addr0"
    and "ad_balance_sats a = wrap64 (total_recv (trim_space addr0) d - total_spent (trim_space addr0) d)"
    and "ad_recv_sats a = total_recv (trim_space addr0) d"
    and "ad_txs a = running (trim_space addr0) d 0
           (delivered (aq_rows q) (aq_order q (history_rows (trim_space addr0) d)))"
    and "ad_tx_count a = int (length (ad_txs a))"
  using assms by (auto simp: address_detail_def Let_def split: if_splits option.splits)

lemma orders_rows_sum:
  assumes "orders_rows ord"
  shows "length (ord xs) = length xs" and "set (ord xs) = set xs"
    and "(\<Sum>x\<leftarrow>ord xs. f x :: int) = (\<Sum>x\<leftarrow>xs. f x)"
proof -
  have m: "mset (ord xs) = mset xs" using assms by (simp add: orders_rows_def)
  then show "length (ord xs) = length xs" "set (ord xs) = set xs"
    by (fact mset_eq_length, fact mset_eq_setD)
  show "(\<Sum>x\<leftarrow>ord xs. f x) = (\<Sum>x\<leftarrow>xs. f x)"
    using arg_cong [OF m, of "\<lambda>M. \<Sum>\<^sub># (image_mset f M)"] by (simp add: sum_mset_sum_list flip: mset_map)
qed

lemma page_closes:
  assumes "explorer_inv d" and "orders_rows (aq_order q)" and "aq_rows q = None"
    and "\<And>t. t \<in> set (d_txs d) \<Longrightarrow> in64 (net_sats (trim_space addr0) d (t_txid t))"
    and "address_detail q addr0 d = Inr (Some a)"
  shows "ad_balance_sats a = wrap64 (ledger_balance (trim_space addr0) (utxo d))"
    and "final_balance 0 (ad_txs a) = ad_balance_sats a"
    and "length (ad_txs a) = length (history_rows (trim_space addr0) d)"
proof -
  let ?addr = "trim_space addr0"
  let ?rows = "aq_order q (history_rows ?addr d)"
  note D = address_detail_Some [OF assms(5)] and O = orders_rows_sum [OF assms(2)]
  have inv: "wf_keys d" "linked d" "recorded d" using assms(1) by (simp_all add: explorer_inv_def)
  show bal: "ad_balance_sats a = wrap64 (ledger_balance ?addr (utxo d))"
    using D(3) unspent_sum [OF inv(1), of ?addr] by simp
  have txs: "ad_txs a = running ?addr d 0 ?rows" using D(5) assms(3) by (simp add: delivered_def)
  have nets: "in64 (net_sats ?addr d (t_txid t))" if "(t, b) \<in> set ?rows" for t b
    using that assms(4) unfolding O(2) by (auto simp: history_rows_def)
  have "wrap64 0 = 0" by (simp add: wrap64_def)
  moreover have "(\<Sum>tb\<leftarrow>?rows. net_sats ?addr d (t_txid (fst tb))) = ledger_balance ?addr (utxo d)"
    unfolding O(3) history_net_sum [OF inv(1,3)] spent_inputs_sum [OF inv(1,2)] by (rule unspent_sum [OF inv(1)])
  ultimately show "final_balance 0 (ad_txs a) = ad_balance_sats a"
    using running_final(2) [where rows = ?rows and addr = ?addr and d = d and bal = 0, OF nets]
    unfolding txs bal by simp
  show "length (ad_txs a) = length (history_rows ?addr d)"
    using running_final(1) [of ?rows ?addr d 0, OF nets] O(1) by (simp add: txs)
qed

section \<open>Properties\<close>

text \<open>C5: the address page agrees with the chain. On the tables the indexer built from any list of valid
  blocks, the balance the page shows is the sum of the unspent outputs the abstract ledger gives the
  address after these blocks, the running balance of the last history row is that balance, and the
  history has one row for every transaction of the address, whatever order the database gives rows of
  equal position and as long as no query fails and no single net amount overflows 64 bits.\<close>

theorem address_page_matches_ledger:
  assumes "chain_valid factor bs empty_db" and "orders_rows (aq_order q)" and "aq_rows q = None"
    and "\<And>t. t \<in> set (d_txs (chain_db factor bs)) \<Longrightarrow> in64 (net_sats (trim_space addr0) (chain_db factor bs) (t_txid t))"
    and "address_detail q addr0 (chain_db factor bs) = Inr (Some a)"
  shows "ad_balance_sats a = wrap64 (ledger_balance (trim_space addr0) (fold (ledger_block factor) bs Map.empty)) \<and>
     final_balance 0 (ad_txs a) = ad_balance_sats a \<and>
     length (ad_txs a) = length (history_rows (trim_space addr0) (chain_db factor bs))"
  using page_closes [OF chain_db_inv(1) [OF assms(1)] assms(2-5)] chain_db_inv(2) [OF assms(1)] by simp

text \<open>A connection that breaks while the history is read goes unnoticed: the page is still
  produced, with the full balance and a history of the rows that had arrived.\<close>

theorem broken_history_is_truncated:
  assumes "address_detail (q\<lparr>aq_rows := None\<rparr>) addr0 d = Inr (Some a)"
  shows "\<exists>a'. address_detail (q\<lparr>aq_rows := Some n\<rparr>) addr0 d = Inr (Some a') \<and>
     ad_balance_sats a' = ad_balance_sats a \<and> length (ad_txs a') \<le> n \<and> ad_tx_count a' = int (length (ad_txs a'))"
proof -
  have len: "length (running addr d bal rows) \<le> length rows" for addr bal rows
    by (induction addr d bal rows rule: running.induct) (auto simp: Let_def intro: le_SucI)
  have "length (running addr d bal (take n rows)) \<le> n" for addr bal and rows :: "joined list"
    using len [of addr bal "take n rows"] by simp
  then show ?thesis
    using assms by (auto simp: address_detail_def Let_def delivered_def split: if_splits option.splits)
qed

section \<open>Witnesses\<close>

definition sample_query :: addr_query where
  "sample_query = \<lparr>aq_summary = None, aq_count = None, aq_history = None,
     aq_order = sort_key height_position, aq_rows = None\<rparr>"

definition sample_page :: AddressDetail where
  "sample_page = (case address_detail sample_query ''bAlice'' (chain_db 100000000 [sample_block 0]) of
     Inr (Some a) \<Rightarrow> a | _ \<Rightarrow> undefined)"

lemma sample_page_run:
  "address_detail sample_query ''bAlice'' (chain_db 100000000 [sample_block 0]) = Inr (Some sample_page)"
proof -
  have "case address_detail sample_query ''bAlice'' (chain_db 100000000 [sample_block 0]) of
      Inr (Some a) \<Rightarrow> True | _ \<Rightarrow> False" by code_simp
  then show ?thesis by (auto simp: sample_page_def split: sum.splits option.splits)
qed

lemma sample_query_orders: "orders_rows (sort_key height_position)"
  by (simp add: orders_rows_def)

theorem address_page_matches_ledger_witness:
  "ad_balance_sats sample_page =
     wrap64 (ledger_balance ''bAlice'' (fold (ledger_block 100000000) [sample_block 0] Map.empty)) \<and>
   final_balance 0 (ad_txs sample_page) = 1500000000 \<and> length (ad_txs sample_page) = 2"
proof -
  let ?d = "chain_db 100000000 [sample_block 0]"
  have "list_all (\<lambda>t. in64 (net_sats (trim_space ''bAlice'') ?d (t_txid t))) (d_txs ?d)" by code_simp
  then have nets: "in64 (net_sats (trim_space ''bAlice'') ?d (t_txid t))" if "t \<in> set (d_txs ?d)" for t
    using that by (simp add: list_all_iff)
  have valid: "chain_valid 100000000 [sample_block 0] empty_db" by code_simp
  have "case address_detail sample_query ''bAlice'' ?d of
      Inr (Some a) \<Rightarrow> ad_balance_sats a = 1500000000 | _ \<Rightarrow> False" by code_simp
  then have bal: "ad_balance_sats sample_page = 1500000000" by (simp add: sample_page_run)
  have rows: "length (history_rows (trim_space ''bAlice'') ?d) = 2" "trim_space ''bAlice'' = ''bAlice''" by code_simp+
  have "orders_rows (aq_order sample_query)" "aq_rows sample_query = None"
    using sample_query_orders by (simp_all add: sample_query_def)
  then show ?thesis
    using address_page_matches_ledger [OF valid _ _ nets sample_page_run] bal rows by simp
qed

theorem broken_history_is_truncated_witness:
  "\<exists>a'. address_detail (sample_query\<lparr>aq_rows := Some 1\<rparr>) ''bAlice'' (chain_db 100000000 [sample_block 0]) = Inr (Some a') \<and>
     ad_balance_sats a' = ad_balance_sats sample_page \<and> length (ad_txs a') \<le> 1 \<and>
     ad_tx_count a' = int (length (ad_txs a'))"
proof -
  have "sample_query\<lparr>aq_rows := None\<rparr> = sample_query" by (simp add: sample_query_def)
  then show ?thesis
    using broken_history_is_truncated [of sample_query "''bAlice''" "chain_db 100000000 [sample_block 0]" sample_page 1]
      sample_page_run by simp
qed

end
