(* ===== verification/Explorer_Blocks.thy ===== *)
theory Explorer_Blocks
  imports Explorer_Address "HOL-Library.Signed_Division"
begin

text \<open>
  The block lists of the explorer (\<open>generator/internal/db/blocks.go\<close>), the statistics it reads
  (\<open>generator/internal/db/stats.go\<close>, \<open>AlgoStats\<close> and \<open>GlobalStats\<close>), the recorded tip
  (\<open>BestHeight\<close> in \<open>db.go\<close>) and the page numbers shown (\<open>PageWindow\<close> in
  \<open>generator/internal/render/multitx.go\<close>). The locale \<open>pager\<close> is the contract the two paged lists share;
  it is interpreted on both.
\<close>

section \<open>Data\<close>

record Block =
  bk_height :: int
  bk_hash :: string
  bk_difficulty :: f64
  bk_time :: int
  bk_tx_count :: int
  bk_total_out :: int
  bk_total_out_btm :: f64
  bk_algo_id :: int
  bk_algo_name :: "string option"
  bk_version :: int
  bk_core_version :: "string option"
  bk_auxpow :: bool

record AlgoStat =
  as_algo_id :: int
  as_algo_name :: string
  as_difficulty :: f64
  as_hashrate :: f64
  as_peak_hashrate :: f64
  as_money_supply :: int
  as_money_supply_btm :: f64
  as_block_reward :: f64
  as_nominal_block_reward :: f64
  as_nssf_remaining :: int
  as_block_spacing :: f64

record GlobalStats =
  gs_num_blocks :: int
  gs_money_supply :: f64
  gs_block_spacing :: f64

text \<open>
  The behaviour of the database in one call: the errors of the two queries, the order it gives the rows
  (equal keys in any order) and the number of rows that arrive before the connection breaks.
\<close>

record page_query =
  pq_count :: "string option"
  pq_select :: "string option"
  pq_order :: "block_row list \<Rightarrow> block_row list"
  pq_rows :: "nat option"

section \<open>Block lists\<close>

definition multi_tx_page_size :: int where
  "multi_tx_page_size = 50"

definition home_page_size :: int where
  "home_page_size = 24"

definition best_rows :: "db \<Rightarrow> block_row list" where
  "best_rows d = filter b_in_best_chain (d_blocks d)"

definition multi_tx_rows :: "db \<Rightarrow> block_row list" where
  "multi_tx_rows d = filter (\<lambda>r. b_in_best_chain r \<and> 1 < b_tx_count r) (d_blocks d)"

text \<open>\<open>Scan\<close> into the \<open>Block\<close> fails on a NULL difficulty, for which \<open>float64\<close> has no value.\<close>

definition err_null :: string where
  "err_null = ''can't scan into dest[2] (col: difficulty): cannot scan NULL into *float64''"

definition scan_block :: "block_row \<Rightarrow> Block result" where
  "scan_block r =
     (case b_difficulty r of
        None \<Rightarrow> Inl err_null
      | Some diff \<Rightarrow>
          Inr \<lparr>bk_height = b_height r, bk_hash = b_hash r, bk_difficulty = diff, bk_time = b_time_utc r,
               bk_tx_count = b_tx_count r, bk_total_out = b_total_out r, bk_total_out_btm = btm (b_total_out r),
               bk_algo_id = b_algo_id r, bk_algo_name = Some (b_algo_name r), bk_version = b_version r,
               bk_core_version = b_coreversion r, bk_auxpow = b_auxpow r\<rparr>)"

text \<open>The loop over \<open>rows.Next\<close>; its end is not checked for an error of the connection.\<close>

primrec scan_blocks :: "block_row list \<Rightarrow> Block list result" where
  "scan_blocks [] = Inr []"
| "scan_blocks (r # rs) =
     (case scan_block r of
        Inl e \<Rightarrow> Inl e
      | Inr b \<Rightarrow> (case scan_blocks rs of Inl e \<Rightarrow> Inl e | Inr bs \<Rightarrow> Inr (b # bs)))"

definition err_offset :: string where
  "err_offset = ''ERROR: OFFSET must not be negative (SQLSTATE 2201X)''"

definition err_limit :: string where
  "err_limit = ''ERROR: LIMIT must not be negative (SQLSTATE 2201W)''"

text \<open>\<open>SELECT ... ORDER BY height DESC LIMIT $1 OFFSET $2\<close> and the loop over its rows.\<close>

definition select_blocks :: "page_query \<Rightarrow> int \<Rightarrow> int \<Rightarrow> block_row list \<Rightarrow> Block list result" where
  "select_blocks q lm offset rows =
     (case pq_select q of
        Some e \<Rightarrow> Inl e
      | None \<Rightarrow>
          if lm < 0 then Inl err_limit
          else if offset < 0 then Inl err_offset
          else scan_blocks (delivered (pq_rows q) (take (nat lm) (drop (nat offset) (pq_order q rows)))))"

definition page_offset :: "int \<Rightarrow> int \<Rightarrow> int" where
  "page_offset psize page = wrap64 (wrap64 ((if page < 1 then 1 else page) - 1) * psize)"

definition multi_tx_blocks :: "page_query \<Rightarrow> int \<Rightarrow> db \<Rightarrow> (Block list \<times> int) result" where
  "multi_tx_blocks q page d =
     (let offset = page_offset multi_tx_page_size page
      in case pq_count q of
           Some e \<Rightarrow> Inl e
         | None \<Rightarrow>
             (let total_n = int (length (multi_tx_rows d))
              in case select_blocks q multi_tx_page_size offset (multi_tx_rows d) of
                   Inl e \<Rightarrow> Inl e
                 | Inr blocks \<Rightarrow> Inr (blocks, total_n)))"

definition paged_blocks :: "page_query \<Rightarrow> int \<Rightarrow> db \<Rightarrow> (Block list \<times> int) result" where
  "paged_blocks q page d =
     (let offset = page_offset home_page_size page
      in case pq_count q of
           Some e \<Rightarrow> Inl e
         | None \<Rightarrow>
             (let total_n = int (length (best_rows d))
              in case select_blocks q home_page_size offset (best_rows d) of
                   Inl e \<Rightarrow> Inl e
                 | Inr blocks \<Rightarrow> Inr (blocks, total_n)))"

definition latest_blocks :: "page_query \<Rightarrow> int \<Rightarrow> db \<Rightarrow> Block list result" where
  "latest_blocks q lm d = select_blocks q lm 0 (best_rows d)"

text \<open>\<open>int((total + int64(size) - 1) / int64(size))\<close>, as the handlers and \<open>generate\<close> compute it.\<close>

definition total_pages :: "int \<Rightarrow> int \<Rightarrow> int" where
  "total_pages psize n = wrap64 (wrap64 (n + psize) - 1) sdiv psize"

section \<open>Statistics\<close>

text \<open>
  The second table of errors: the four queries of the statistics, the order of equal keys, broken reads, and
  the database's decimal arithmetic (\<open>NUMERIC\<close> quotients rounded to its precision, then to \<open>float64\<close>).
\<close>

record stats_query =
  sq_algos :: "string option"
  sq_rows :: "nat option"
  sq_best :: "string option"
  sq_supply :: "string option"
  sq_spacing :: "string option"
  sq_order :: "block_row list \<Rightarrow> block_row list"
  sq_numeric :: "rat \<Rightarrow> f64"

definition algo_stat_of :: "algo_row \<Rightarrow> AlgoStat" where
  "algo_stat_of r =
     \<lparr>as_algo_id = a_algo_id r, as_algo_name = a_algo_name r, as_difficulty = a_difficulty r,
      as_hashrate = a_hashrate r, as_peak_hashrate = a_peak_hashrate r, as_money_supply = a_money_supply r,
      as_money_supply_btm = btm (a_money_supply r), as_block_reward = a_block_reward r,
      as_nominal_block_reward = a_nominal_block_reward r, as_nssf_remaining = a_nssf_remaining r,
      as_block_spacing = a_block_spacing r\<rparr>"

definition algo_stats :: "stats_query \<Rightarrow> db \<Rightarrow> AlgoStat list result" where
  "algo_stats q d =
     (case sq_algos q of
        Some e \<Rightarrow> Inl e
      | None \<Rightarrow> Inr (map algo_stat_of (delivered (sq_rows q) (sort_key a_algo_id (d_algos d)))))"

definition max_height :: "db \<Rightarrow> int" where
  "max_height d = (case map b_height (best_rows d) of [] \<Rightarrow> 0 | h # hs \<Rightarrow> fold max hs h)"

text \<open>The average spacing over the newest 101 blocks, in minutes; NULL (no interval) becomes 0.\<close>

definition recent_times :: "(block_row list \<Rightarrow> block_row list) \<Rightarrow> db \<Rightarrow> int list" where
  "recent_times ord d = map b_time_utc (take 101 (ord (best_rows d)))"

definition average_spacing :: "int list \<Rightarrow> rat" where
  "average_spacing ts =
     (case ts of
        t # t' # ts' \<Rightarrow>
          of_int (fold max (t' # ts') t - fold min (t' # ts') t) / of_nat (length ts - 1) / 60
      | _ \<Rightarrow> 0)"

text \<open>On an error the fields read so far keep their values and the others are zero.\<close>

definition global_stats :: "stats_query \<Rightarrow> db \<Rightarrow> GlobalStats \<times> string option" where
  "global_stats q d =
     (let gs0 = \<lparr>gs_num_blocks = 0, gs_money_supply = 0, gs_block_spacing = 0\<rparr>
      in case sq_best q of
           Some e \<Rightarrow> (gs0, Some e)
         | None \<Rightarrow>
             (let gs1 = gs0\<lparr>gs_num_blocks := max_height d\<rparr>
              in case sq_supply q of
                   Some e \<Rightarrow> (gs1, Some e)
                 | None \<Rightarrow>
                     (let gs2 = gs1\<lparr>gs_money_supply :=
                            sq_numeric q (of_int (\<Sum>r\<leftarrow>d_algos d. a_money_supply r) / 100000000)\<rparr>
                      in case sq_spacing q of
                           Some e \<Rightarrow> (gs2, Some e)
                         | None \<Rightarrow>
                             (gs2\<lparr>gs_block_spacing := sq_numeric q (average_spacing (recent_times (sq_order q) d))\<rparr>,
                              None))))"

definition err_no_rows :: string where
  "err_no_rows = ''no rows in result set''"

definition best_height :: "string option \<Rightarrow> db \<Rightarrow> int \<times> string option" where
  "best_height failure d =
     (case failure of
        Some e \<Rightarrow> (- 1, Some e)
      | None \<Rightarrow> (case d_chain d of None \<Rightarrow> (- 1, Some err_no_rows) | Some (h, _) \<Rightarrow> (h, None)))"

section \<open>Page numbers\<close>

text \<open>
  The capacity of \<open>make\<close> must not be negative, otherwise Go panics; \<open>None\<close> is that panic. The loop
  counts with 64-bit integers from a positive start up to \<open>end\<close>, which is never the largest one.
\<close>

definition page_window :: "int \<Rightarrow> int \<Rightarrow> int list option" where
  "page_window current pages =
     (let start0 = wrap64 (current - 7);
          start1 = if start0 < 1 then 1 else start0;
          end0 = wrap64 (start1 + 14);
          start2 = if end0 > pages then (if wrap64 (wrap64 (pages - 15) + 1) < 1 then 1
                                         else wrap64 (wrap64 (pages - 15) + 1))
                   else start1;
          end1 = if end0 > pages then pages else end0
      in if wrap64 (wrap64 (end1 - start2) + 1) < 0 then None else Some [start2..end1])"

section \<open>Slices of a list\<close>

lemma concat_slices: "concat (map (\<lambda>i. take n (drop (i * n) xs)) [0 ..< k]) = take (k * n) xs"
proof (induction k)
  case (Suc k)
  have "take (Suc k * n) xs = take (k * n) xs @ take n (drop (k * n) xs)"
    using take_add [of "k * n" n xs] by (simp add: add.commute)
  then show ?case using Suc by simp
qed simp

lemma upto_map_upt: "[1 .. int k] = map (\<lambda>i. int i + 1) [0 ..< k]"
proof (induction k)
  case (Suc k)
  have "[1 .. int (Suc k)] = [1 .. int k] @ [int k + 1]" using upto_rec2 [of 1 "int (Suc k)"] by simp
  then show ?case using Suc by simp
qed simp

lemma concat_pages:
  assumes "0 < n" and "length xs \<le> k * n"
  shows "concat (map (\<lambda>p. take n (drop (nat (p - 1) * n) xs)) [1 .. int k]) = xs"
proof -
  have "map (\<lambda>p. take n (drop (nat (p - 1) * n) xs)) [1 .. int k] = map (\<lambda>i. take n (drop (i * n) xs)) [0 ..< k]"
    unfolding upto_map_upt by (simp add: comp_def)
  then show ?thesis using concat_slices [of n xs k] assms by simp
qed

text \<open>Newest first: some permutation with descending heights; with distinct heights there is only one.\<close>

definition newest_first :: "(block_row list \<Rightarrow> block_row list) \<Rightarrow> bool" where
  "newest_first ord \<longleftrightarrow> (\<forall>xs. mset (ord xs) = mset xs \<and> sorted (rev (map b_height (ord xs))))"

definition by_height :: "block_row list \<Rightarrow> block_row list" where
  "by_height rows = rev (sort_key b_height rows)"

lemma newest_first_unique:
  assumes "newest_first ord" and "distinct (map b_height rows)"
  shows "ord rows = by_height rows"
proof -
  have "mset (rev (ord rows)) = mset rows" "sorted (map b_height (rev (ord rows)))"
    using assms(1) by (simp_all add: newest_first_def rev_map)
  moreover have "inj_on b_height (set rows)" using assms(2) by (simp add: distinct_map)
  ultimately have "sort_key b_height rows = rev (ord rows)"
    by (intro sort_key_inj_key_eq) simp_all
  then show ?thesis by (simp add: by_height_def)
qed

lemma newest_first_by_height: "newest_first by_height"
  by (simp add: newest_first_def by_height_def rev_map)

lemma set_by_height [simp]: "set (by_height rows) = set rows" "length (by_height rows) = length rows"
  by (simp_all add: by_height_def)

definition block_of :: "block_row \<Rightarrow> Block" where
  "block_of r = (case scan_block r of Inl e \<Rightarrow> undefined | Inr b \<Rightarrow> b)"

definition scannable :: "block_row list \<Rightarrow> bool" where
  "scannable rows \<longleftrightarrow> list_all (\<lambda>r. b_difficulty r \<noteq> None) rows"

lemma scan_blocks_ok: "scannable rows \<Longrightarrow> scan_blocks rows = Inr (map block_of rows)"
  by (induction rows) (auto simp: scannable_def scan_block_def block_of_def split: option.splits)

lemma scannable_take_drop: "scannable rows \<Longrightarrow> scannable (take m (drop n rows))"
  by (auto simp: scannable_def list_all_iff dest!: in_set_takeD in_set_dropD)

lemma scannable_by_height: "scannable (by_height rows) \<longleftrightarrow> scannable rows"
  by (simp add: scannable_def list_all_iff)

text \<open>A database that answers both queries, every row, newest first.\<close>

definition answers :: "page_query \<Rightarrow> bool" where
  "answers q \<longleftrightarrow> pq_count q = None \<and> pq_select q = None \<and> pq_rows q = None \<and> newest_first (pq_order q)"

lemma select_blocks_ok:
  assumes "answers q" and "scannable rows" and "distinct (map b_height rows)" and "0 \<le> lm" "0 \<le> offset"
  shows "select_blocks q lm offset rows = Inr (map block_of (take (nat lm) (drop (nat offset) (by_height rows))))"
  using assms newest_first_unique [of "pq_order q" rows]
  by (simp add: select_blocks_def answers_def delivered_def scan_blocks_ok scannable_take_drop scannable_by_height)

section \<open>The contract of a paged list\<close>

locale pager =
  fixes psize :: int and source :: "db \<Rightarrow> block_row list"
    and fetch :: "page_query \<Rightarrow> int \<Rightarrow> db \<Rightarrow> (Block list \<times> int) result"
  assumes size_pos: "0 < psize" and size_small: "psize \<le> 1000"
    and fetch_page: "answers q \<Longrightarrow> scannable (source d) \<Longrightarrow> distinct (map b_height (source d)) \<Longrightarrow>
      1 \<le> page \<Longrightarrow> in64 ((page - 1) * psize) \<Longrightarrow>
      fetch q page d = Inr (map block_of (take (nat psize) (drop (nat (page - 1) * nat psize) (by_height (source d)))),
                            int (length (source d)))"
begin

lemma total_pages_div:
  assumes "0 \<le> n" and "n < 2 ^ 62"
  shows "total_pages psize n = (n + psize - 1) div psize"
proof -
  have "in64 (n + psize)" "in64 (n + psize - 1)" using assms size_pos size_small by (simp_all add: in64_def)
  then have "total_pages psize n = (n + psize - 1) sdiv psize" by (simp add: total_pages_def wrap_simps)
  also have "\<dots> = (n + psize - 1) div psize"
    using assms size_pos by (simp add: signed_divide_int_def sgn_if)
  finally show ?thesis .
qed

lemma total_pages_bounds:
  assumes "0 \<le> n" and "n < 2 ^ 62"
  shows "n \<le> total_pages psize n * psize" and "(total_pages psize n - 1) * psize < n \<or> n = 0"
    and "0 \<le> total_pages psize n"
proof -
  let ?m = "n + psize - 1"
  have div: "?m = ?m div psize * psize + ?m mod psize" by simp
  have rem: "0 \<le> ?m mod psize" "?m mod psize < psize" using size_pos by simp_all
  show "n \<le> total_pages psize n * psize" "0 \<le> total_pages psize n"
    unfolding total_pages_div [OF assms] using div rem assms size_pos by (linarith, simp add: pos_imp_zdiv_nonneg_iff)
  have "(?m div psize - 1) * psize = ?m div psize * psize - psize" by (simp add: algebra_simps)
  then show "(total_pages psize n - 1) * psize < n \<or> n = 0"
    unfolding total_pages_div [OF assms] using div rem by linarith
qed

text \<open>The pages from the first to the last one are the whole list, newest first, in slices.\<close>

lemma pages_cover:
  assumes "\<And>p. answers (q p)" and "scannable (source d)" and "distinct (map b_height (source d))"
    and "length (source d) < 2 ^ 60"
  defines "n \<equiv> int (length (source d))"
  shows "\<exists>pages. (\<forall>p \<in> {1 .. total_pages psize n}. fetch (q p) p d = Inr (pages p, n) \<and> length (pages p) \<le> nat psize) \<and>
     concat (map pages [1 .. total_pages psize n]) = map block_of (by_height (source d))"
proof -
  define pages where "pages p = map block_of (take (nat psize) (drop (nat (p - 1) * nat psize) (by_height (source d))))"
    for p :: int
  have "int (length (source d)) < int (2 ^ 60)" using assms(4) by (simp only: of_nat_less_iff)
  then have n: "0 \<le> n" "n < 2 ^ 62" "n < 2 ^ 60" by (simp_all add: n_def)
  note B = total_pages_bounds [OF n(1,2)]
  have "fetch (q p) p d = Inr (pages p, n)" if "p \<in> {1 .. total_pages psize n}" for p
  proof -
    have "(p - 1) * psize \<le> (total_pages psize n - 1) * psize" using that size_pos by (simp add: mult_right_mono)
    moreover have "0 \<le> (p - 1) * psize" using that size_pos by simp
    moreover have "n \<noteq> 0" using that size_pos total_pages_div [of 0] by auto
    ultimately have "in64 ((p - 1) * psize)" using B(2) n by (simp add: in64_def)
    then show ?thesis using fetch_page [OF assms(1-3)] that by (simp add: pages_def n_def)
  qed
  moreover have "concat (map pages [1 .. total_pages psize n]) = map block_of (by_height (source d))"
  proof -
    let ?k = "nat (total_pages psize n)" and ?xs = "by_height (source d)"
    have "int (length ?xs) \<le> int (?k * nat psize)" using B(1,3) size_pos by (simp add: n_def)
    then have "length ?xs \<le> ?k * nat psize" by (simp only: of_nat_le_iff)
    then have "concat (map (\<lambda>p. take (nat psize) (drop (nat (p - 1) * nat psize) ?xs)) [1 .. int ?k]) = ?xs"
      using size_pos by (intro concat_pages) simp_all
    then have "map block_of (concat (map (\<lambda>p. take (nat psize) (drop (nat (p - 1) * nat psize) ?xs)) [1 .. int ?k])) =
        map block_of ?xs" by (rule arg_cong)
    then show ?thesis using B(3) by (simp add: map_concat pages_def [abs_def] comp_def)
  qed
  moreover have "length (pages p) \<le> nat psize" for p by (simp add: pages_def)
  ultimately show ?thesis by blast
qed

end

lemma page_offset_ok: "1 \<le> page \<Longrightarrow> 0 < psize \<Longrightarrow> in64 ((page - 1) * psize) \<Longrightarrow> page_offset psize page = (page - 1) * psize"
proof -
  assume a: "1 \<le> page" "0 < psize" "in64 ((page - 1) * psize)"
  have "(page - 1) * 1 \<le> (page - 1) * psize" using a by (intro mult_left_mono) simp_all
  then have "in64 (page - 1)" using a by (auto simp: in64_def)
  then show ?thesis using a by (simp add: page_offset_def wrap_simps)
qed

interpretation home_pages: pager home_page_size best_rows paged_blocks
proof
  fix q d page
  assume "answers q" "scannable (best_rows d)" "distinct (map b_height (best_rows d))" "1 \<le> page"
    "in64 ((page - 1) * home_page_size)"
  then show "paged_blocks q page d =
      Inr (map block_of (take (nat home_page_size) (drop (nat (page - 1) * nat home_page_size) (by_height (best_rows d)))),
           int (length (best_rows d)))"
    using page_offset_ok [of page home_page_size] nat_mult_distrib [of "page - 1" home_page_size]
    by (simp add: paged_blocks_def Let_def answers_def [THEN iffD1] select_blocks_ok home_page_size_def)
qed (simp_all add: home_page_size_def)

interpretation multi_tx_pages: pager multi_tx_page_size multi_tx_rows multi_tx_blocks
proof
  fix q d page
  assume "answers q" "scannable (multi_tx_rows d)" "distinct (map b_height (multi_tx_rows d))" "1 \<le> page"
    "in64 ((page - 1) * multi_tx_page_size)"
  then show "multi_tx_blocks q page d =
      Inr (map block_of (take (nat multi_tx_page_size) (drop (nat (page - 1) * nat multi_tx_page_size) (by_height (multi_tx_rows d)))),
           int (length (multi_tx_rows d)))"
    using page_offset_ok [of page multi_tx_page_size] nat_mult_distrib [of "page - 1" multi_tx_page_size]
    by (simp add: multi_tx_blocks_def Let_def answers_def [THEN iffD1] select_blocks_ok multi_tx_page_size_def)
qed (simp_all add: multi_tx_page_size_def)

section \<open>The page numbers shown\<close>

lemma page_window_exact:
  assumes "0 \<le> pages" and "pages < 2 ^ 62" and "- (2 ^ 62) < current" and "current < 2 ^ 62"
  shows "page_window current pages =
     (let a = max 1 (current - 7) in Some (if a + 14 > pages then [max 1 (pages - 14)..pages] else [a..a + 14]))"
proof -
  define a where "a = max 1 (current - 7)"
  have a: "1 \<le> a" "a < 2 ^ 62" using assms by (simp_all add: a_def)
  have w: "wrap64 (current - 7) = current - 7" "wrap64 (a + 14) = a + 14" "wrap64 (pages - 15) = pages - 15"
    "wrap64 (pages - 15 + 1) = pages - 15 + 1"
    using assms a by (intro wrap64_id; simp add: in64_def)+
  have a': "(if current - 7 < 1 then 1 else current - 7) = a" by (simp add: a_def max_def)
  define s where "s = max 1 (pages - 14)"
  have s': "(if pages - 15 + 1 < 1 then 1 else pages - 15 + 1) = s" by (simp add: s_def max_def)
  have room: "\<not> wrap64 (wrap64 (e - st) + 1) < 0"
    if "0 \<le> e - st + 1" "- (2 ^ 62) < e - st" "e - st < 2 ^ 62" for e st
  proof -
    have "wrap64 (wrap64 (e - st) + 1) = e - st + 1"
      unfolding wrap64_add_left using that by (intro wrap64_id) (simp add: in64_def)
    then show ?thesis using that by simp
  qed
  have pages: "0 \<le> pages - s + 1" "- (2 ^ 62) < pages - s" "pages - s < 2 ^ 62" using assms(1,2) by (auto simp: s_def)
  show ?thesis
    unfolding page_window_def Let_def w a' s' a_def [symmetric] s_def [symmetric]
    using room [OF pages] room [of "a + 14" a] by simp
qed

lemma div_24_step: "(h + 24 - 1) div 24 = (h + 1 + 24 - 1) div 24 - (if 24 dvd h then 1 else (0 :: int))"
proof (cases "24 dvd h")
  case True
  then obtain k where "h = 24 * k" by (rule dvdE)
  then show ?thesis by simp
next
  case False
  have "h = 24 * (h div 24) + h mod 24" "0 \<le> h mod 24" "h mod 24 < 24" by simp_all
  moreover have "h mod 24 \<noteq> 0" using False by (simp add: dvd_eq_mod_eq_0)
  ultimately have "(h + 24 - 1) div 24 = h div 24 + 1" "(h + 1 + 24 - 1) div 24 = h div 24 + 1" by linarith+
  then show ?thesis using False by simp
qed

section \<open>Properties\<close>

text \<open>C28: the paged lists show every block exactly once. With a database that answers, the home list (24 per
  page) and the multi-transaction list (50 per page), read from page 1 to the page count the handlers compute,
  are together the blocks of the best chain, newest first, whatever order the database gives equal heights,
  as long as heights are distinct (no abandoned branch is left marked as best chain).\<close>

theorem pages_cover_chain:
  assumes "\<And>p. answers (q p)" and "scannable (best_rows d)" and "distinct (map b_height (best_rows d))"
    and "length (best_rows d) < 2 ^ 60"
  defines "n \<equiv> int (length (best_rows d))" and "m \<equiv> int (length (multi_tx_rows d))"
  shows "\<exists>pages multi.
     (\<forall>p \<in> {1 .. total_pages home_page_size n}. paged_blocks (q p) p d = Inr (pages p, n) \<and> length (pages p) \<le> 24) \<and>
     concat (map pages [1 .. total_pages home_page_size n]) = map block_of (by_height (best_rows d)) \<and>
     (\<forall>p \<in> {1 .. total_pages multi_tx_page_size m}. multi_tx_blocks (q p) p d = Inr (multi p, m) \<and> length (multi p) \<le> 50) \<and>
     concat (map multi [1 .. total_pages multi_tx_page_size m]) = map block_of (by_height (multi_tx_rows d))"
proof -
  have sub: "multi_tx_rows d = filter (\<lambda>r. 1 < b_tx_count r) (best_rows d)"
    by (simp add: multi_tx_rows_def best_rows_def conj_commute)
  have multi: "scannable (multi_tx_rows d)" "distinct (map b_height (multi_tx_rows d))" "length (multi_tx_rows d) < 2 ^ 60"
    using assms(2,3) le_less_trans [OF length_filter_le assms(4)]
    unfolding sub by (auto simp: scannable_def list_all_iff distinct_map inj_on_def)
  show ?thesis
    using home_pages.pages_cover [of q d, OF assms(1-4)] multi_tx_pages.pages_cover [of q d, OF assms(1) multi]
    unfolding n_def m_def by (simp add: home_page_size_def multi_tx_page_size_def)
qed

text \<open>The page offset is a 64-bit product that is not checked: page 2305843009213693953 of the block list
  is page 1 again, where the last page is at most a few thousand.\<close>

theorem page_offset_wraps:
  "paged_blocks q 2305843009213693953 d = paged_blocks q 1 d"
  by (simp add: paged_blocks_def page_offset_def home_page_size_def wrap64_def)

text \<open>The generated home page takes the greatest height for the number of blocks. On a chain with the
  heights 0 to \<open>h\<close> its page count agrees with the one of the block list except when \<open>h\<close> is a
  multiple of 24, where the last page of the list, the one with the first block, is missing from the count.\<close>

theorem home_page_count:
  assumes "b_height ` set (best_rows d) = {0 .. h}" and "distinct (map b_height (best_rows d))" and "0 \<le> h" "h < 2 ^ 60"
  shows "total_pages home_page_size (max_height d) =
     total_pages home_page_size (int (length (best_rows d))) - (if 24 dvd h then 1 else 0)"
proof -
  have "card (set (map b_height (best_rows d))) = length (best_rows d)" using assms(2) distinct_card by force
  then have len: "int (length (best_rows d)) = h + 1" using assms(1,3) by simp
  have "fold max hs k = Max (set (k # hs))" for hs and k :: int using Max.set_eq_fold [of k hs] by simp
  moreover have "Max {0 .. h} = h" using assms(3) by (intro Max_eqI) simp_all
  ultimately have "max_height d = h"
    using assms(1,3) unfolding max_height_def set_map [symmetric]
    by (cases "map b_height (best_rows d)") simp_all
  moreover have "(h + 24 - 1) div 24 = (h + 1 + 24 - 1) div 24 - (if 24 dvd h then 1 else (0 :: int))"
    by (rule div_24_step)
  ultimately show ?thesis
    using home_pages.total_pages_div [of h] home_pages.total_pages_div [of "h + 1"] assms(3,4)
    by (simp add: len home_page_size_def)
qed

text \<open>The page navigation never panics and shows consecutive existing pages, as many as there are up to
  15, and among them the current one when it exists.\<close>

theorem page_window_spec:
  assumes "0 \<le> pages" and "pages < 2 ^ 62" and "- (2 ^ 62) < current" and "current < 2 ^ 62"
  shows "\<exists>a b. page_window current pages = Some [a..b] \<and> 1 \<le> a \<and> b \<le> pages \<and> b - a + 1 = min 15 pages \<and>
     (1 \<le> current \<and> current \<le> pages \<longrightarrow> current \<in> {a..b})"
proof (cases "max 1 (current - 7) + 14 > pages")
  case True
  then show ?thesis
    using assms(1) by (intro exI [of _ "max 1 (pages - 14)"] exI [of _ pages])
      (auto simp: page_window_exact [OF assms] Let_def)
next
  case False
  then show ?thesis
    using assms(1) by (intro exI [of _ "max 1 (current - 7)"] exI [of _ "max 1 (current - 7) + 14"])
      (auto simp: page_window_exact [OF assms] Let_def)
qed

section \<open>Witnesses\<close>

definition sample_page_query :: page_query where
  "sample_page_query = \<lparr>pq_count = None, pq_select = None, pq_order = by_height, pq_rows = None\<rparr>"

definition sample_db :: db where
  "sample_db = empty_db\<lparr>d_blocks := map (block_row_of 100000000 \<circ> sample_block) [0, 1]\<rparr>"

lemma sample_answers: "answers sample_page_query"
  by (simp add: answers_def sample_page_query_def newest_first_by_height)

lemma sample_db_rows:
  "scannable (best_rows sample_db)" "distinct (map b_height (best_rows sample_db))" "length (best_rows sample_db) = 2"
  "length (multi_tx_rows sample_db) = 1"
  by code_simp+

theorem pages_cover_chain_witness:
  "\<exists>pages multi. (\<forall>p \<in> {1 .. total_pages home_page_size 2}. paged_blocks sample_page_query p sample_db = Inr (pages p, 2)) \<and>
     concat (map pages [1 .. total_pages home_page_size 2]) = map block_of (by_height (best_rows sample_db)) \<and>
     concat (map multi [1 .. total_pages multi_tx_page_size 1]) = map block_of (by_height (multi_tx_rows sample_db))"
proof -
  have "length (best_rows sample_db) < 2 ^ 60" by (simp add: sample_db_rows)
  from pages_cover_chain [of "\<lambda>_. sample_page_query" sample_db, OF sample_answers sample_db_rows(1,2) this]
  show ?thesis unfolding sample_db_rows by auto
qed

theorem home_page_count_witness:
  "total_pages home_page_size (max_height (sample_db\<lparr>d_blocks := [block_row_of 100000000 (sample_block 0)]\<rparr>)) = 0"
proof -
  let ?d = "sample_db\<lparr>d_blocks := [block_row_of 100000000 (sample_block 0)]\<rparr>"
  have rows: "map b_height (best_rows ?d) = [0]" by code_simp
  then have "b_height ` set (best_rows ?d) = {0 .. 0}" "distinct (map b_height (best_rows ?d))"
    by (simp_all flip: set_map)
  moreover have "length (best_rows ?d) = 1" using arg_cong [OF rows, of length] by simp
  moreover have "total_pages home_page_size 1 = 1" by code_simp
  ultimately show ?thesis using home_page_count [of ?d 0] by simp
qed

theorem page_window_spec_witness:
  "\<exists>a b. page_window 20 30 = Some [a..b] \<and> b - a + 1 = 15 \<and> 20 \<in> {a..b}"
  using page_window_spec [of 30 20] by auto

end
