(* ===== verification/Algo_Refresh.thy ===== *)
theory Algo_Refresh
  imports Explorer_Blocks Algo_Stats
begin

text \<open>
  The generator's own way of filling \<open>algo_stats_current\<close> (\<open>generator/internal/db/stats.go\<close>,
  \<open>RefreshAlgoStats\<close>, and \<open>rpc_stats.go\<close>, \<open>UpsertAlgoStats\<close>): a full computation from the block and
  transaction tables when the table is empty, an incremental update otherwise, and the upsert of figures from the node.
  Each is one SQL statement, which either takes effect or fails. The statements are modelled on the tables of
  \<open>Schema\<close>; instants are whole seconds, which is what the comparison of a block time with \<open>computed_at\<close> depends on.
\<close>

section \<open>Rows and the database's behaviour\<close>

record stat_row = algo_row +
  st_computed_at :: int

text \<open>
  The errors of the two statements, the order of rows with equal keys, the order in which several coinbases of one block
  are found, \<open>NUMERIC\<close> quotients rounded to \<open>float8\<close>, and the time of the statement.
\<close>

record refresh_query =
  rq_count :: "string option"
  rq_exec :: "string option"
  rq_order :: "block_row list \<Rightarrow> block_row list"
  rq_coinbases :: "tx_row list \<Rightarrow> tx_row list"
  rq_numeric :: "rat \<Rightarrow> f64"
  rq_now :: int

definition err_not_null :: string where
  "err_not_null = ''null value violates not-null constraint''"

definition err_bigint :: string where
  "err_bigint = ''bigint out of range''"

definition err_float8 :: string where
  "err_float8 = ''value out of range''"

definition err_unique :: string where
  "err_unique = ''duplicate key value violates unique constraint''"

section \<open>The subqueries\<close>

text \<open>\<open>latest_diff\<close> and \<open>latest_block_per_algo\<close>: the best block of an algorithm with the greatest height.\<close>

definition latest_block :: "refresh_query \<Rightarrow> db \<Rightarrow> int \<Rightarrow> block_row option" where
  "latest_block q d i = find (\<lambda>b. b_algo_id b = i) (rq_order q (best_rows d))"

definition algo_ids :: "db \<Rightarrow> int list" where
  "algo_ids d = sort (remdups (map b_algo_id (best_rows d)))"

text \<open>\<open>spacing\<close>: the mean of the positive gaps between successive blocks of an algorithm in the last 2000 heights.\<close>

definition gaps :: "int list \<Rightarrow> int list" where
  "gaps ts = map2 (\<lambda>t t'. t' - t) ts (tl ts)"

definition recent_algo_times :: "refresh_query \<Rightarrow> db \<Rightarrow> int \<Rightarrow> int list" where
  "recent_algo_times q d i =
     map b_time_utc (rev (filter (\<lambda>b. b_algo_id b = i \<and> max_height d - 2000 \<le> b_height b) (rq_order q (best_rows d))))"

definition mean_gap :: "int list \<Rightarrow> rat option" where
  "mean_gap ts =
     (case filter (\<lambda>g. 0 < g) (gaps ts) of [] \<Rightarrow> None | gs \<Rightarrow> Some (of_int (sum_list gs) / of_nat (length gs)))"

definition spacing :: "refresh_query \<Rightarrow> db \<Rightarrow> int \<Rightarrow> rat option" where
  "spacing q d i = mean_gap (recent_algo_times q d i)"

text \<open>\<open>money\<close> and \<open>new_coins\<close>: the coinbase outputs of the blocks of an algorithm.\<close>

definition coinbases :: "db \<Rightarrow> block_row \<Rightarrow> tx_row list" where
  "coinbases d b = filter (\<lambda>t. t_is_coinbase t \<and> t_block_hash t = b_hash b) (d_txs d)"

definition minted :: "db \<Rightarrow> block_row list \<Rightarrow> int" where
  "minted d bs = (\<Sum>b\<leftarrow>bs. \<Sum>t\<leftarrow>coinbases d b. t_total_out t)"

definition minted_supply :: "db \<Rightarrow> int \<Rightarrow> int" where
  "minted_supply d i = minted d (filter (\<lambda>b. b_algo_id b = i) (best_rows d))"

definition new_coins :: "int \<Rightarrow> db \<Rightarrow> int \<Rightarrow> int" where
  "new_coins since d i = minted d (filter (\<lambda>b. b_algo_id b = i \<and> since < b_time_utc b) (best_rows d))"

text \<open>\<open>reward\<close>: what the coinbases of the latest block of an algorithm with a known id pay.\<close>

definition rewards :: "refresh_query \<Rightarrow> db \<Rightarrow> int \<Rightarrow> int list" where
  "rewards q d i =
     (if i \<in> {0 .. 7} then
        (case latest_block q d i of None \<Rightarrow> [] | Some b \<Rightarrow> map t_total_out (rq_coinbases q (coinbases d b)))
      else [])"

definition estimated_hashrate :: "refresh_query \<Rightarrow> f64 \<Rightarrow> rat option \<Rightarrow> f64" where
  "estimated_hashrate q diff avg =
     (case avg of None \<Rightarrow> Fin 0 | Some a \<Rightarrow> diff * Fin 4294967296 / rq_numeric q a / lit 1000000000)"

text \<open>\<open>float8\<close> arithmetic of the database fails where a result overflows or vanishes.\<close>

definition float8_ok :: "f64 \<Rightarrow> f64 \<Rightarrow> bool" where
  "float8_ok x r \<longleftrightarrow> (is_fin x \<longrightarrow> is_fin r \<and> (f_val x \<noteq> 0 \<longrightarrow> f_val r \<noteq> 0))"

text \<open>\<open>GREATEST\<close> on \<open>float8\<close>, in whose order \<open>NaN\<close> is above everything.\<close>

definition pg_le :: "f64 \<Rightarrow> f64 \<Rightarrow> bool" where
  "pg_le x y \<longleftrightarrow> y = NaN \<or> (x \<noteq> NaN \<and> f_le x y)"

definition pg_greatest :: "f64 \<Rightarrow> f64 \<Rightarrow> f64" where
  "pg_greatest x y = (if pg_le y x then x else y)"

section \<open>The full computation\<close>

definition full_row :: "refresh_query \<Rightarrow> db \<Rightarrow> int \<Rightarrow> block_row \<Rightarrow> int option \<Rightarrow> stat_row result" where
  "full_row q d i b reward =
     (let diff = (case b_difficulty b of None \<Rightarrow> Fin 0 | Some x \<Rightarrow> x);
          rate = estimated_hashrate q diff (spacing q d i);
          sats = minted_supply d i
      in if spacing q d i \<noteq> None \<and> \<not> float8_ok diff rate then Inl err_float8
         else if \<not> in64 sats then Inl err_bigint
         else Inr \<lparr>a_algo_id = i, a_algo_name = b_algo_name b, a_difficulty = diff, a_hashrate = rate, a_peak_hashrate = rate,
           a_money_supply = sats,
           a_block_reward = (case reward of None \<Rightarrow> Fin 0 | Some r \<Rightarrow> rq_numeric q (of_int r / 10 ^ 8)),
           a_nominal_block_reward = Fin 0, a_nssf_remaining = 0,
           a_block_spacing = (case spacing q d i of None \<Rightarrow> Fin 0 | Some a \<Rightarrow> rq_numeric q (a / 60)),
           st_computed_at = rq_now q\<rparr>)"

text \<open>All results or the first error.\<close>

fun all_results :: "'a result list \<Rightarrow> 'a list result" where
  "all_results [] = Inr []"
| "all_results (r # rs) =
     (case r of Inl e \<Rightarrow> Inl e
      | Inr x \<Rightarrow> (case all_results rs of Inl e \<Rightarrow> Inl e | Inr xs \<Rightarrow> Inr (x # xs)))"

definition left_join :: "'a list \<Rightarrow> 'a option list" where
  "left_join xs = (if xs = [] then [None] else map Some xs)"

definition full_rows :: "refresh_query \<Rightarrow> db \<Rightarrow> stat_row result list" where
  "full_rows q d =
     concat (map (\<lambda>i. case latest_block q d i of None \<Rightarrow> []
        | Some b \<Rightarrow> map (full_row q d i b) (left_join (rewards q d i))) (algo_ids d))"

definition full_compute :: "refresh_query \<Rightarrow> db \<Rightarrow> stat_row list result" where
  "full_compute q d =
     (case rq_exec q of
        Some e \<Rightarrow> Inl e
      | None \<Rightarrow>
          (case all_results (full_rows q d) of
             Inl e \<Rightarrow> Inl e
           | Inr rows \<Rightarrow> if distinct (map a_algo_id rows) then Inr rows else Inl err_unique))"

section \<open>The incremental update\<close>

definition min_computed_at :: "stat_row list \<Rightarrow> int option" where
  "min_computed_at rows = (case map st_computed_at rows of [] \<Rightarrow> None | t # ts \<Rightarrow> Some (fold min ts t))"

definition update_row :: "refresh_query \<Rightarrow> db \<Rightarrow> int option \<Rightarrow> stat_row \<Rightarrow> stat_row result" where
  "update_row q d since a =
     (let i = a_algo_id a
      in case latest_block q d i of
           None \<Rightarrow> Inr a
         | Some b \<Rightarrow>
             (case b_difficulty b of
                None \<Rightarrow> Inl err_not_null
              | Some diff \<Rightarrow>
                  (let rate = estimated_hashrate q diff (spacing q d i);
                       sats = a_money_supply a + (case since of None \<Rightarrow> 0 | Some t \<Rightarrow> new_coins t d i)
                   in if spacing q d i \<noteq> None \<and> \<not> float8_ok diff rate then Inl err_float8
                      else if \<not> in64 sats then Inl err_bigint
                      else Inr (a\<lparr>a_difficulty := diff,
                        a_hashrate := (if spacing q d i = None then a_hashrate a else rate),
                        a_peak_hashrate := pg_greatest (a_peak_hashrate a) rate,
                        a_money_supply := sats,
                        a_block_reward := (case rewards q d i of [] \<Rightarrow> a_block_reward a
                          | r # _ \<Rightarrow> rq_numeric q (of_int r / 10 ^ 8)),
                        a_block_spacing := (case spacing q d i of None \<Rightarrow> a_block_spacing a | Some s \<Rightarrow> rq_numeric q (s / 60)),
                        st_computed_at := rq_now q\<rparr>))))"

definition incremental_update :: "refresh_query \<Rightarrow> db \<Rightarrow> stat_row list \<Rightarrow> stat_row list result" where
  "incremental_update q d rows =
     (case rq_exec q of
        Some e \<Rightarrow> Inl e
      | None \<Rightarrow> all_results (map (update_row q d (min_computed_at rows)) rows))"

definition refresh_statistics :: "refresh_query \<Rightarrow> db \<Rightarrow> stat_row list \<Rightarrow> unit result \<times> stat_row list" where
  "refresh_statistics q d rows =
     (case rq_count q of
        Some e \<Rightarrow> (Inl e, rows)
      | None \<Rightarrow>
          (case (if rows = [] then full_compute q d else incremental_update q d rows) of
             Inl e \<Rightarrow> (Inl e, rows)
           | Inr rows' \<Rightarrow> (Inr (), rows')))"

section \<open>The upsert of figures from the node\<close>

record AlgoStatInput =
  ai_algo_id :: int
  ai_algo_name :: string
  ai_difficulty :: f64
  ai_hashrate :: f64
  ai_peak_hashrate :: f64
  ai_money_supply :: f64
  ai_block_reward :: f64
  ai_nominal_block_reward :: f64
  ai_nssf_blocks :: int
  ai_block_spacing :: f64

definition stat_row_of :: "int \<Rightarrow> AlgoStatInput \<Rightarrow> stat_row" where
  "stat_row_of now s =
     \<lparr>a_algo_id = ai_algo_id s, a_algo_name = ai_algo_name s, a_difficulty = ai_difficulty s, a_hashrate = ai_hashrate s,
      a_peak_hashrate = ai_hashrate s, a_money_supply = money_sats (ai_money_supply s), a_block_reward = ai_block_reward s,
      a_nominal_block_reward = ai_nominal_block_reward s, a_nssf_remaining = ai_nssf_blocks s,
      a_block_spacing = ai_block_spacing s, st_computed_at = now\<rparr>"

definition merge_stat :: "stat_row \<Rightarrow> stat_row \<Rightarrow> stat_row" where
  "merge_stat s r = r\<lparr>a_peak_hashrate := pg_greatest (a_peak_hashrate s) (a_peak_hashrate r)\<rparr>"

definition sql_upsert_stat :: "stat_row \<Rightarrow> stat_row list \<Rightarrow> stat_row list" where
  "sql_upsert_stat r rows =
     (if a_algo_id r \<in> a_algo_id ` set rows
      then map (\<lambda>s. if a_algo_id s = a_algo_id r then merge_stat s r else s) rows else rows @ [r])"

interpretation stat_table: upsert_table a_algo_id "\<lambda>rows. rows" sql_upsert_stat merge_stat
  by unfold_locales (auto simp: sql_upsert_stat_def merge_stat_def)

text \<open>Every statement commits on its own; the first error ends the loop.\<close>

fun upsert_algo_stats :: "(int \<Rightarrow> string option) \<Rightarrow> int \<Rightarrow> AlgoStatInput list \<Rightarrow> stat_row list \<Rightarrow> unit result \<times> stat_row list" where
  "upsert_algo_stats flt now [] rows = (Inr (), rows)"
| "upsert_algo_stats flt now (s # ss) rows =
     (case flt (ai_algo_id s) of
        Some e \<Rightarrow> (Inl e, rows)
      | None \<Rightarrow> upsert_algo_stats flt now ss (sql_upsert_stat (stat_row_of now s) rows))"

section \<open>Successful statements\<close>

lemma all_results_ok: "all_results rs = Inr xs \<longleftrightarrow> rs = map Inr xs"
proof (induction rs arbitrary: xs)
  case (Cons r rs)
  show ?case
  proof (cases r)
    case (Inr x)
    show ?thesis using Inr Cons.IH by (cases xs; cases "all_results rs") auto
  qed auto
qed auto

lemma find_ordered:
  assumes "\<And>xs. mset (ord xs) = mset xs"
  shows "find P (ord xs) = None \<longleftrightarrow> (\<forall>x \<in> set xs. \<not> P x)"
  using mset_eq_setD [OF assms] by (auto simp: find_None_iff)

definition orders_blocks :: "refresh_query \<Rightarrow> bool" where
  "orders_blocks q \<longleftrightarrow> newest_first (rq_order q) \<and> (\<forall>xs. mset (rq_coinbases q xs) = mset xs)"

lemma latest_block_some:
  "orders_blocks q \<Longrightarrow> latest_block q d i \<noteq> None \<longleftrightarrow> i \<in> set (algo_ids d)"
  unfolding latest_block_def algo_ids_def orders_blocks_def newest_first_def
  using find_ordered [of "rq_order q" "\<lambda>b. b_algo_id b = i" "best_rows d"] by auto

text \<open>What a successful update writes into a row.\<close>

lemma update_row_ok:
  assumes "update_row q d since a = Inr a'"
  shows "a_algo_id a' = a_algo_id a"
    and "latest_block q d (a_algo_id a) = None \<Longrightarrow> a' = a"
    and "latest_block q d (a_algo_id a) \<noteq> None \<Longrightarrow> st_computed_at a' = rq_now q \<and>
      a_money_supply a' = a_money_supply a + (case since of None \<Rightarrow> 0 | Some t \<Rightarrow> new_coins t d (a_algo_id a))"
    and "pg_le (a_peak_hashrate a) (a_peak_hashrate a')"
proof -
  have refl: "pg_le x x" for x by (cases x) (simp_all add: pg_le_def)
  have total: "pg_le x y" if "\<not> pg_le y x" for x y
    using that by (cases x; cases y) (auto simp: pg_le_def)
  have great: "pg_le x (pg_greatest x y)" for x y using refl total by (simp add: pg_greatest_def)
  show "a_algo_id a' = a_algo_id a" "latest_block q d (a_algo_id a) = None \<Longrightarrow> a' = a"
    "pg_le (a_peak_hashrate a) (a_peak_hashrate a')"
    "latest_block q d (a_algo_id a) \<noteq> None \<Longrightarrow> st_computed_at a' = rq_now q \<and>
      a_money_supply a' = a_money_supply a + (case since of None \<Rightarrow> 0 | Some t \<Rightarrow> new_coins t d (a_algo_id a))"
    using assms refl great by (auto simp: update_row_def Let_def split: option.splits if_splits)
qed

lemma incremental_ok:
  assumes "incremental_update q d rows = Inr rows'"
  shows "length rows' = length rows" and "map a_algo_id rows' = map a_algo_id rows"
    and "k < length rows \<Longrightarrow> update_row q d (min_computed_at rows) (rows ! k) = Inr (rows' ! k)"
proof -
  have eq: "map (update_row q d (min_computed_at rows)) rows = map Inr rows'"
    using assms by (auto simp: incremental_update_def all_results_ok split: option.splits)
  then show len: "length rows' = length rows" by (metis length_map)
  have at: "update_row q d (min_computed_at rows) (rows ! k) = Inr (rows' ! k)" if "k < length rows" for k
    using eq that len by (metis nth_map)
  show "k < length rows \<Longrightarrow> update_row q d (min_computed_at rows) (rows ! k) = Inr (rows' ! k)" by (rule at)
  show "map a_algo_id rows' = map a_algo_id rows"
    using len update_row_ok(1) [OF at] by (intro nth_equalityI) auto
qed

text \<open>The rows of a full computation.\<close>

lemma full_row_ok:
  assumes "full_row q d i b w = Inr a"
  shows "a_algo_id a = i" and "a_money_supply a = minted_supply d i" and "st_computed_at a = rq_now q"
  using assms by (auto simp: full_row_def Let_def split: if_splits)

lemma full_compute_ok:
  assumes "full_compute q d = Inr rows"
  shows "distinct (map a_algo_id rows)"
    and "a \<in> set rows \<Longrightarrow> a_money_supply a = minted_supply d (a_algo_id a) \<and> st_computed_at a = rq_now q \<and>
      a_algo_id a \<in> set (algo_ids d)"
    and "orders_blocks q \<Longrightarrow> a_algo_id ` set rows = set (algo_ids d)"
proof -
  show "distinct (map a_algo_id rows)"
    using assms by (auto simp: full_compute_def split: option.splits sum.splits if_splits)
  have eq: "full_rows q d = map Inr rows"
    using assms by (auto simp: full_compute_def all_results_ok split: option.splits sum.splits if_splits)
  have src: "\<exists>i \<in> set (algo_ids d). \<exists>b w. latest_block q d i = Some b \<and> full_row q d i b w = Inr a" if "a \<in> set rows" for a
  proof -
    have "Inr a \<in> set (full_rows q d)" using that eq by simp
    then obtain i b w where "i \<in> set (algo_ids d)" "latest_block q d i = Some b" "full_row q d i b w = Inr a"
      by (auto simp: full_rows_def split: option.splits) (metis)
    then show ?thesis by blast
  qed
  then show row: "a \<in> set rows \<Longrightarrow> a_money_supply a = minted_supply d (a_algo_id a) \<and> st_computed_at a = rq_now q \<and>
      a_algo_id a \<in> set (algo_ids d)" for a
    using full_row_ok by fastforce
  show "a_algo_id ` set rows = set (algo_ids d)" if q: "orders_blocks q"
  proof
    show "a_algo_id ` set rows \<subseteq> set (algo_ids d)" using row by auto
    show "set (algo_ids d) \<subseteq> a_algo_id ` set rows"
    proof
      fix i assume i: "i \<in> set (algo_ids d)"
      then obtain b where b: "latest_block q d i = Some b" using latest_block_some [OF q, of d i] by auto
      obtain w ws where w: "left_join (rewards q d i) = w # ws"
        by (cases "rewards q d i") (auto simp: left_join_def)
      let ?f = "\<lambda>i. case latest_block q d i of None \<Rightarrow> [] | Some b \<Rightarrow> map (full_row q d i b) (left_join (rewards q d i))"
      have "full_row q d i b w \<in> set (?f i)" using b w by simp
      with i have "full_row q d i b w \<in> set (full_rows q d)" unfolding full_rows_def set_concat set_map by blast
      then obtain a where "a \<in> set rows" "full_row q d i b w = Inr a" using eq by auto
      then show "i \<in> a_algo_id ` set rows" using full_row_ok(1) by blast
    qed
  qed
qed

section \<open>The recorded supply\<close>

text \<open>
  \<open>d'\<close> is a later state of the database of \<open>d\<close>: blocks and transactions have been added, and no added transaction belongs
  to a block that was there before.
\<close>

definition later :: "db \<Rightarrow> db \<Rightarrow> bool" where
  "later d d' \<longleftrightarrow>
     take (length (d_blocks d)) (d_blocks d') = d_blocks d \<and> take (length (d_txs d)) (d_txs d') = d_txs d \<and>
     (\<forall>t \<in> set (drop (length (d_txs d)) (d_txs d')). t_block_hash t \<notin> b_hash ` set (d_blocks d))"

definition added_rows :: "db \<Rightarrow> db \<Rightarrow> block_row list" where
  "added_rows d d' = filter b_in_best_chain (drop (length (d_blocks d)) (d_blocks d'))"

lemma best_rows_later: "later d d' \<Longrightarrow> best_rows d' = best_rows d @ added_rows d d'"
  unfolding later_def best_rows_def added_rows_def
  using append_take_drop_id [of "length (d_blocks d)" "d_blocks d'"] filter_append [of b_in_best_chain "d_blocks d"] by metis

lemma coinbases_later:
  assumes "later d d'" and "b \<in> set (best_rows d)"
  shows "coinbases d' b = coinbases d b"
proof -
  have "b_hash b \<in> b_hash ` set (d_blocks d)" using assms(2) by (simp add: best_rows_def)
  then have none: "filter (\<lambda>t. t_is_coinbase t \<and> t_block_hash t = b_hash b) (drop (length (d_txs d)) (d_txs d')) = []"
    using assms(1) by (auto simp: later_def filter_empty_conv)
  have "d_txs d' = d_txs d @ drop (length (d_txs d)) (d_txs d')"
    using assms(1) append_take_drop_id [of "length (d_txs d)" "d_txs d'"] by (simp add: later_def)
  then have "coinbases d' b = filter (\<lambda>t. t_is_coinbase t \<and> t_block_hash t = b_hash b) (d_txs d @ drop (length (d_txs d)) (d_txs d'))"
    by (simp add: coinbases_def)
  then show ?thesis using none by (simp add: coinbases_def)
qed

lemma minted_append: "minted d (xs @ ys) = minted d xs + minted d ys"
  by (simp add: minted_def)

lemma minted_later: "later d d' \<Longrightarrow> set bs \<subseteq> set (best_rows d) \<Longrightarrow> minted d' bs = minted d bs"
  unfolding minted_def by (intro arg_cong [of _ _ sum_list] map_cong refl) (auto simp: coinbases_later)

lemma minted_split: "minted d (filter P bs) = minted d (filter (\<lambda>b. P b \<and> Q b) bs) + minted d (filter (\<lambda>b. P b \<and> \<not> Q b) bs)"
  by (induction bs) (auto simp: minted_def)

text \<open>
  The exact error of one update: blocks that were already counted but lie after the time of the last computation are counted again,
  and added blocks that do not lie after it are missed.
\<close>

definition counted_again :: "int \<Rightarrow> db \<Rightarrow> int \<Rightarrow> int" where
  "counted_again t d i = minted d (filter (\<lambda>b. b_algo_id b = i \<and> t < b_time_utc b) (best_rows d))"

definition missed :: "int \<Rightarrow> db \<Rightarrow> db \<Rightarrow> int \<Rightarrow> int" where
  "missed t d d' i = minted d' (filter (\<lambda>b. b_algo_id b = i \<and> \<not> t < b_time_utc b) (added_rows d d'))"

lemma new_coins_drift:
  assumes "later d d'"
  shows "minted_supply d i + new_coins t d' i = minted_supply d' i + counted_again t d i - missed t d d' i"
proof -
  have old: "minted d' (filter P (best_rows d)) = minted d (filter P (best_rows d))" for P
    by (rule minted_later [OF assms]) auto
  show ?thesis
    unfolding minted_supply_def new_coins_def counted_again_def missed_def best_rows_later [OF assms]
    using minted_split [where d = d' and P = "\<lambda>b. b_algo_id b = i" and Q = "\<lambda>b. t < b_time_utc b" and bs = "added_rows d d'"]
    by (simp add: minted_append old)
qed

lemma min_computed_at_same:
  assumes "rows \<noteq> []" and "\<And>a. a \<in> set rows \<Longrightarrow> st_computed_at a = t"
  shows "min_computed_at rows = Some t"
proof -
  have "fold min ts t = t" if "\<forall>x \<in> set ts. x = t" for ts using that by (induction ts) auto
  then show ?thesis using assms by (cases rows) (simp_all add: min_computed_at_def)
qed


text \<open>One refresh of a table whose rows were all computed at \<open>t\<close>.\<close>

lemma refreshed_row:
  assumes q: "orders_blocks q" and ok: "incremental_update q d' rows = Inr rows'" and "rows \<noteq> []"
    and at: "\<And>a. a \<in> set rows \<Longrightarrow> st_computed_at a = t \<and> a_algo_id a \<in> set (algo_ids d')"
    and a': "a' \<in> set rows'"
  obtains a where "a \<in> set rows" and "a_algo_id a' = a_algo_id a" and "st_computed_at a' = rq_now q"
    and "a_money_supply a' = a_money_supply a + new_coins t d' (a_algo_id a)"
proof -
  obtain k where k: "k < length rows" "a' = rows' ! k"
    using a' incremental_ok(1) [OF ok] by (auto simp: in_set_conv_nth)
  have since: "min_computed_at rows = Some t" using assms(3) at by (intro min_computed_at_same) auto
  have up: "update_row q d' (Some t) (rows ! k) = Inr a'" using incremental_ok(3) [OF ok k(1)] since k(2) by simp
  have mem: "rows ! k \<in> set rows" using k(1) by simp
  have "latest_block q d' (a_algo_id (rows ! k)) \<noteq> None" using latest_block_some [OF q] at [OF mem] by blast
  then show thesis using that [OF mem] update_row_ok(1,3) [OF up] by simp
qed

lemma algo_ids_later: "later d d' \<Longrightarrow> set (algo_ids d) \<subseteq> set (algo_ids d')"
  by (auto simp: algo_ids_def best_rows_later)

text \<open>C10: For any full computation on one state of the tables followed by an incremental update on a later one, the money supply
  recorded for an algorithm is the sum of all its coinbase outputs, plus those of the already counted blocks whose block time is
  after the computation, minus those of the added blocks whose block time is not. The update's error is exactly
  that difference.\<close>

theorem supply_drift:
  assumes "orders_blocks q" and "orders_blocks q'" and "later d d'"
    and "full_compute q d = Inr rows" and "incremental_update q' d' rows = Inr rows'" and "a \<in> set rows'"
  shows "a_money_supply a = minted_supply d' (a_algo_id a)
    + counted_again (rq_now q) d (a_algo_id a) - missed (rq_now q) d d' (a_algo_id a)"
proof -
  have full: "b \<in> set rows \<Longrightarrow> a_money_supply b = minted_supply d (a_algo_id b) \<and> st_computed_at b = rq_now q \<and>
      a_algo_id b \<in> set (algo_ids d)" for b by (rule full_compute_ok(2) [OF assms(4)])
  have "length rows' = length rows" by (rule incremental_ok(1) [OF assms(5)])
  with assms(6) have "rows \<noteq> []" by auto
  then obtain b where "b \<in> set rows" "a_algo_id a = a_algo_id b" "a_money_supply a = a_money_supply b + new_coins (rq_now q) d' (a_algo_id b)"
    using refreshed_row [OF assms(2,5) _ _ assms(6), where t = "rq_now q"] full algo_ids_later [OF assms(3)] by blast
  then show ?thesis using new_coins_drift [OF assms(3)] full by simp
qed

section \<open>Repeated refreshes\<close>

text \<open>The refreshes of a run, in order, each on the state of the tables at its time; a failed one leaves the table as it was.\<close>

definition refresh_rows :: "refresh_query \<times> db \<Rightarrow> stat_row list \<Rightarrow> stat_row list" where
  "refresh_rows p rows = snd (refresh_statistics (fst p) (snd p) rows)"

text \<open>
  The clock agrees with the chain from \<open>d\<close> on: a refresh at time \<open>t\<close> sees blocks of times up to \<open>t\<close> only, and blocks that are
  added after it have later times.
\<close>

fun in_step :: "int \<Rightarrow> db \<Rightarrow> (refresh_query \<times> db) list \<Rightarrow> bool" where
  "in_step t d [] \<longleftrightarrow> True"
| "in_step t d ((q, d') # ps) \<longleftrightarrow>
     orders_blocks q \<and> later d d' \<and> t \<le> rq_now q \<and> (\<forall>b \<in> set (added_rows d d'). t < b_time_utc b) \<and>
     (\<forall>b \<in> set (best_rows d'). b_time_utc b \<le> rq_now q) \<and> in_step (rq_now q) d' ps"

lemma later_trans:
  assumes "later d d'" and "later d' d''"
  shows "later d d''"
proof -
  obtain bs ts where d': "d_blocks d' = d_blocks d @ bs" "d_txs d' = d_txs d @ ts" "\<forall>t \<in> set ts. t_block_hash t \<notin> b_hash ` set (d_blocks d)"
    using assms(1) unfolding later_def by (metis append_take_drop_id)
  obtain bs' ts' where "d_blocks d'' = d_blocks d' @ bs'" "d_txs d'' = d_txs d' @ ts'" "\<forall>t \<in> set ts'. t_block_hash t \<notin> b_hash ` set (d_blocks d')"
    using assms(2) unfolding later_def by (metis append_take_drop_id)
  then show ?thesis using d' by (auto simp: later_def)
qed

lemma added_rows_trans:
  assumes "later d d'" and "later d' d''"
  shows "added_rows d d'' = added_rows d d' @ added_rows d' d''"
proof -
  have "best_rows d @ added_rows d d'' = best_rows d @ added_rows d d' @ added_rows d' d''"
    using best_rows_later [OF assms(1)] best_rows_later [OF assms(2)] best_rows_later [OF later_trans [OF assms]] by simp
  then show ?thesis by simp
qed

text \<open>The state between two refreshes: the table is exact for an earlier state of the database, and everything added since is newer.\<close>

definition settled :: "int \<Rightarrow> db \<Rightarrow> stat_row list \<Rightarrow> bool" where
  "settled t d rows \<longleftrightarrow> rows = [] \<or>
     (\<exists>d0 t0. later d0 d \<and> t0 \<le> t \<and> (\<forall>b \<in> set (best_rows d0). b_time_utc b \<le> t0) \<and> (\<forall>b \<in> set (added_rows d0 d). t0 < b_time_utc b) \<and>
       (\<forall>a \<in> set rows. st_computed_at a = t0 \<and> a_algo_id a \<in> set (algo_ids d0) \<and> a_money_supply a = minted_supply d0 (a_algo_id a)))"

lemma counted_again_none: "\<forall>b \<in> set (best_rows d). b_time_utc b \<le> t \<Longrightarrow> counted_again t d i = 0"
proof -
  assume "\<forall>b \<in> set (best_rows d). b_time_utc b \<le> t"
  then have "filter (\<lambda>b. b_algo_id b = i \<and> t < b_time_utc b) (best_rows d) = []" by (auto simp: filter_empty_conv)
  then show ?thesis by (simp add: counted_again_def minted_def)
qed

lemma missed_none: "\<forall>b \<in> set (added_rows d d'). t < b_time_utc b \<Longrightarrow> missed t d d' i = 0"
proof -
  assume "\<forall>b \<in> set (added_rows d d'). t < b_time_utc b"
  then have "filter (\<lambda>b. b_algo_id b = i \<and> \<not> t < b_time_utc b) (added_rows d d') = []" by (auto simp: filter_empty_conv)
  then show ?thesis by (simp add: missed_def minted_def)
qed

lemma later_refl: "later d d" by (simp add: later_def)

lemma refresh_settles:
  assumes set: "settled t d rows" and step: "in_step t d ((q, d') # ps)"
  shows "settled (rq_now q) d' (refresh_rows (q, d') rows)"
    and "fst (refresh_statistics q d' rows) = Inr () \<Longrightarrow> a \<in> set (refresh_rows (q, d') rows) \<Longrightarrow>
      a_money_supply a = minted_supply d' (a_algo_id a)"
proof -
  have q: "orders_blocks q" and lt: "later d d'" and tq: "t \<le> rq_now q"
    and new: "\<forall>b \<in> set (added_rows d d'). t < b_time_utc b" and old: "\<forall>b \<in> set (best_rows d'). b_time_utc b \<le> rq_now q"
    using step by auto
  have exact: "settled (rq_now q) d' rows'"
    if "\<And>a. a \<in> set rows' \<Longrightarrow> st_computed_at a = rq_now q \<and> a_algo_id a \<in> set (algo_ids d') \<and> a_money_supply a = minted_supply d' (a_algo_id a)"
    for rows'
  proof -
    have "added_rows d' d' = []" by (simp add: added_rows_def)
    then show ?thesis unfolding settled_def using old later_refl that by (intro disjI2 exI [of _ d'] exI [of _ "rq_now q"]) simp
  qed
  have fin: "settled (rq_now q) d' rows' \<and> (\<forall>a \<in> set rows'. a_money_supply a = minted_supply d' (a_algo_id a))"
    if ok: "(if rows = [] then full_compute q d' else incremental_update q d' rows) = Inr rows'" for rows'
  proof (cases "rows = []")
    case True
    then show ?thesis using full_compute_ok(2) [of q d' rows'] ok exact by fastforce
  next
    case False
    then have inc: "incremental_update q d' rows = Inr rows'" using ok by simp
    obtain d0 t0 where d0: "later d0 d" "\<forall>b \<in> set (best_rows d0). b_time_utc b \<le> t0" "\<forall>b \<in> set (added_rows d0 d). t0 < b_time_utc b" "t0 \<le> t"
      and rows: "\<And>a. a \<in> set rows \<Longrightarrow> st_computed_at a = t0 \<and> a_algo_id a \<in> set (algo_ids d0) \<and> a_money_supply a = minted_supply d0 (a_algo_id a)"
      using set False by (auto simp: settled_def)
    have lt0: "later d0 d'" by (rule later_trans [OF d0(1) lt])
    have "\<forall>b \<in> set (added_rows d0 d'). t0 < b_time_utc b" using d0(3,4) new added_rows_trans [OF d0(1) lt] by auto
    then have sum: "minted_supply d0 i + new_coins t0 d' i = minted_supply d' i" for i
      using new_coins_drift [OF lt0, of i t0] d0(2) by (simp add: counted_again_none missed_none)
    have row: "st_computed_at a = rq_now q \<and> a_algo_id a \<in> set (algo_ids d') \<and> a_money_supply a = minted_supply d' (a_algo_id a)"
      if a: "a \<in> set rows'" for a
    proof -
      have "\<And>a. a \<in> set rows \<Longrightarrow> st_computed_at a = t0 \<and> a_algo_id a \<in> set (algo_ids d')"
        using rows algo_ids_later [OF lt0] by blast
      from refreshed_row [OF q inc False this a] obtain b where "b \<in> set rows" "a_algo_id a = a_algo_id b" "st_computed_at a = rq_now q"
        "a_money_supply a = a_money_supply b + new_coins t0 d' (a_algo_id b)" by blast
      then show ?thesis using rows sum algo_ids_later [OF lt0] by auto
    qed
    show ?thesis using exact [OF row] row by blast
  qed
  have keep: "settled (rq_now q) d' rows"
  proof (cases "rows = []")
    case False
    then obtain d0 t0 where d0: "later d0 d" "\<forall>b \<in> set (best_rows d0). b_time_utc b \<le> t0" "\<forall>b \<in> set (added_rows d0 d). t0 < b_time_utc b" "t0 \<le> t"
      and rows: "\<forall>a \<in> set rows. st_computed_at a = t0 \<and> a_algo_id a \<in> set (algo_ids d0) \<and> a_money_supply a = minted_supply d0 (a_algo_id a)"
      using set by (auto simp: settled_def)
    have "\<forall>b \<in> set (added_rows d0 d'). t0 < b_time_utc b" using d0(3,4) new added_rows_trans [OF d0(1) lt] by auto
    moreover have "t0 \<le> rq_now q" using d0(4) tq by simp
    ultimately show ?thesis unfolding settled_def using later_trans [OF d0(1) lt] d0(2) rows by blast
  qed (simp add: settled_def)
  show "settled (rq_now q) d' (refresh_rows (q, d') rows)"
    using fin keep by (auto simp: refresh_rows_def refresh_statistics_def split: option.splits sum.splits)
  show "fst (refresh_statistics q d' rows) = Inr () \<Longrightarrow> a \<in> set (refresh_rows (q, d') rows) \<Longrightarrow>
      a_money_supply a = minted_supply d' (a_algo_id a)"
    using fin by (auto simp: refresh_rows_def refresh_statistics_def split: option.splits sum.splits)
qed

lemma refreshes_settle:
  "settled t d rows \<Longrightarrow> in_step t d (ps @ [(q, d')]) \<Longrightarrow>
    \<exists>t' d''. settled t' d'' (fold refresh_rows ps rows) \<and> in_step t' d'' [(q, d')]"
proof (induction ps arbitrary: t d rows)
  case (Cons p ps)
  obtain qp dp where p: "p = (qp, dp)" by fastforce
  have step: "in_step t d ((qp, dp) # (ps @ [(q, d')]))" using Cons.prems(2) by (simp add: p)
  have rest: "in_step (rq_now qp) dp (ps @ [(q, d')])" using step by simp
  show ?case using Cons.IH [OF refresh_settles(1) [OF Cons.prems(1) step] rest] by (simp add: p)
qed auto

text \<open>C20: Where the clock agrees with the chain (a refresh at time \<open>t\<close> sees only blocks of times up to \<open>t\<close>, later blocks have
  later times), the incremental refreshes are exact for ever: after any run of refreshes from the empty table, failed ones among
  them, a successful refresh leaves every row with the sum of all coinbase outputs of its algorithm, which is what the full computation
  would have written.\<close>

theorem refreshes_are_exact:
  assumes "in_step t d (ps @ [(q, d')])"
    and "fst (refresh_statistics q d' (fold refresh_rows ps [])) = Inr ()"
    and "a \<in> set (snd (refresh_statistics q d' (fold refresh_rows ps [])))"
  shows "a_money_supply a = minted_supply d' (a_algo_id a)"
proof -
  have "settled t d []" by (simp add: settled_def)
  from refreshes_settle [OF this assms(1)] obtain t' d'' where
    "settled t' d'' (fold refresh_rows ps [])" "in_step t' d'' [(q, d')]" by blast
  from refresh_settles(2) [OF this assms(2)] assms(3) show ?thesis by (simp add: refresh_rows_def)
qed

section \<open>What a refresh keeps\<close>

lemma pg_le_refl: "pg_le x x" by (cases x) (simp_all add: pg_le_def)

lemma pg_le_trans: "pg_le x y \<Longrightarrow> pg_le y z \<Longrightarrow> pg_le x z"
  by (cases x; cases y; cases z) (auto simp: pg_le_def f_val_def)

lemma refresh_keeps:
  assumes "rows \<noteq> []"
  shows "map a_algo_id (refresh_rows p rows) = map a_algo_id rows"
    and "list_all2 pg_le (map a_peak_hashrate rows) (map a_peak_hashrate (refresh_rows p rows))"
    and "refresh_rows p rows \<noteq> []"
proof -
  obtain q d where p: "p = (q, d)" by fastforce
  have same: "list_all2 pg_le ps ps" for ps by (simp add: list_all2_conv_all_nth pg_le_refl)
  consider "refresh_rows p rows = rows" | rows' where "refresh_rows p rows = rows'" "incremental_update q d rows = Inr rows'"
  proof (cases "rq_count q = None \<and> is_ok (incremental_update q d rows)")
    case True
    then obtain rows' where "incremental_update q d rows = Inr rows'"
      by (cases "incremental_update q d rows") (auto simp: is_ok_def)
    then show thesis using that(2) True assms by (simp add: p refresh_rows_def refresh_statistics_def)
  next
    case False
    then have "refresh_rows p rows = rows"
      using assms by (cases "incremental_update q d rows") (auto simp: p refresh_rows_def refresh_statistics_def is_ok_def split: option.splits)
    then show thesis by (rule that(1))
  qed
  then have "map a_algo_id (refresh_rows p rows) = map a_algo_id rows \<and>
      list_all2 pg_le (map a_peak_hashrate rows) (map a_peak_hashrate (refresh_rows p rows))"
  proof cases
    case (2 rows')
    note inc = incremental_ok [OF 2(2)]
    have "pg_le (a_peak_hashrate (rows ! k)) (a_peak_hashrate (rows' ! k))" if "k < length rows" for k
      using update_row_ok(4) [OF inc(3) [OF that]] .
    then show ?thesis using inc(1,2) by (simp add: 2(1) list_all2_conv_all_nth)
  qed (simp add: same)
  then show "map a_algo_id (refresh_rows p rows) = map a_algo_id rows"
    "list_all2 pg_le (map a_peak_hashrate rows) (map a_peak_hashrate (refresh_rows p rows))" by auto
  from this(1) assms show "refresh_rows p rows \<noteq> []" by (metis map_is_Nil_conv)
qed

text \<open>C34: Once the table has rows, no run of refreshes (on whatever states of the database, failing or not) adds, removes or renumbers
  a row, and no recorded peak ever falls in the order \<open>GREATEST\<close> uses. An algorithm whose first block comes after the first
  computation therefore never gets a row from the generator.\<close>

theorem refreshes_keep_algorithms:
  assumes "rows \<noteq> []"
  shows "map a_algo_id (fold refresh_rows ps rows) = map a_algo_id rows \<and>
    list_all2 pg_le (map a_peak_hashrate rows) (map a_peak_hashrate (fold refresh_rows ps rows))"
  using assms
proof (induction ps arbitrary: rows)
  case Nil
  then show ?case by (simp add: list_all2_conv_all_nth pg_le_refl)
next
  case (Cons p ps)
  note keep = refresh_keeps [OF Cons.prems, of p]
  have "list_all2 pg_le xs zs" if "list_all2 pg_le xs ys" "list_all2 pg_le ys zs" for xs ys zs
    using list_all2_trans [of pg_le pg_le pg_le, OF pg_le_trans that] .
  then show ?case using Cons.IH [OF keep(3)] keep(1,2) by auto
qed

section \<open>Ingested blocks\<close>

lemma txs_appended:
  "\<exists>ts. d_txs (fold (tx_effect factor b) pts d) = d_txs d @ ts \<and> (\<forall>t \<in> set ts. t_block_hash t = char64 (blk_hash b))"
proof (induction pts arbitrary: d)
  case (Cons pt pts)
  have "\<exists>ts. d_txs (tx_effect factor b pt d) = d_txs d @ ts \<and> (\<forall>t \<in> set ts. t_block_hash t = char64 (blk_hash b))"
    by (auto simp: tx_effect_txs sql_insert_tx_def insert_nc_def tx_row_of_def)
  then show ?case using Cons.IH [of "tx_effect factor b pt d"] by fastforce
qed simp

text \<open>Ingesting a block whose hash is not stored only appends: the block and transaction tables keep every row they had, in place,
  whatever else the block contains, and the transactions it adds belong to it alone. It is the step between two refreshes that
  the theorems on the money supply speak about.\<close>

theorem ingested_block_is_later:
  assumes "insert_block_bundle flt factor b x = (Inr u, x')" and "\<not> x_aborted x"
    and "char64 (blk_hash b) \<notin> b_hash ` set (d_blocks (x_db x))"
  shows "later (x_db x) (x_db x') \<and> added_rows (x_db x) (x_db x') = [block_row_of factor b]"
proof -
  have d': "x_db x' = block_effect factor b (x_db x)"
    using tx_refinesD(3) [OF insert_block_bundle_refines assms(1)] assms(2) by simp
  then have bs: "d_blocks (x_db x') = d_blocks (x_db x) @ [block_row_of factor b]"
    using assms(3) by (auto simp: block_effect_blocks sql_insert_block_def insert_nc_def)
  obtain ts where "d_txs (x_db x') = d_txs (x_db x) @ ts" "\<forall>t \<in> set ts. t_block_hash t = char64 (blk_hash b)"
    using txs_appended [of factor b "enumerate 0 (blk_tx b)" "sql_insert_block (block_row_of factor b) (x_db x)"]
    by (auto simp: d' block_effect_def table_simps)
  then show ?thesis using bs assms(3) by (auto simp: later_def added_rows_def)
qed

section \<open>Witnesses\<close>

definition sample_refresh :: "int \<Rightarrow> refresh_query" where
  "sample_refresh now = \<lparr>rq_count = None, rq_exec = None, rq_order = by_height, rq_coinbases = id, rq_numeric = Fin, rq_now = now\<rparr>"

definition sample_coinbase_row :: "int \<Rightarrow> tx_row" where
  "sample_coinbase_row h = \<lparr>t_txid = ''t'' @ itoa h, t_block_hash = char64 (''b'' @ itoa h), t_block_height = h, t_position = 0, t_version = None,
     t_locktime = None, t_size_bytes = None, t_vsize = None, t_weight = None, t_is_coinbase = True, t_total_in = 0,
     t_total_out = 2000000000, t_fee = 0\<rparr>"

definition sample_tables :: "(int \<times> int) list \<Rightarrow> db" where
  "sample_tables hts = empty_db\<lparr>d_blocks := map (\<lambda>(h, t). (block_row_of 100000000 (sample_block h))\<lparr>b_time_utc := t\<rparr>) hts,
     d_txs := map (sample_coinbase_row \<circ> fst) hts\<rparr>"

lemma sample_refresh_orders: "orders_blocks (sample_refresh now)"
  by (simp add: orders_blocks_def sample_refresh_def newest_first_by_height)


lemma sample_steps:
  "later (sample_tables [(0, 100)]) (sample_tables [(0, 100), (1, 140)])"
  "later (sample_tables [(0, 100)]) (sample_tables [(0, 100), (1, 160)])"
  by code_simp+

lemma sample_computed:
  "is_ok (full_compute (sample_refresh 150) (sample_tables [(0, 100)]))"
  "is_ok (incremental_update (sample_refresh 200) (sample_tables [(0, 100), (1, 140)])
     (projr (full_compute (sample_refresh 150) (sample_tables [(0, 100)]))))"
  by code_simp+

text \<open>A block of time 140 that is ingested after the computation at time 150 is missed for good.\<close>

theorem supply_drift_witness:
  "\<exists>rows rows' a. full_compute (sample_refresh 150) (sample_tables [(0, 100)]) = Inr rows \<and>
     incremental_update (sample_refresh 200) (sample_tables [(0, 100), (1, 140)]) rows = Inr rows' \<and> a \<in> set rows' \<and>
     a_money_supply a = 2000000000 \<and> minted_supply (sample_tables [(0, 100), (1, 140)]) (a_algo_id a) = 4000000000"
proof -
  let ?d = "sample_tables [(0, 100)]" and ?d' = "sample_tables [(0, 100), (1, 140)]"
  obtain rows where rows: "full_compute (sample_refresh 150) ?d = Inr rows"
    using sample_computed(1) by (cases "full_compute (sample_refresh 150) ?d") auto
  then obtain rows' where rows': "incremental_update (sample_refresh 200) ?d' rows = Inr rows'"
    using sample_computed(2) by (cases "incremental_update (sample_refresh 200) ?d' rows") auto
  have "map a_algo_id rows = [0]"
  proof -
    have "map_sum id (map a_algo_id) (full_compute (sample_refresh 150) ?d) = Inr [0]" by code_simp
    then show ?thesis by (simp add: rows)
  qed
  then have ids: "map a_algo_id rows' = [0]" using incremental_ok(2) [OF rows'] by simp
  then obtain a where a: "a \<in> set rows'" "a_algo_id a = 0" by (auto simp: map_eq_Cons_conv)
  have "minted_supply ?d' 0 = 4000000000" "counted_again 150 ?d 0 = 0" "missed 150 ?d ?d' 0 = 2000000000"
    by code_simp+
  moreover have "rq_now (sample_refresh 150) = 150" by (simp add: sample_refresh_def)
  ultimately show ?thesis
    using supply_drift [OF sample_refresh_orders sample_refresh_orders sample_steps(1) rows rows' a(1)] rows rows' a by auto
qed

theorem refreshes_are_exact_witness:
  "\<exists>a. a \<in> set (snd (refresh_statistics (sample_refresh 200) (sample_tables [(0, 100), (1, 160)])
       (fold refresh_rows [(sample_refresh 150, sample_tables [(0, 100)])] []))) \<and>
     a_money_supply a = 4000000000"
proof -
  let ?ps = "[(sample_refresh 150, sample_tables [(0, 100)])]" and ?d' = "sample_tables [(0, 100), (1, 160)]"
  let ?rows = "snd (refresh_statistics (sample_refresh 200) ?d' (fold refresh_rows ?ps []))"
  have "map a_algo_id ?rows = [0]" by code_simp
  then obtain a where a: "a \<in> set ?rows" "a_algo_id a = 0" by (auto simp: map_eq_Cons_conv)
  have clock: "in_step 0 empty_db (?ps @ [(sample_refresh 200, ?d')])"
  proof -
    have "\<forall>b \<in> set (added_rows empty_db (sample_tables [(0, 100)])). 0 < b_time_utc b" by code_simp
    moreover have "\<forall>b \<in> set (added_rows (sample_tables [(0, 100)]) ?d'). 150 < b_time_utc b" by code_simp
    moreover have "\<forall>b \<in> set (best_rows (sample_tables [(0, 100)])). b_time_utc b \<le> 150" by code_simp
    moreover have "\<forall>b \<in> set (best_rows ?d'). b_time_utc b \<le> 200" by code_simp
    moreover have "later empty_db (sample_tables [(0, 100)])" by code_simp
    moreover have "rq_now (sample_refresh n) = n" for n by (simp add: sample_refresh_def)
    ultimately show ?thesis using sample_steps(2) by (simp add: sample_refresh_orders)
  qed
  have "fst (refresh_statistics (sample_refresh 200) ?d' (fold refresh_rows ?ps [])) = Inr ()" by code_simp
  from refreshes_are_exact [OF clock this a(1)] a have "a_money_supply a = minted_supply ?d' 0" by simp
  moreover have "minted_supply ?d' 0 = 4000000000" by code_simp
  ultimately show ?thesis using a(1) by auto
qed

theorem refreshes_keep_algorithms_witness:
  "map a_algo_id (fold refresh_rows [(sample_refresh 200, sample_tables [(0, 100), (1, 140)])]
     [stat_row_of 150 \<lparr>ai_algo_id = 7, ai_algo_name = ''KECCAK'', ai_difficulty = Fin 1, ai_hashrate = Fin 2, ai_peak_hashrate = Fin 3,
        ai_money_supply = Fin 5, ai_block_reward = Fin 1, ai_nominal_block_reward = Fin 1, ai_nssf_blocks = 0, ai_block_spacing = Fin 2\<rparr>]) = [7]"
  by (rule trans [OF conjunct1 [OF refreshes_keep_algorithms]]) (simp_all add: stat_row_of_def)

theorem ingested_block_is_later_witness:
  "\<exists>x'. insert_block_bundle no_faults 100000000 (sample_block 0) sample_txn = (Inr (), x') \<and> later empty_db (x_db x')"
proof -
  have "fst (insert_block_bundle no_faults 100000000 (sample_block 0) sample_txn) = Inr ()" by code_simp
  then obtain x' where run: "insert_block_bundle no_faults 100000000 (sample_block 0) sample_txn = (Inr (), x')" by (metis prod.collapse)
  have "\<not> x_aborted sample_txn" "x_db sample_txn = empty_db" "d_blocks empty_db = []" by code_simp+
  then show ?thesis using ingested_block_is_later [OF run] run by simp
qed

end
