(* ===== verification/Explorer_Detail.thy ===== *)
theory Explorer_Detail
  imports Explorer_Blocks
begin

text \<open>
  The block page (\<open>generator/internal/db/blockdetail.go\<close>): the lookup by height, hash or transaction id, and
  the assembly of a block with its transactions, inputs and outputs from the tables of the indexer. Every query
  of a call has a number; it may fail or lose its connection after some rows, and the code ignores most of
  these errors, which the model follows.
\<close>

section \<open>Data\<close>

record TxInputDetail =
  ti_prev_txid :: "string option"
  ti_prev_vout :: "int option"
  ti_prev_addr :: "string option"
  ti_prev_val :: int
  ti_prev_val_btm :: f64
  ti_is_coinbase :: bool
  ti_coinbase_hex :: "string option"

record TxOutputDetail =
  to_vout :: int
  to_val :: int
  to_val_btm :: f64
  to_script_type :: "string option"
  to_address :: "string option"

record TxDetail =
  td_txid :: string
  td_is_coinbase :: bool
  td_total_out :: int
  td_total_out_btm :: f64
  td_inputs :: "TxInputDetail list"
  td_outputs :: "TxOutputDetail list"

record BlockDetail =
  bd_height :: int
  bd_hash :: string
  bd_prev_hash :: "string option"
  bd_next_hash :: "string option"
  bd_merkle_root :: "string option"
  bd_time_utc :: int
  bd_time_unix :: int
  bd_version :: int
  bd_core_version :: "string option"
  bd_bits :: "string option"
  bd_nonce :: int
  bd_size_bytes :: "int option"
  bd_weight :: "int option"
  bd_difficulty :: f64
  bd_chainwork :: "string option"
  bd_tx_count :: int
  bd_total_out :: int
  bd_total_out_btm :: f64
  bd_algo_id :: "int option"
  bd_algo_name :: "string option"
  bd_auxpow :: bool
  bd_auxpow_sign :: "string option"
  bd_confirmations :: int
  bd_pow_hash :: string
  bd_parent_block_hash :: string
  bd_parent_block_pow_hash :: string
  bd_parent_block_prev_hash :: string
  bd_txs :: "TxDetail list"

record detail_env =
  de_fault :: "nat \<Rightarrow> string option"
  de_rows :: "nat \<Rightarrow> nat option"
  de_order :: "block_row list \<Rightarrow> block_row list"

section \<open>Queries\<close>

definition trim_ptr :: "string option \<Rightarrow> string option" where
  "trim_ptr s = map_option trim_space s"

text \<open>\<open>QueryRow\<close> takes the first row there is; the error of \<open>Scan\<close> on a NULL difficulty is one of the query.\<close>

definition first_block :: "detail_env \<Rightarrow> (block_row \<Rightarrow> bool) \<Rightarrow> db \<Rightarrow> block_row option" where
  "first_block env p d =
     (case de_order env (filter (\<lambda>r. p r \<and> b_in_best_chain r) (d_blocks d)) of [] \<Rightarrow> None | r # _ \<Rightarrow> Some r)"

definition input_detail_of :: "input_row \<Rightarrow> TxInputDetail" where
  "input_detail_of i =
     (let val = (case i_prev_value i of None \<Rightarrow> 0 | Some v \<Rightarrow> v)
      in \<lparr>ti_prev_txid = trim_ptr (i_prev_txid i), ti_prev_vout = i_prev_vout i, ti_prev_addr = i_prev_address i,
          ti_prev_val = val, ti_prev_val_btm = btm val, ti_is_coinbase = i_is_coinbase i,
          ti_coinbase_hex = i_coinbase_hex i\<rparr>)"

definition output_detail_of :: "output_row \<Rightarrow> TxOutputDetail" where
  "output_detail_of r =
     \<lparr>to_vout = o_vout r, to_val = o_value r, to_val_btm = btm (o_value r), to_script_type = o_script_type r,
      to_address = o_address r\<rparr>"

definition tx_inputs_query :: "detail_env \<Rightarrow> nat \<Rightarrow> string \<Rightarrow> db \<Rightarrow> TxInputDetail list result" where
  "tx_inputs_query env k txid d =
     (case de_fault env k of
        Some e \<Rightarrow> Inl e
      | None \<Rightarrow> Inr (map input_detail_of (delivered (de_rows env k)
           (sort_key i_vin (filter (\<lambda>i. i_txid i = char64 txid) (d_inputs d))))))"

definition tx_outputs_query :: "detail_env \<Rightarrow> nat \<Rightarrow> string \<Rightarrow> db \<Rightarrow> TxOutputDetail list result" where
  "tx_outputs_query env k txid d =
     (case de_fault env k of
        Some e \<Rightarrow> Inl e
      | None \<Rightarrow> Inr (map output_detail_of (delivered (de_rows env k)
           (sort_key o_vout (filter (\<lambda>r. o_txid r = char64 txid) (d_outputs d))))))"

text \<open>\<open>b.Txs[i].Inputs, _ = d.txInputs(...)\<close>: on an error the slice is nil.\<close>

definition or_empty :: "'a list result \<Rightarrow> 'a list" where
  "or_empty r = (case r of Inl _ \<Rightarrow> [] | Inr xs \<Rightarrow> xs)"

definition tx_detail_of :: "tx_row \<Rightarrow> TxDetail" where
  "tx_detail_of t =
     \<lparr>td_txid = trim_space (t_txid t), td_is_coinbase = t_is_coinbase t, td_total_out = t_total_out t,
      td_total_out_btm = btm (t_total_out t), td_inputs = [], td_outputs = []\<rparr>"

fun fill_txs :: "detail_env \<Rightarrow> nat \<Rightarrow> db \<Rightarrow> TxDetail list \<Rightarrow> TxDetail list" where
  "fill_txs env k d [] = []"
| "fill_txs env k d (t # ts) =
     t\<lparr>td_inputs := or_empty (tx_inputs_query env k (td_txid t) d),
       td_outputs := or_empty (tx_outputs_query env (Suc k) (td_txid t) d)\<rparr> # fill_txs env (Suc (Suc k)) d ts"

definition block_txs_query :: "detail_env \<Rightarrow> nat \<Rightarrow> string \<Rightarrow> db \<Rightarrow> TxDetail list" where
  "block_txs_query env k hash d =
     (case de_fault env k of
        Some e \<Rightarrow> []
      | None \<Rightarrow> map tx_detail_of (delivered (de_rows env k)
           (sort_key t_position (filter (\<lambda>t. t_block_hash t = char64 hash) (d_txs d)))))"

definition block_detail_of :: "block_row \<Rightarrow> f64 \<Rightarrow> BlockDetail" where
  "block_detail_of r diff =
     \<lparr>bd_height = b_height r, bd_hash = trim_space (b_hash r), bd_prev_hash = trim_ptr (b_prev_hash r),
      bd_next_hash = None, bd_merkle_root = trim_ptr (b_merkle_root r), bd_time_utc = b_time_utc r,
      bd_time_unix = b_time_unix r, bd_version = b_version r, bd_core_version = b_coreversion r,
      bd_bits = b_bits r, bd_nonce = b_nonce r, bd_size_bytes = Some (b_size_bytes r),
      bd_weight = Some (b_weight r), bd_difficulty = diff, bd_chainwork = b_chainwork r,
      bd_tx_count = b_tx_count r, bd_total_out = b_total_out r, bd_total_out_btm = btm (b_total_out r),
      bd_algo_id = Some (b_algo_id r), bd_algo_name = Some (b_algo_name r), bd_auxpow = b_auxpow r,
      bd_auxpow_sign = b_auxpow_sign r, bd_confirmations = 0, bd_pow_hash = [],
      bd_parent_block_hash = [], bd_parent_block_pow_hash = [], bd_parent_block_prev_hash = [], bd_txs = []\<rparr>"

section \<open>loadBlock\<close>

text \<open>\<open>load_block env k p d\<close> starts with query number \<open>k\<close>; \<open>None\<close> is a block that does not exist.\<close>

definition load_block :: "detail_env \<Rightarrow> nat \<Rightarrow> (block_row \<Rightarrow> bool) \<Rightarrow> db \<Rightarrow> BlockDetail option result" where
  "load_block env k p d =
     (case de_fault env k of
        Some e \<Rightarrow> Inl e
      | None \<Rightarrow>
          (case first_block env p d of
             None \<Rightarrow> Inr None
           | Some r \<Rightarrow>
               (case b_difficulty r of
                  None \<Rightarrow> Inl err_null
                | Some diff \<Rightarrow>
                    (let b = block_detail_of r diff;
                         b1 = (case de_fault env (k + 1) of
                                 Some _ \<Rightarrow> b
                               | None \<Rightarrow>
                                   (case first_block env (\<lambda>c. b_height c = wrap64 (bd_height b + 1)) d of
                                      None \<Rightarrow> b
                                    | Some c \<Rightarrow> b\<lparr>bd_next_hash := Some (trim_space (b_hash c))\<rparr>));
                         b2 = (case de_fault env (k + 2) of
                                 Some _ \<Rightarrow> b1
                               | None \<Rightarrow> b1\<lparr>bd_confirmations := wrap64 (wrap64 (max_height d - bd_height b) + 1)\<rparr>)
                     in Inr (Some (b2\<lparr>bd_txs := fill_txs env (k + 4) d (block_txs_query env (k + 3) (bd_hash b) d)\<rparr>))))))"

definition block_by_hash :: "detail_env \<Rightarrow> nat \<Rightarrow> string \<Rightarrow> db \<Rightarrow> BlockDetail option result" where
  "block_by_hash env k hash d = load_block env k (\<lambda>r. b_hash r = char64 hash) d"

text \<open>The column is a 32-bit integer, so pgx refuses to encode a height outside of it.\<close>

definition err_int4 :: string where
  "err_int4 = ''failed to encode args[0]: unable to encode into binary format for int4: out of range''"

definition block_by_height :: "detail_env \<Rightarrow> nat \<Rightarrow> int \<Rightarrow> db \<Rightarrow> BlockDetail option result" where
  "block_by_height env k height d =
     (if height < - (2 ^ 31) \<or> 2 ^ 31 \<le> height then Inl err_int4
      else load_block env k (\<lambda>r. b_height r = height) d)"

text \<open>Every error of the lookup, not only a missing row, is taken for not found.\<close>

definition block_by_txid :: "detail_env \<Rightarrow> nat \<Rightarrow> string \<Rightarrow> db \<Rightarrow> BlockDetail option result" where
  "block_by_txid env k txid d =
     (case de_fault env k of
        Some _ \<Rightarrow> Inr None
      | None \<Rightarrow>
          (case select_one (\<lambda>t. t_txid t = char64 txid) (d_txs d) of
             None \<Rightarrow> Inr None
           | Some t \<Rightarrow> block_by_hash env (k + 1) (trim_space (t_block_hash t)) d))"

definition block_by_query :: "detail_env \<Rightarrow> string \<Rightarrow> db \<Rightarrow> BlockDetail option result" where
  "block_by_query env q0 d =
     (let q = trim_space q0
      in if q = '''' then Inr None
         else case parse_int64 q of
           Some height \<Rightarrow> block_by_height env 0 height d
         | None \<Rightarrow>
             if length q = 64 then
               (case block_by_hash env 0 q d of
                  Inl e \<Rightarrow> Inl e
                | Inr (Some b) \<Rightarrow> Inr (Some b)
                | Inr None \<Rightarrow> block_by_txid env 1 q d)
             else Inr None)"

section \<open>With a database that answers\<close>

definition complete :: "detail_env \<Rightarrow> bool" where
  "complete env \<longleftrightarrow> (\<forall>k. de_fault env k = None \<and> de_rows env k = None) \<and> (\<forall>xs. mset (de_order env xs) = mset xs)"

definition full_id :: "string \<Rightarrow> bool" where
  "full_id s \<longleftrightarrow> length s = 64 \<and> trim_space s = s \<and> parse_int64 s = None"

lemma full_idD: "full_id s \<Longrightarrow> char64 s = s" "full_id s \<Longrightarrow> trim_space s = s" "full_id s \<Longrightarrow> s \<noteq> []"
  by (auto simp: full_id_def char64_def)

lemma fill_txs_start: "complete env \<Longrightarrow> fill_txs env k d ts = fill_txs env 0 d ts"
proof (induction ts arbitrary: k)
  case (Cons t ts)
  have "fill_txs env (Suc (Suc k)) d ts = fill_txs env 0 d ts" "fill_txs env (Suc (Suc 0)) d ts = fill_txs env 0 d ts"
    by (rule Cons.IH [OF Cons.prems])+
  then show ?case using Cons.prems by (simp add: complete_def tx_inputs_query_def tx_outputs_query_def)
qed simp

lemma fill_txs_txids: "map td_txid (fill_txs env k d ts) = map td_txid ts"
  by (induction env k d ts rule: fill_txs.induct) simp_all

text \<open>The numbers of the queries do not matter then.\<close>

lemma load_block_start: "complete env \<Longrightarrow> load_block env k p d = load_block env 0 p d"
  by (simp add: load_block_def complete_def block_txs_query_def Let_def fill_txs_start [unfolded complete_def, of env "k + 4"]
      fill_txs_start [unfolded complete_def, of env 4] split: option.split)

lemma first_block_unique:
  assumes "complete env" and "r \<in> set (best_rows d)" and "p r"
    and "\<And>c. c \<in> set (best_rows d) \<Longrightarrow> p c \<Longrightarrow> c = r" and "distinct (d_blocks d)"
  shows "first_block env p d = Some r"
proof -
  define xs where "xs = filter (\<lambda>c. p c \<and> b_in_best_chain c) (d_blocks d)"
  have "set xs = {c \<in> set (best_rows d). p c}" by (auto simp: best_rows_def xs_def)
  then have xs: "set xs = {r}" using assms(2-4) by blast
  have dist: "distinct xs" using assms(5) by (simp add: xs_def)
  have "length xs = 1" using distinct_card [OF dist] unfolding xs by simp
  then obtain a where "xs = [a]" by (cases xs) simp_all
  then have "xs = [r]" using xs by simp
  then have "mset (de_order env xs) = {#r#}" using assms(1) by (simp add: complete_def)
  then show ?thesis by (simp add: first_block_def xs_def)
qed

lemma load_block_eq:
  assumes "first_block env p d = first_block env p' d"
  shows "load_block env k p d = load_block env k p' d"
  unfolding load_block_def assms ..

section \<open>Three ways to one page\<close>

lemma trim_itoa: "0 \<le> n \<Longrightarrow> trim_space (itoa n) = itoa n"
proof -
  assume "0 \<le> n"
  then have "set (itoa n) \<subseteq> set ''0123456789''" "itoa n \<noteq> []"
    using dec_digits_set [of n] by (simp_all add: itoa_def)
  moreover have "graphic c" if "c \<in> set ''0123456789''" for c using that by (auto simp: graphic_def)
  ultimately have "graphic (hd (itoa n))" "graphic (last (itoa n))"
    using hd_in_set [of "itoa n"] last_in_set [of "itoa n"] by blast+
  with \<open>itoa n \<noteq> []\<close> show ?thesis by (rule trim_space_graphic)
qed

lemma itoa_nonempty: "itoa n \<noteq> []"
  by (simp add: itoa_def)

lemma first_block_none:
  assumes "complete env" and "\<And>c. c \<in> set (best_rows d) \<Longrightarrow> \<not> p c"
  shows "first_block env p d = None"
proof -
  have "filter (\<lambda>c. p c \<and> b_in_best_chain c) (d_blocks d) = []"
    using assms(2) by (auto simp: best_rows_def filter_empty_conv)
  moreover have "de_order env [] = []" using assms(1) unfolding complete_def by (metis mset_zero_iff)
  ultimately show ?thesis by (simp add: first_block_def)
qed

lemma load_block_found:
  assumes "complete env" and "first_block env p d = Some r" and "b_difficulty r = Some diff" and "full_id (b_hash r)"
  shows "\<exists>b. load_block env 0 p d = Inr (Some b) \<and> bd_hash b = b_hash r \<and> bd_height b = b_height r \<and>
     map td_txid (bd_txs b) = map (\<lambda>t. trim_space (t_txid t)) (sort_key t_position (filter (\<lambda>t. t_block_hash t = b_hash r) (d_txs d)))"
  using assms(2-3)
  by (simp add: load_block_def Let_def fill_txs_txids block_txs_query_def delivered_def block_detail_of_def tx_detail_of_def
      comp_def full_idD [OF assms(4)] assms(1) [unfolded complete_def] split: option.split)

lemma find_unique_key:
  assumes "distinct (map key xs)" and "x \<in> set xs"
  shows "find (\<lambda>y. key y = key x) xs = Some x"
  using assms by (induction xs) force+

lemma block_by_hash_at:
  assumes "complete env" and "wf_keys d" and "r \<in> set (best_rows d)" and "full_id (b_hash r)"
  shows "first_block env (\<lambda>c. b_hash c = char64 (b_hash r)) d = Some r"
proof (rule first_block_unique [OF assms(1,3)])
  have dist: "distinct (map b_hash (d_blocks d))" using assms(2) by (simp add: wf_keys_def)
  then show "distinct (d_blocks d)" by (simp add: distinct_map)
  show "b_hash r = char64 (b_hash r)" using full_idD(1) [OF assms(4)] by simp
  fix c assume "c \<in> set (best_rows d)" "b_hash c = char64 (b_hash r)"
  then show "c = r" using dist assms(3) full_idD(1) [OF assms(4)]
    by (auto simp: best_rows_def distinct_map inj_on_def)
qed

lemma block_by_height_at:
  assumes "complete env" and "wf_keys d" and "r \<in> set (best_rows d)" and "distinct (map b_height (best_rows d))"
  shows "first_block env (\<lambda>c. b_height c = b_height r) d = Some r"
proof (rule first_block_unique [OF assms(1,3)])
  show "distinct (d_blocks d)" using assms(2) by (simp add: wf_keys_def distinct_map)
  fix c assume "c \<in> set (best_rows d)" "b_height c = b_height r"
  then show "c = r" using assms(3,4) by (auto simp: distinct_map inj_on_def)
qed simp

text \<open>C19: a block of the best chain has one page: its height, its hash and the id of any of its transactions,
  typed into the search box, give the same result, the page of that block with that transaction on it.\<close>

theorem block_lookups_agree:
  assumes "complete env" and "wf_keys d" and "distinct (map b_height (best_rows d))"
    and "r \<in> set (best_rows d)" and "0 \<le> b_height r" and "b_height r < 2 ^ 31"
    and "full_id (b_hash r)" and "b_difficulty r = Some diff"
    and "t \<in> set (d_txs d)" and "t_block_hash t = b_hash r" and "full_id (t_txid t)"
    and "\<And>c. c \<in> set (best_rows d) \<Longrightarrow> b_hash c \<noteq> t_txid t"
  shows "\<exists>b. block_by_query env (b_hash r) d = Inr (Some b) \<and>
     block_by_query env (itoa (b_height r)) d = Inr (Some b) \<and>
     block_by_query env (t_txid t) d = Inr (Some b) \<and>
     bd_hash b = b_hash r \<and> bd_height b = b_height r \<and> t_txid t \<in> td_txid ` set (bd_txs b)"
proof -
  note hash = full_idD [OF assms(7)] and txid = full_idD [OF assms(11)]
  note by_hash = block_by_hash_at [OF assms(1,2,4,7)]
  obtain b where b: "load_block env 0 (\<lambda>c. b_hash c = char64 (b_hash r)) d = Inr (Some b)"
    and facts: "bd_hash b = b_hash r" "bd_height b = b_height r"
      "map td_txid (bd_txs b) = map (\<lambda>t. trim_space (t_txid t)) (sort_key t_position (filter (\<lambda>t. t_block_hash t = b_hash r) (d_txs d)))"
    using load_block_found [OF assms(1) by_hash assms(8,7)] by blast
  have q1: "block_by_query env (b_hash r) d = Inr (Some b)"
    using assms(7) b hash by (simp add: block_by_query_def block_by_hash_def full_id_def)
  have "load_block env 0 (\<lambda>c. b_height c = b_height r) d = Inr (Some b)"
    using b load_block_eq [of env _ d _ 0] by_hash block_by_height_at [OF assms(1,2,4,3)] by metis
  then have q2: "block_by_query env (itoa (b_height r)) d = Inr (Some b)"
    using assms(5,6) trim_itoa [OF assms(5)] itoa_nonempty
    by (simp add: block_by_query_def block_by_height_def parse_int64_itoa in64_def)
  have "first_block env (\<lambda>c. b_hash c = char64 (t_txid t)) d = None"
    using first_block_none [OF assms(1)] assms(12) txid(1) by simp
  then have "block_by_hash env 0 (t_txid t) d = Inr None"
    using assms(1) by (simp add: block_by_hash_def load_block_def complete_def)
  moreover have "find (\<lambda>y. t_txid y = t_txid t) (d_txs d) = Some t"
    using find_unique_key [of t_txid, OF _ assms(9)] assms(2) by (simp add: wf_keys_def)
  ultimately have q3: "block_by_query env (t_txid t) d = Inr (Some b)"
    using assms(11) txid(1,3) hash(2) b assms(1,10) load_block_start [OF assms(1), of "Suc (Suc 0)"]
    by (simp add: block_by_query_def block_by_txid_def block_by_hash_def full_id_def select_one_def complete_def)
  have "t_txid t \<in> set (map td_txid (bd_txs b))" unfolding facts(3) using assms(9,10) txid(2) by force
  then show ?thesis using q1 q2 q3 facts(1,2) by auto
qed

text \<open>A height the column cannot hold is an error of the server, not a block that is not found: the
  query is refused before it reaches the table, whatever the table holds.\<close>

theorem height_out_of_range_is_an_error:
  assumes "in64 h" and "2 ^ 31 \<le> h"
  shows "block_by_query env (itoa h) d = Inl err_int4"
proof -
  have "0 \<le> h" using order_trans [OF _ assms(2), of 0] by simp
  then show ?thesis using assms trim_itoa [of h] itoa_nonempty [of h]
    by (simp add: block_by_query_def block_by_height_def parse_int64_itoa)
qed

section \<open>Witnesses\<close>

definition page_hash :: string where
  "page_hash = replicate 63 (CHR ''0'') @ ''b''"

definition page_txid :: string where
  "page_txid = replicate 63 (CHR ''0'') @ ''c''"

definition page_env :: detail_env where
  "page_env = \<lparr>de_fault = (\<lambda>k. None), de_rows = (\<lambda>k. None), de_order = id\<rparr>"

definition page_block :: block_row where
  "page_block = (block_row_of 100000000 (sample_block 0))\<lparr>b_hash := page_hash\<rparr>"

definition page_tx :: tx_row where
  "page_tx = \<lparr>t_txid = page_txid, t_block_hash = page_hash, t_block_height = 0, t_position = 0, t_version = Some 1,
     t_locktime = Some 0, t_size_bytes = Some 200, t_vsize = Some 200, t_weight = Some 800, t_is_coinbase = True,
     t_total_in = 0, t_total_out = 2000000000, t_fee = 0\<rparr>"

definition page_db :: db where
  "page_db = empty_db\<lparr>d_blocks := [page_block], d_txs := [page_tx]\<rparr>"

lemma page_ids: "full_id page_hash" "full_id page_txid" "page_hash \<noteq> page_txid"
  by code_simp+

lemma page_rows:
  "best_rows page_db = [page_block]" "wf_keys page_db" "b_hash page_block = page_hash" "b_height page_block = 0"
  by (simp_all add: page_db_def best_rows_def wf_keys_def empty_db_def page_block_def block_row_of_def sample_block_def Let_def)

theorem block_lookups_agree_witness:
  "\<exists>b. block_by_query page_env page_hash page_db = Inr (Some b) \<and>
     block_by_query page_env (itoa 0) page_db = Inr (Some b) \<and>
     block_by_query page_env page_txid page_db = Inr (Some b) \<and>
     bd_hash b = page_hash \<and> bd_height b = 0 \<and> page_txid \<in> td_txid ` set (bd_txs b)"
proof -
  have "complete page_env" by (simp add: complete_def page_env_def)
  moreover have "b_difficulty page_block \<noteq> None" by code_simp
  then have "b_difficulty page_block = Some (the (b_difficulty page_block))" by simp
  moreover have "page_tx \<in> set (d_txs page_db)" by (simp add: page_db_def)
  moreover have "t_block_hash page_tx = b_hash page_block" "t_txid page_tx = page_txid"
    by (simp_all add: page_tx_def page_rows)
  ultimately show ?thesis
    using block_lookups_agree [of page_env page_db page_block "the (b_difficulty page_block)" page_tx] page_rows page_ids
    by simp
qed

theorem height_out_of_range_is_an_error_witness:
  "block_by_query page_env (itoa 99999999999) page_db = Inl err_int4"
  using height_out_of_range_is_an_error [of 99999999999 page_env page_db] by (simp add: in64_def)

end
