(* ===== verification/Hp_Status.thy ===== *)
theory Hp_Status
  imports Go_Clock Explorer_Blocks Ingest_Range
begin

text \<open>
  The node and sync status of the generator (\<open>generator/cmd/bitmark-hp-gen/main.go\<close>): the circuit breaker
  \<open>rpcBreaker\<close> around the node RPC, with its schedule as a second instance of the contract \<open>backoff\<close>, the
  status lines and the sync banner. Instants are nanoseconds, block times Unix seconds; strings are bytes
  (\<open>middot\<close> is the two-byte centre dot of the source).
\<close>

section \<open>The circuit breaker\<close>

record rpcBreaker =
  br_failures :: nat
  br_next_try :: "int option"
  br_last_err :: string

definition new_breaker :: rpcBreaker where
  "new_breaker = \<lparr>br_failures = 0, br_next_try = None, br_last_err = ''''\<rparr>"

text \<open>Seconds; the index of the code is the number of failures, so the first entry is never used.\<close>

definition rpc_backoff_delays :: "int list" where
  "rpc_backoff_delays = [0, 5, 15, 30, 60, 120, 300, 600]"

definition breaker_delay :: "nat \<Rightarrow> int" where
  "breaker_delay failures =
     rpc_backoff_delays ! (if length rpc_backoff_delays \<le> failures then length rpc_backoff_delays - 1 else failures)"

interpretation breaker: backoff rpc_backoff_delays breaker_delay
  by unfold_locales (simp_all add: rpc_backoff_delays_def breaker_delay_def min_def)

text \<open>\<open>time.Until\<close> at \<open>t0\<close>; the zero time lies far in the past.\<close>

definition until_next :: "rpcBreaker \<Rightarrow> int \<Rightarrow> int" where
  "until_next b t0 = (case br_next_try b of None \<Rightarrow> - (2 ^ 63) | Some t \<Rightarrow> time_sub t t0)"

definition err_not_configured :: string where
  "err_not_configured = ''RPC not configured''"

definition shorten :: "nat \<Rightarrow> string \<Rightarrow> string" where
  "shorten n s = (if n < length s then take (n - 3) s @ ''...'' else s)"

text \<open>
  One call of \<open>query\<close> at \<open>t0\<close>; \<open>res\<close> is the answer of the node if it is asked, and \<open>t1\<close> the time after
  a failed call. The result is height, availability and message.
\<close>

definition breaker_query ::
  "bool \<Rightarrow> int \<Rightarrow> int result \<Rightarrow> int \<Rightarrow> rpcBreaker \<Rightarrow> (int \<times> bool \<times> string) \<times> rpcBreaker" where
  "breaker_query configured t0 res t1 b =
     (if \<not> configured then ((0, False, err_not_configured), b)
      else if until_next b t0 > 0 then
        ((0, False, br_last_err b @ '' (retry in '' @
            dur_string (dur_round (until_next b t0) ns_second div ns_second) @ '')''), b)
      else case res of
             Inl err \<Rightarrow>
               (let failures = Suc (br_failures b); delay = breaker_delay failures
                in ((0, False, err),
                    \<lparr>br_failures = failures,
                     br_next_try = (if delay > 0 then Some (t1 + delay * ns_second) else br_next_try b),
                     br_last_err = shorten 80 err\<rparr>))
           | Inr n \<Rightarrow> ((n, True, ''''), new_breaker))"

text \<open>A sequence of queries: the start and end times of the calls that reached the node, and the final state.\<close>

fun breaker_run :: "(int \<times> int result \<times> int) list \<Rightarrow> rpcBreaker \<Rightarrow> (int \<times> int) list \<times> rpcBreaker" where
  "breaker_run [] b = ([], b)"
| "breaker_run ((t0, res, t1) # evs) b =
     (let (_, b') = breaker_query True t0 res t1 b;
          (calls, b'') = breaker_run evs b'
      in (if until_next b t0 > 0 then calls else (t0, t1) # calls, b''))"

section \<open>Status lines\<close>

definition middot :: string where
  "middot = [CHR 0xC2, CHR 0xB7]"

definition build_node_str :: "bool \<Rightarrow> int \<Rightarrow> string \<Rightarrow> string" where
  "build_node_str avail height errMsg =
     (if avail then ''Node: OK '' @ middot @ '' height '' @ itoa height
      else if errMsg = '''' \<or> errMsg = err_not_configured then ''Node: '' @ errMsg
      else ''Node: ERR '' @ middot @ '' '' @ shorten 55 errMsg)"

definition plural :: "int \<Rightarrow> string \<Rightarrow> string" where
  "plural n unit = (if n = 1 then ''1 '' @ unit else itoa n @ '' '' @ unit @ ''s'')"

definition fmt_age :: "int \<Rightarrow> string" where
  "fmt_age d0 =
     (let d = dur_round d0 ns_second
      in if d < ns_minute then plural (i64_of_f (dur_seconds d)) ''second''
         else if d < ns_hour then plural (i64_of_f (dur_minutes d)) ''minute''
         else (let h = i64_of_f (dur_hours d); m = i64_of_f (dur_minutes d) smod 60
               in if m = 0 then plural h ''hour'' else itoa h @ ''h '' @ itoa m @ ''m''))"

definition block_instant :: "Block \<Rightarrow> int" where
  "block_instant b = bk_time b * ns_second"

definition build_tip_str :: "int \<Rightarrow> Block list \<Rightarrow> string" where
  "build_tip_str now blocks =
     (case blocks of
        [] \<Rightarrow> ''DB tip: no blocks indexed''
      | b # _ \<Rightarrow>
          (let tipAge = time_sub now (block_instant b)
           in if tipAge < ns_minute then ''DB tip: '' @ itoa (bk_height b) @ '' '' @ middot @ '' synced''
              else ''DB tip: '' @ itoa (bk_height b) @ '' '' @ middot @ '' '' @ fmt_age tipAge @ '' ago''))"

section \<open>The sync banner\<close>

record SyncInfo =
  si_catching :: bool
  si_lag :: int
  si_node_available :: bool
  si_tip_time_str :: string
  si_tip_age_str :: string
  si_eta_str :: string

definition no_sync_info :: SyncInfo where
  "no_sync_info = \<lparr>si_catching = False, si_lag = 0, si_node_available = False, si_tip_time_str = '''',
     si_tip_age_str = '''', si_eta_str = ''''\<rparr>"

text \<open>\<open>time.Duration(float64(lag)/ingestRate) * time.Second\<close>, a product that may wrap.\<close>

definition eta_str :: "int \<Rightarrow> f64 \<Rightarrow> string" where
  "eta_str lag rate =
     (if rate > 0 \<and> lag > 0 then
        (let eta = wrap64 (i64_of_f (f_of_int lag / rate) * ns_second)
         in if eta < 10 * ns_second then ''moments'' else ''~'' @ fmt_age eta)
      else '''')"

definition build_sync_info :: "int \<Rightarrow> Block list \<Rightarrow> int \<Rightarrow> bool \<Rightarrow> f64 \<Rightarrow> SyncInfo" where
  "build_sync_info now blocks nodeHeight nodeAvail ingestRate =
     (case blocks of
        [] \<Rightarrow> no_sync_info
      | b # _ \<Rightarrow>
          (let tipAge = time_sub now (block_instant b);
               known = nodeAvail \<and> nodeHeight > 0;
               lag = (if known then wrap64 (nodeHeight - bk_height b) else 0);
               catching = (if known then lag > 5 else tipAge > 3 * ns_minute)
           in if \<not> catching then no_sync_info
              else \<lparr>si_catching = True, si_lag = lag, si_node_available = nodeAvail,
                    si_tip_time_str = format_minute (bk_time b), si_tip_age_str = fmt_age tipAge,
                    si_eta_str = eta_str lag ingestRate\<rparr>))"

section \<open>The breaker over time\<close>

lemma breaker_delay_pos: "0 < breaker_delay (Suc k)"
  using breaker.delay_mono [of 1 "Suc k"] by (simp add: breaker_delay_def rpc_backoff_delays_def)

lemma breaker_delay_max: "breaker_delay k \<le> 600"
  using breaker.delay_le_last [of k] by (simp add: rpc_backoff_delays_def)

lemma until_reached: "until_next b t0 \<le> 0 \<Longrightarrow> br_next_try b = Some t \<Longrightarrow> t \<le> t0"
  by (simp add: until_next_def time_sub_def)

lemma until_passed: "(\<And>t. br_next_try b = Some t \<Longrightarrow> t \<le> t0) \<Longrightarrow> until_next b t0 \<le> 0"
  by (auto simp: until_next_def time_sub_def split: option.splits)

lemma query_failed:
  "until_next b t0 \<le> 0 \<Longrightarrow> snd (breaker_query True t0 (Inl err) t1 b) =
     \<lparr>br_failures = Suc (br_failures b), br_next_try = Some (t1 + breaker_delay (Suc (br_failures b)) * ns_second),
      br_last_err = shorten 80 err\<rparr>"
  using breaker_delay_pos [of "br_failures b"] by (simp add: breaker_query_def Let_def)

lemma query_skipped: "until_next b t0 > 0 \<Longrightarrow> snd (breaker_query True t0 res t1 b) = b"
  by (simp add: breaker_query_def)

lemma breaker_run_Cons:
  "breaker_run ((t0, res, t1) # evs) b =
     (let b' = snd (breaker_query True t0 res t1 b)
      in (if until_next b t0 > 0 then fst (breaker_run evs b') else (t0, t1) # fst (breaker_run evs b'),
          snd (breaker_run evs b')))"
  by (simp add: Let_def split: prod.split)

declare breaker_run.simps(2) [simp del]

text \<open>While the node keeps failing, a call waits for the delay of the failures before it.\<close>

lemma failing_calls_spaced:
  assumes "\<forall>(t0, res, t1) \<in> set evs. \<not> is_ok res" and "fst (breaker_run evs b) = calls"
  shows "(calls \<noteq> [] \<longrightarrow> (\<forall>t. br_next_try b = Some t \<longrightarrow> t \<le> fst (hd calls))) \<and>
     (\<forall>i. Suc i < length calls \<longrightarrow>
        snd (calls ! i) + breaker_delay (Suc (br_failures b + i)) * ns_second \<le> fst (calls ! Suc i))"
  using assms
proof (induction evs arbitrary: b calls)
  case (Cons ev evs)
  obtain t0 res t1 where ev: "ev = (t0, res, t1)" by (cases ev)
  then obtain err where res: "res = Inl err" using Cons.prems(1) by (cases res) auto
  have rest: "\<forall>(t0, res, t1) \<in> set evs. \<not> is_ok res" using Cons.prems(1) by simp
  show ?case
  proof (cases "until_next b t0 > 0")
    case True
    then show ?thesis
      using Cons.IH [OF rest, of b calls] Cons.prems(2) by (simp add: ev breaker_run_Cons query_skipped)
  next
    case False
    let ?b = "snd (breaker_query True t0 res t1 b)"
    define later where "later = fst (breaker_run evs ?b)"
    have calls: "calls = (t0, t1) # later" using Cons.prems(2) False by (simp add: ev breaker_run_Cons later_def Let_def)
    have b: "br_failures ?b = Suc (br_failures b)"
      "br_next_try ?b = Some (t1 + breaker_delay (Suc (br_failures b)) * ns_second)"
      using query_failed [of b t0 err t1] False by (simp_all add: res)
    note IH = Cons.IH [OF rest later_def [symmetric]]
    have "snd (calls ! i) + breaker_delay (Suc (br_failures b + i)) * ns_second \<le> fst (calls ! Suc i)"
      if "Suc i < length calls" for i
    proof (cases i)
      case 0
      then show ?thesis using IH that b by (cases later) (simp_all add: calls)
    next
      case (Suc j)
      then show ?thesis using IH that b by (simp add: calls)
    qed
    moreover have "t \<le> t0" if "br_next_try b = Some t" for t using until_reached [of b t0 t] False that by simp
    ultimately show ?thesis by (simp add: calls)
  qed
qed simp

text \<open>The next attempt is never further away than the longest delay after the last call.\<close>

lemma next_try_bound:
  assumes "\<forall>(t0, res, t1) \<in> set evs. t1 \<le> T" and "\<And>t. br_next_try b = Some t \<Longrightarrow> t \<le> T + 600 * ns_second"
    and "br_next_try (snd (breaker_run evs b)) = Some t"
  shows "t \<le> T + 600 * ns_second"
  using assms
proof (induction evs arbitrary: b)
  case (Cons ev evs)
  obtain t0 res t1 where ev: "ev = (t0, res, t1)" by (cases ev)
  let ?b = "snd (breaker_query True t0 res t1 b)"
  have "u \<le> T + 600 * ns_second" if u: "br_next_try ?b = Some u" for u
  proof (cases "until_next b t0 > 0")
    case True
    then show ?thesis using u Cons.prems(2) by (simp add: query_skipped)
  next
    case False
    show ?thesis
    proof (cases res)
      case (Inl err)
      then have "u = t1 + breaker_delay (Suc (br_failures b)) * ns_second"
        using u query_failed [of b t0 err t1] False by simp
      moreover have "t1 \<le> T" using Cons.prems(1) by (simp add: ev)
      moreover have "breaker_delay (Suc (br_failures b)) * ns_second \<le> 600 * ns_second"
        using breaker_delay_max by (intro mult_right_mono) (simp_all add: ns_second_def)
      ultimately show ?thesis by simp
    qed (use u False in \<open>simp add: breaker_query_def new_breaker_def\<close>)
  qed
  then show ?case using Cons.IH [of ?b] Cons.prems(1,3) by (simp add: ev breaker_run_Cons Let_def)
qed simp

section \<open>Properties\<close>


text \<open>C38: the breaker recovers: however the queries went so far, a query at least 600 seconds after the end of
  the last failed call reaches the node again, and if the node answers, its height is returned and the
  breaker is as new.\<close>

theorem breaker_recovers:
  assumes "\<forall>(t0, res, t1) \<in> set evs. t1 \<le> T" and "T + 600 * ns_second \<le> t0"
  shows "breaker_query True t0 (Inr n) t1 (snd (breaker_run evs new_breaker)) = ((n, True, ''''), new_breaker)"
proof -
  have "until_next (snd (breaker_run evs new_breaker)) t0 \<le> 0"
    using next_try_bound [OF assms(1), of new_breaker] assms(2)
    by (intro until_passed) (fastforce simp: new_breaker_def)
  then show ?thesis by (simp add: breaker_query_def)
qed

text \<open>C36: \<open>fmtAge\<close>, which computes with floating-point minutes and hours, prints the integer parts of the age
  rounded to seconds, for every age that is not negative.\<close>

theorem fmt_age_exact:
  assumes "0 \<le> d" and "d < 2 ^ 63 - 1000000000"
  defines "s \<equiv> (d + 500000000) div 1000000000"
  shows "fmt_age d =
     (if s < 60 then plural s ''second''
      else if s < 3600 then plural (s div 60) ''minute''
      else if s div 60 mod 60 = 0 then plural (s div 3600) ''hour''
      else itoa (s div 3600) @ ''h '' @ itoa (s div 60 mod 60) @ ''m'')"
proof -
  define r where "r = s * 1000000000"
  have round: "dur_round d ns_second = r" unfolding r_def s_def by (rule dur_round_second [OF assms(1,2)])
  have s0: "0 \<le> s" using assms(1) by (simp add: s_def)
  have "s * 1000000000 \<le> d + 500000000" by (simp add: s_def minus_mod_eq_div_mult [symmetric])
  then have r: "0 \<le> r" "r < 2 ^ 63" "ns_second dvd r" using s0 assms(2) by (simp_all add: r_def ns_second_def)
  have units: "r div ns_minute = s div 60" "r div ns_hour = s div 3600" "r div ns_second = s"
    using div_mult_mult2 [of 1000000000 s 60] div_mult_mult2 [of 1000000000 s 3600]
    by (simp_all add: r_def ns_minute_def ns_hour_def ns_second_def)
  have less: "r < ns_minute \<longleftrightarrow> s < 60" "r < ns_hour \<longleftrightarrow> s < 3600" by (simp_all add: r_def ns_minute_def ns_hour_def)
  have m: "s div 60 smod 60 = s div 60 mod 60" using sdiv_smod_nonneg [of "s div 60" 60] s0 by (simp add: pos_imp_zdiv_nonneg_iff)
  show ?thesis
    unfolding fmt_age_def Let_def round less
    by (simp add: dur_seconds_trunc [OF r] dur_minutes_trunc [OF r] dur_hours_trunc [OF r] units m)
qed

text \<open>The estimate of the catch-up time multiplies seconds into nanoseconds without a check: two million blocks
  behind at one block in 6000 seconds, about 380 years, is announced as \<open>moments\<close>.\<close>

theorem eta_overflow:
  "eta_str 2000000 (f_of_int 1 / f_of_int 6000) = ''moments''"
  by code_simp

section \<open>Witnesses\<close>

definition failing_events :: "(int \<times> int result \<times> int) list" where
  "failing_events = [(0, Inl ''timeout'', 3000000000), (4000000000, Inl ''timeout'', 7000000000),
     (8000000000, Inl ''timeout'', 11000000000)]"

lemma failing_calls:
  "fst (breaker_run failing_events new_breaker) = [(0, 3000000000), (8000000000, 11000000000)]"
  "\<forall>(t0, res, t1) \<in> set failing_events. \<not> is_ok res" "\<forall>(t0, res, t1) \<in> set failing_events. t1 \<le> 11000000000"
  by code_simp+


theorem breaker_recovers_witness:
  "breaker_query True 611000000000 (Inr 7) 612000000000 (snd (breaker_run failing_events new_breaker)) = ((7, True, ''''), new_breaker)"
  by (rule breaker_recovers [OF failing_calls(3)]) (simp add: ns_second_def)

theorem fmt_age_exact_witness: "fmt_age 4320400000000 = ''1h 12m''"
proof -
  have "itoa 1 @ ''h '' @ itoa 12 @ ''m'' = ''1h 12m''" by code_simp
  then show ?thesis using fmt_age_exact [of 4320400000000] by simp
qed

end
