(* ===== verification/Hp_Render.thy ===== *)
theory Hp_Render
  imports Hp_Status
begin

text \<open>
  The page rendering of the generator (\<open>generator/internal/render\<close>): the formatting functions the templates
  call, and the write of the generated home page over a model of the file system. The templates and
  \<open>html/template\<close> are data and a library; the text they produce from the page data is a parameter.
\<close>

section \<open>Formatting functions\<close>

definition pool_url :: "string \<Rightarrow> string" where
  "pool_url algoName =
     (if algoName = ''SHA256D'' \<or> algoName = ''EQUIHASH'' then ''https://pool.chainetics.com''
      else if algoName = ''YESCRYPT'' \<or> algoName = ''ARGON2'' \<or> algoName = ''X17'' then ''https://pool.openmarks.com''
      else '''')"

text \<open>The loop that puts a comma before every byte whose distance to the end is a multiple of three.\<close>

definition commas :: "string \<Rightarrow> string" where
  "commas s = concat (map (\<lambda>(i, c). if i > 0 \<and> (length s - i) mod 3 = 0 then [CHR '','', c] else [c]) (enumerate 0 s))"

definition fmt_int :: "int \<Rightarrow> string" where
  "fmt_int n = (let s = itoa n in if length s \<le> 3 then s else commas s)"

text \<open>\<open>fmtInt\<close> of the other pages, without the early return.\<close>

definition fmt_int_loop :: "int \<Rightarrow> string" where
  "fmt_int_loop n = commas (itoa n)"

text \<open>\<open>fmtBTM\<close> and \<open>fmtF0\<close>.\<close>

definition fmt_btm :: "f64 \<Rightarrow> string" where
  "fmt_btm f = (let s = itoa (i64_of_f (f + lit (1 / 2))) in if length s \<le> 3 then s else commas s)"

text \<open>\<open>strconv.FormatFloat(f, 'f', 2, 64)\<close>: the exact value rounded to hundredths, halves to even.\<close>

definition format_f2 :: "f64 \<Rightarrow> string" where
  "format_f2 x =
     (case x of
        NaN \<Rightarrow> ''NaN''
      | Inf s \<Rightarrow> (if s then ''-Inf'' else ''+Inf'')
      | _ \<Rightarrow> (let k = round_even (\<bar>f_val x\<bar> * 100)
             in (if f_neg x then ''-'' else '''') @ itoa (k div 100) @ ''.'' @ pad_zero 2 (k mod 100)))"

definition fmt_f2 :: "f64 \<Rightarrow> string" where
  "fmt_f2 f =
     (let n = i64_of_f f;
          frac0 = f - f_of_int n;
          frac = (if frac0 < 0 then - frac0 else frac0)
      in commas (itoa n) @ drop 1 (format_f2 frac))"

definition tpl_slice :: "string \<Rightarrow> nat \<Rightarrow> nat \<Rightarrow> string" where
  "tpl_slice s i j = (if i > length s then s else drop i (take (if j > length s then length s else j) s))"

definition slice8 :: "string option \<Rightarrow> string" where
  "slice8 s = (case s of None \<Rightarrow> '''' | Some v \<Rightarrow> if length v > 8 then take 8 v else v)"

definition deref_str :: "string option \<Rightarrow> string" where
  "deref_str s = (case s of None \<Rightarrow> '''' | Some v \<Rightarrow> v)"

section \<open>The home page\<close>

record HomepageData =
  hd_generated_at :: int
  hd_blocks :: "Block list"
  hd_algo_stats :: "AlgoStat list"
  hd_global_stats :: GlobalStats
  hd_sync :: SyncInfo
  hd_page :: int
  hd_total_pages :: int
  hd_prev_page :: int
  hd_next_page :: int

text \<open>
  The template engine and the file system around one call: whether the template parses, the pieces of text
  the execution writes and whether it then fails, and the errors of \<open>Create\<close> and \<open>Rename\<close>.
\<close>

record render_io =
  ri_parse :: "string option"
  ri_pieces :: "HomepageData \<Rightarrow> string list"
  ri_execute :: "string option"
  ri_create :: "string option"
  ri_rename :: "string option"

type_synonym files = "string \<rightharpoonup> string"

text \<open>\<open>RenderHomepage\<close> writes to the response as it goes.\<close>

definition render_homepage :: "render_io \<Rightarrow> HomepageData \<Rightarrow> string \<times> string option" where
  "render_homepage io data =
     (case ri_parse io of
        Some e \<Rightarrow> ('''', Some e)
      | None \<Rightarrow> (concat (ri_pieces io data), ri_execute io))"

definition append_file :: "string \<Rightarrow> string \<Rightarrow> files \<Rightarrow> files" where
  "append_file path s fs = fs(path \<mapsto> (case fs path of None \<Rightarrow> '''' | Some old \<Rightarrow> old) @ s)"

fun write_pieces :: "string \<Rightarrow> string list \<Rightarrow> files \<Rightarrow> files list" where
  "write_pieces path [] fs = []"
| "write_pieces path (p # ps) fs = append_file path p fs # write_pieces path ps (append_file path p fs)"

definition rename_file :: "string \<Rightarrow> string \<Rightarrow> files \<Rightarrow> files" where
  "rename_file src dst fs = (fs(dst := fs src))(src := None)"

text \<open>
  \<open>GenerateHomepage\<close>: its error and the states the file system goes through, each of which another process
  can see, the last one being the state it leaves.
\<close>

definition generate_homepage :: "render_io \<Rightarrow> string \<Rightarrow> HomepageData \<Rightarrow> files \<Rightarrow> string option \<times> files list" where
  "generate_homepage io outputPath data fs =
     (case ri_parse io of
        Some e \<Rightarrow> (Some e, [fs])
      | None \<Rightarrow>
          (let tmp = outputPath @ ''.tmp''
           in case ri_create io of
                Some e \<Rightarrow> (Some e, [fs])
              | None \<Rightarrow>
                  (let fs1 = fs(tmp \<mapsto> ''''); steps = fs # fs1 # write_pieces tmp (ri_pieces io data) fs1
                   in case ri_execute io of
                        Some e \<Rightarrow> (Some e, steps)
                      | None \<Rightarrow>
                          (case ri_rename io of
                             Some e \<Rightarrow> (Some e, steps)
                           | None \<Rightarrow> (None, steps @ [rename_file tmp outputPath (last steps)])))))"

definition page_text :: "render_io \<Rightarrow> HomepageData \<Rightarrow> string" where
  "page_text io data = concat (ri_pieces io data)"

section \<open>Digits in groups of three\<close>

lemma le_div_iff_int: "0 < b \<Longrightarrow> a \<le> n div b \<longleftrightarrow> a * b \<le> n" for n :: int
proof
  assume b: "0 < b"
  have "n = n div b * b + n mod b" "0 \<le> n mod b" using b by simp_all
  then show "a * b \<le> n" if "a \<le> n div b"
    using mult_right_mono [OF that less_imp_le [OF b]] by linarith
  show "a \<le> n div b" if "a * b \<le> n" using zdiv_mono1 [OF that b] b by simp
qed

lemma div_less_iff_int: "0 < b \<Longrightarrow> n div b < a \<longleftrightarrow> n < a * b" for n :: int
  using le_div_iff_int [of b a n] by (simp add: not_le [symmetric])

lemma itoa_nonneg: "0 \<le> n \<Longrightarrow> itoa n = dec_digits n"
  by (simp add: itoa_def)

lemma commas_append3:
  assumes "s \<noteq> []" and "length t = 3"
  shows "commas (s @ t) = commas s @ '','' @ t"
proof -
  let ?f = "\<lambda>n (i, c). if i > 0 \<and> (n - i) mod 3 = 0 then [CHR '','', c] else [c]"
  obtain a b c where t: "t = [a, b, c]"
    using assms(2) by (auto simp: length_Suc_conv numeral_3_eq_3)
  have "map (?f (length s + 3)) (enumerate 0 s) = map (?f (length s)) (enumerate 0 s)"
  proof (rule map_cong [OF refl])
    fix x assume "x \<in> set (enumerate 0 s)"
    then have "fst x < length s" by (simp add: in_set_enumerate_eq)
    then have "length s + 3 - fst x = length s - fst x + 3" by simp
    then have "(length s + 3 - fst x) mod 3 = (length s - fst x) mod 3" by (simp only: mod_add_self2)
    then show "?f (length s + 3) x = ?f (length s) x" unfolding case_prod_beta by (simp only:)
  qed
  moreover have "concat (map (?f (length s + 3)) (enumerate (length s) t)) = '','' @ t"
    using assms(1) by (simp add: t)
  ultimately show ?thesis
    by (simp only: commas_def length_append assms(2) enumerate_append_eq map_append concat_append add_0)
qed

lemma commas_short: "length s \<le> 3 \<Longrightarrow> commas s = s"
proof -
  assume "length s \<le> 3"
  then have "map (\<lambda>(i, c). if i > 0 \<and> (length s - i) mod 3 = 0 then [CHR '','', c] else [c]) (enumerate 0 s) = map (\<lambda>(i, c). [c]) (enumerate 0 s)"
  proof (intro map_cong [OF refl])
    fix x assume "x \<in> set (enumerate 0 s)"
    then have "fst x < length s" by (simp add: in_set_enumerate_eq)
    then have "0 < fst x \<longrightarrow> (length s - fst x) mod 3 \<noteq> 0" using \<open>length s \<le> 3\<close> by simp
    then show "(case x of (i, c) \<Rightarrow> if i > 0 \<and> (length s - i) mod 3 = 0 then [CHR '','', c] else [c]) = (case x of (i, c) \<Rightarrow> [c])"
      by (cases x) auto
  qed
  then have "commas s = concat (map (\<lambda>(i, c). [c]) (enumerate 0 s))" by (simp only: commas_def)
  also have "\<dots> = s" by (simp add: case_prod_beta' concat_map_singleton)
  finally show ?thesis .
qed

text \<open>The reference: thousands groups of the number itself.\<close>

fun grouped :: "int \<Rightarrow> string" where
  "grouped n = (if n < 1000 then dec_digits n else grouped (n div 1000) @ '','' @ pad_zero 3 (n mod 1000))"

declare grouped.simps [simp del]

lemma dec_digits_pad:
  assumes "0 \<le> n" and "n < 1000"
  shows "pad_zero 3 n = [digit_char (n div 100), digit_char (n div 10 mod 10), digit_char (n mod 10)]"
proof -
  have step: "dec_digits k = dec_digits (k div 10) @ [digit_char (k mod 10)]" if "10 \<le> k" for k
    using that by (subst dec_digits.simps) simp
  have base: "dec_digits k = [digit_char k]" if "k < 10" for k using that by (subst dec_digits.simps) simp
  have d: "n div 10 div 10 = n div 100" by (simp add: zdiv_zmult2_eq [symmetric])
  have z: "digit_char 0 = CHR ''0''" by (simp add: digit_char_def)
  consider "n < 10" | "10 \<le> n" "n < 100" | "100 \<le> n" by linarith
  then show ?thesis
  proof cases
    case 1
    then have "n div 10 = 0" "n div 100 = 0" "n mod 10 = n" using assms by simp_all
    then show ?thesis using base [of n] 1 assms z by (simp add: pad_zero_def itoa_def numeral_2_eq_2)
  next
    case 2
    then have "n div 10 < 10" "n div 100 = 0" using assms by (simp_all add: div_less_iff_int)
    moreover have "0 \<le> n div 10" using assms by (simp add: le_div_iff_int)
    ultimately have "n div 10 < 10" "n div 100 = 0" "n div 10 mod 10 = n div 10" by simp_all
    then show ?thesis using step [of n] base [of "n div 10"] 2 assms z by (simp add: pad_zero_def itoa_def)
  next
    case 3
    then have "10 \<le> n div 10" "n div 100 < 10" using assms by (simp_all add: le_div_iff_int div_less_iff_int)
    then show ?thesis using step [of n] step [of "n div 10"] base [of "n div 100"] 3 assms d
      by (simp add: pad_zero_def itoa_def)
  qed
qed

lemma dec_digits_1000:
  assumes "1000 \<le> n"
  shows "dec_digits n = dec_digits (n div 1000) @ pad_zero 3 (n mod 1000)"
proof -
  have step: "dec_digits k = dec_digits (k div 10) @ [digit_char (k mod 10)]" if "10 \<le> k" for k
    using that by (subst dec_digits.simps) simp
  have d: "n div 10 div 10 = n div 100" "n div 100 div 10 = n div 1000" by (simp_all add: zdiv_zmult2_eq [symmetric])
  have "10 \<le> n" "10 \<le> n div 10" "10 \<le> n div 100" using assms by (simp_all add: le_div_iff_int div_less_iff_int)
  then have "dec_digits n = dec_digits (n div 1000) @ [digit_char (n div 100 mod 10), digit_char (n div 10 mod 10), digit_char (n mod 10)]"
    using step [of n] step [of "n div 10"] step [of "n div 100"] d by simp
  moreover have "n mod 1000 div 100 = n div 100 mod 10"
  proof -
    have "n mod (100 * 10) = 100 * (n div 100 mod 10) + n mod 100" by (rule zmod_zmult2_eq) simp
    then show ?thesis by simp
  qed
  moreover have "n mod 1000 div 10 mod 10 = n div 10 mod 10"
  proof -
    have "n mod (10 * 100) = 10 * (n div 10 mod 100) + n mod 10" by (rule zmod_zmult2_eq) simp
    then have "n mod 1000 div 10 = n div 10 mod 100" by simp
    then show ?thesis by (simp add: mod_mod_cancel)
  qed
  moreover have "n mod 1000 mod 10 = n mod 10" by (simp add: mod_mod_cancel)
  moreover have "pad_zero 3 (n mod 1000) =
      [digit_char (n mod 1000 div 100), digit_char (n mod 1000 div 10 mod 10), digit_char (n mod 1000 mod 10)]"
    by (rule dec_digits_pad) simp_all
  ultimately show ?thesis by (simp only:)
qed

lemma grouped_commas: "0 \<le> n \<Longrightarrow> grouped n = commas (dec_digits n)"
proof (induction n rule: grouped.induct)
  case (1 n)
  show ?case
  proof (cases "n < 1000")
    case True
    have "length (dec_digits n) \<le> 3"
    proof -
      have step: "length (dec_digits k) \<le> Suc (length (dec_digits (k div 10)))" for k
        using dec_digits.simps [of k] by (cases "k < 10") simp_all
      have "length (dec_digits (n div 10 div 10)) = 1"
      proof -
        have "n div 10 div 10 < 10" using True by (simp add: div_less_iff_int)
        then show ?thesis using dec_digits.simps [of "n div 10 div 10"] by simp
      qed
      then show ?thesis using step [of n] step [of "n div 10"] by simp
    qed
    then show ?thesis using True by (subst grouped.simps) (simp add: commas_short)
  next
    case False
    have "length (pad_zero 3 (n mod 1000)) = 3" using dec_digits_pad [of "n mod 1000"] by simp
    then have "commas (dec_digits n) = commas (dec_digits (n div 1000)) @ '','' @ pad_zero 3 (n mod 1000)"
      unfolding dec_digits_1000 [OF False [unfolded not_less]] by (rule commas_append3 [OF dec_digits_nonempty])
    moreover have "0 \<le> n div 1000" using 1(2) by (simp add: pos_imp_zdiv_nonneg_iff)
    ultimately show ?thesis using 1(1) [OF False] False by (subst grouped.simps) simp
  qed
qed

lemma fmt_int_commas: "fmt_int n = commas (itoa n)"
  by (simp add: fmt_int_def Let_def commas_short)

section \<open>The file of the home page\<close>

lemma write_pieces_last:
  "last (fs # write_pieces path ps fs) path = (if ps = [] then fs path
     else Some ((case fs path of None \<Rightarrow> '''' | Some old \<Rightarrow> old) @ concat ps))"
proof (induction ps arbitrary: fs)
  case (Cons p ps)
  let ?fs = "append_file path p fs"
  have "last (fs # write_pieces path (p # ps) fs) path = last (?fs # write_pieces path ps ?fs) path" by simp
  also have "\<dots> = (if ps = [] then ?fs path else Some ((case ?fs path of None \<Rightarrow> '''' | Some old \<Rightarrow> old) @ concat ps))"
    by (rule Cons)
  finally show ?case by (simp add: append_file_def)
qed simp

lemma write_pieces_frame:
  "path' \<noteq> path \<Longrightarrow> g \<in> set (fs # write_pieces path ps fs) \<Longrightarrow> g path' = fs path'"
proof (induction ps arbitrary: fs)
  case (Cons p ps)
  have "append_file path p fs path' = fs path'" using Cons.prems(1) by (simp add: append_file_def)
  then show ?case using Cons.IH [of "append_file path p fs"] Cons.prems by auto
qed simp

section \<open>Properties\<close>

text \<open>The number formatters group by thousands: for every non-negative number the comma loop over the decimal
  text gives the thousands groups of the number itself, in both of its versions.\<close>

theorem fmt_int_grouped:
  assumes "0 \<le> n"
  shows "fmt_int n = grouped n \<and> fmt_int_loop n = grouped n"
  using assms by (simp add: fmt_int_commas fmt_int_loop_def grouped_commas itoa_nonneg)

text \<open>\<open>fmtF2\<close> drops the carry of its rounding: 1.999 is shown as 1.00, and the sign of a negative number
  above -1 is lost.\<close>

theorem fmt_f2_drops_carry:
  "fmt_f2 (lit (1999 / 1000)) = ''1.00'' \<and> fmt_f2 (- lit (1 / 2)) = ''0.50''"
  by code_simp

lemma generate_homepage_steps:
  assumes "generate_homepage io out data fs = (err, steps)"
  shows "(\<forall>g \<in> set steps. (g out = fs out \<or> g out = Some (page_text io data)) \<and>
            (\<forall>path. path \<noteq> out \<and> path \<noteq> out @ ''.tmp'' \<longrightarrow> g path = fs path)) \<and>
     (if err = None then last steps out = Some (page_text io data) else last steps out = fs out)"
proof -
  let ?tmp = "out @ ''.tmp''"
  let ?fs1 = "fs(?tmp \<mapsto> '''')"
  let ?w = "?fs1 # write_pieces ?tmp (ri_pieces io data) ?fs1"
  have frame: "g path = fs path" if "g \<in> set ?w" "path \<noteq> ?tmp" for g path
    using write_pieces_frame [OF that(2,1)] that(2) by simp
  have "last ?w ?tmp = Some (page_text io data)"
    using write_pieces_last [of ?fs1 ?tmp "ri_pieces io data"] by (simp add: page_text_def split: if_splits)
  moreover have "last ?w \<in> set ?w" by (rule last_in_set) simp
  ultimately have renamed: "rename_file ?tmp out (last ?w) out = Some (page_text io data)"
    "path \<noteq> out \<and> path \<noteq> ?tmp \<longrightarrow> rename_file ?tmp out (last ?w) path = fs path" for path
    using frame by (simp_all add: rename_file_def)
  have old: "last ?w out = fs out" using frame [OF last_in_set] by simp
  show ?thesis
    using assms frame renamed old unfolding generate_homepage_def Let_def
    by (auto split: option.splits)
qed

text \<open>The home page is replaced atomically. In every state the file system goes through while
  \<open>GenerateHomepage\<close> runs (where a crash may leave it, and where the web server may read), the page file has
  its old content or the complete new page; no other file than the temporary one changes; and the new page is
  there in the end exactly when no error is reported (or it equals the old one).\<close>

theorem homepage_replaced_atomically:
  assumes "generate_homepage io out data fs = (err, steps)"
  shows "(\<forall>g \<in> set steps. (g out = fs out \<or> g out = Some (page_text io data)) \<and>
            (\<forall>path. path \<noteq> out \<and> path \<noteq> out @ ''.tmp'' \<longrightarrow> g path = fs path)) \<and>
     (if err = None then last steps out = Some (page_text io data) else last steps out = fs out)"
  using generate_homepage_steps [OF assms] .

section \<open>Witnesses\<close>

theorem fmt_int_grouped_witness: "fmt_int 1234567 = ''1,234,567''"
proof -
  have "grouped 1234567 = ''1,234,567''" by code_simp
  then show ?thesis using fmt_int_grouped [of 1234567] by simp
qed

definition sample_render_io :: "string option \<Rightarrow> render_io" where
  "sample_render_io failure = \<lparr>ri_parse = None, ri_pieces = (\<lambda>_. [''<html>'', ''</html>'']), ri_execute = failure,
     ri_create = None, ri_rename = None\<rparr>"

definition sample_page_data :: HomepageData where
  "sample_page_data = \<lparr>hd_generated_at = 0, hd_blocks = [], hd_algo_stats = [],
     hd_global_stats = \<lparr>gs_num_blocks = 0, gs_money_supply = 0, gs_block_spacing = 0\<rparr>, hd_sync = no_sync_info,
     hd_page = 1, hd_total_pages = 0, hd_prev_page = 0, hd_next_page = 2\<rparr>"

theorem homepage_replaced_atomically_witness:
  "last (snd (generate_homepage (sample_render_io None) ''index.html'' sample_page_data [''index.html'' \<mapsto> ''old''])) ''index.html'' =
     Some ''<html></html>'' \<and>
   last (snd (generate_homepage (sample_render_io (Some ''exec'')) ''index.html'' sample_page_data [''index.html'' \<mapsto> ''old''])) ''index.html'' =
     Some ''old''"
proof -
  obtain e steps where g: "generate_homepage (sample_render_io None) ''index.html'' sample_page_data [''index.html'' \<mapsto> ''old''] = (e, steps)"
    by fastforce
  then have "e = None" by (auto simp: generate_homepage_def sample_render_io_def Let_def)
  then have ok: "last steps ''index.html'' = Some ''<html></html>''"
    using homepage_replaced_atomically [OF g] by (simp add: page_text_def sample_render_io_def)
  obtain e' steps' where h: "generate_homepage (sample_render_io (Some ''exec'')) ''index.html'' sample_page_data
      [''index.html'' \<mapsto> ''old''] = (e', steps')" by fastforce
  then have "e' \<noteq> None" by (auto simp: generate_homepage_def sample_render_io_def Let_def)
  then have "last steps' ''index.html'' = Some ''old''" using homepage_replaced_atomically [OF h] by auto
  then show ?thesis using ok g h by simp
qed

end
