(* ===== verification/Hp_Server.thy ===== *)
theory Hp_Server
  imports Explorer_Detail Hp_Render Node_Rpc
begin

text \<open>
  The HTTP handler of the explorer (\<open>startHTTPServer\<close> in \<open>generator/cmd/bitmark-hp-gen/main.go\<close>): the
  dispatch of a request on its query parameters, and for each kind of page the calls it makes and the data it
  hands to the template. A request is given by the decoded values of its parameters, a missing one being
  empty. The queries of one request see one state of the database.
\<close>

section \<open>Page numbers in requests\<close>

text \<open>
  \<open>fmt.Sscanf(s, "%d", &page)\<close>: blanks except a new line, a sign, decimal digits; the rest of the text
  does not matter. On an error the variable keeps its value.
\<close>

definition scan_int :: "string \<Rightarrow> int option" where
  "scan_int s =
     (let s1 = strip_left (filter (\<lambda>p. p \<noteq> [CHR 0x0A]) space_runes) s;
          sgn = (case s1 of [] \<Rightarrow> [] | c # _ \<Rightarrow> if c = CHR ''-'' \<or> c = CHR ''+'' then [c] else []);
          ds = takeWhile (\<lambda>c. digit_val c \<noteq> None) (drop (length sgn) s1)
      in if ds = [] then None else parse_int64 (sgn @ ds))"

definition page_arg :: "int \<Rightarrow> string \<Rightarrow> int" where
  "page_arg page s = (case scan_int s of None \<Rightarrow> page | Some n \<Rightarrow> n)"

section \<open>Requests and replies\<close>

record request =
  rq_q :: string
  rq_view :: string
  rq_page :: string

record MultiTxData =
  mt_blocks :: "Block list"
  mt_total :: int
  mt_page :: int
  mt_total_pages :: int
  mt_page_nums :: "int list"

text \<open>
  What a request gets: the data of one of the templates, a file of the static directory, one of the error
  replies, or a connection the server drops because the handler panicked.
\<close>

datatype page_reply =
    Home_page HomepageData
  | Multi_page MultiTxData
  | Block_page BlockDetail
  | Address_page AddressDetail
  | Static_file
  | Db_error
  | Not_found
  | Dropped

text \<open>The world of one request: the behaviour of each query, the clock, the node client if there is one.\<close>

record server_env =
  se_paged :: page_query
  se_multi :: page_query
  se_stats :: stats_query
  se_detail :: detail_env
  se_address :: addr_query
  se_now :: int
  se_node :: "(gen_io \<times> string \<times> string) option"

section \<open>Handlers\<close>

text \<open>\<open>/?page=N\<close>; the errors of the statistics are ignored.\<close>

definition older_page :: "server_env \<Rightarrow> int \<Rightarrow> db \<Rightarrow> page_reply" where
  "older_page env page d =
     (case paged_blocks (se_paged env) page d of
        Inl _ \<Rightarrow> Db_error
      | Inr (blocks, total_n) \<Rightarrow>
          (let algoStats = or_empty (algo_stats (se_stats env) d);
               globalStats = fst (global_stats (se_stats env) d);
               totalPages = total_pages home_page_size total_n;
               prevPage = wrap64 (page - 1);
               nextPage = (if page < totalPages then wrap64 (page + 1) else 0)
           in Home_page \<lparr>hd_generated_at = se_now env, hd_blocks = blocks, hd_algo_stats = algoStats,
                hd_global_stats = globalStats, hd_sync = no_sync_info, hd_page = page, hd_total_pages = totalPages,
                hd_prev_page = prevPage, hd_next_page = nextPage\<rparr>))"

text \<open>\<open>/?view=multitx&page=N\<close>.\<close>

definition multi_page :: "server_env \<Rightarrow> int \<Rightarrow> db \<Rightarrow> page_reply" where
  "multi_page env page d =
     (case multi_tx_blocks (se_multi env) page d of
        Inl _ \<Rightarrow> Db_error
      | Inr (blocks, total_n) \<Rightarrow>
          (let totalPages = total_pages multi_tx_page_size total_n
           in case page_window page totalPages of
                None \<Rightarrow> Dropped
              | Some nums \<Rightarrow> Multi_page \<lparr>mt_blocks = blocks, mt_total = total_n, mt_page = page,
                  mt_total_pages = totalPages, mt_page_nums = nums\<rparr>))"

text \<open>The proof-of-work fields of the block page come from the node.\<close>

definition add_extra :: "server_env \<Rightarrow> BlockDetail \<Rightarrow> BlockDetail" where
  "add_extra env b =
     (case se_node env of
        None \<Rightarrow> b
      | Some (io, user, pass) \<Rightarrow>
          (let e = get_block_extra io user pass (bd_hash b)
           in b\<lparr>bd_pow_hash := be_pow_hash e, bd_parent_block_hash := be_parent_block_hash e,
               bd_parent_block_pow_hash := be_parent_block_pow_hash e,
               bd_parent_block_prev_hash := be_parent_block_prev_hash e\<rparr>))"

text \<open>\<open>/?q=...\<close>: a block, else an address.\<close>

definition search_page :: "server_env \<Rightarrow> string \<Rightarrow> db \<Rightarrow> page_reply" where
  "search_page env q d =
     (case block_by_query (se_detail env) q d of
        Inl _ \<Rightarrow> Db_error
      | Inr (Some b) \<Rightarrow> Block_page (add_extra env b)
      | Inr None \<Rightarrow>
          (case address_detail (se_address env) q d of
             Inl _ \<Rightarrow> Db_error
           | Inr (Some a) \<Rightarrow> Address_page a
           | Inr None \<Rightarrow> Not_found))"

definition serve_root :: "server_env \<Rightarrow> request \<Rightarrow> db \<Rightarrow> page_reply" where
  "serve_root env r d =
     (if rq_page r \<noteq> '''' \<and> rq_q r = '''' \<and> rq_view r = '''' \<and> page_arg 0 (rq_page r) \<ge> 2
      then older_page env (page_arg 0 (rq_page r)) d
      else if rq_view r = ''multitx''
      then multi_page env (if rq_page r \<noteq> '''' then page_arg 1 (rq_page r) else 1) d
      else if rq_q r = '''' then Static_file
      else search_page env (rq_q r) d)"

section \<open>Printed page numbers\<close>

lemma scan_int_itoa: "0 \<le> n \<Longrightarrow> in64 n \<Longrightarrow> scan_int (itoa n) = Some n"
proof -
  assume n: "0 \<le> n" "in64 n"
  have set: "set (itoa n) \<subseteq> set ''0123456789''" "itoa n \<noteq> []"
    using dec_digits_set [of n] n by (simp_all add: itoa_def)
  have graph: "graphic c \<and> digit_val c \<noteq> None \<and> c \<noteq> CHR ''-'' \<and> c \<noteq> CHR ''+''" if "c \<in> set ''0123456789''" for c
    using that by (auto simp: graphic_def digit_val_def)
  have first: "graphic (hd (itoa n))" "hd (itoa n) \<noteq> CHR ''-''" "hd (itoa n) \<noteq> CHR ''+''"
    using graph set hd_in_set [OF set(2)] by blast+
  have "clean (filter (\<lambda>p. p \<noteq> [CHR 0x0A]) space_runes) (itoa n)"
    using graphic_not_space first(1) set(2)
    by (fastforce simp: clean_iff has_prefix_iff append_eq_Cons_conv neq_Nil_conv)
  then have "strip_left (filter (\<lambda>p. p \<noteq> [CHR 0x0A]) space_runes) (itoa n) = itoa n" by (rule strip_left_id)
  moreover have "takeWhile (\<lambda>c. digit_val c \<noteq> None) (itoa n) = itoa n"
    using graph set(1) by (intro takeWhile_eq_all_conv [THEN iffD2]) blast
  ultimately show ?thesis
    using first(2,3) set(2) parse_int64_itoa [OF n(2)]
    by (cases "itoa n") (simp_all add: scan_int_def Let_def)
qed

section \<open>Browsing\<close>

text \<open>A reader who opens page \<open>page\<close> and follows the link to older blocks as long as there is one.\<close>

fun browse :: "server_env \<Rightarrow> db \<Rightarrow> nat \<Rightarrow> int \<Rightarrow> Block list" where
  "browse env d 0 page = []"
| "browse env d (Suc n) page =
     (case serve_root env \<lparr>rq_q = '''', rq_view = '''', rq_page = itoa page\<rparr> d of
        Home_page h \<Rightarrow> hd_blocks h @ (if hd_next_page h = 0 then [] else browse env d n (hd_next_page h))
      | _ \<Rightarrow> [])"

lemma int_less_2_60: "k < 2 ^ 60 \<Longrightarrow> int k < 2 ^ 60"
proof -
  assume "k < 2 ^ 60"
  then have "int k < int (2 ^ 60)" by (simp only: of_nat_less_iff)
  then show ?thesis by simp
qed

lemma itoa_not_Nil: "itoa n \<noteq> []"
  by (simp add: itoa_def)

lemma serve_older:
  assumes "answers (se_paged env)" and "scannable (best_rows d)" and "distinct (map b_height (best_rows d))"
    and "2 \<le> page" and "page < 2 ^ 58"
  defines "n \<equiv> int (length (best_rows d))"
  shows "\<exists>h. serve_root env \<lparr>rq_q = '''', rq_view = '''', rq_page = itoa page\<rparr> d = Home_page h \<and>
     hd_blocks h = take 24 (drop (nat (page - 1) * 24) (map block_of (by_height (best_rows d)))) \<and>
     hd_page h = page \<and> hd_prev_page h = page - 1 \<and> hd_total_pages h = total_pages home_page_size n \<and>
     hd_next_page h = (if page < total_pages home_page_size n then page + 1 else 0)"
proof -
  have r: "in64 page" "in64 (page - 1)" "in64 (page + 1)" "in64 ((page - 1) * home_page_size)" "0 \<le> page" "1 \<le> page"
    using assms(4,5) by (simp_all add: in64_def home_page_size_def)
  have "scan_int (itoa page) = Some page" by (rule scan_int_itoa [OF r(5,1)])
  then show ?thesis
    using home_pages.fetch_page [OF assms(1-3) r(6,4)] r(2,3) itoa_not_Nil [of page] assms(4)
    by (simp add: serve_root_def page_arg_def older_page_def Let_def wrap_simps n_def home_page_size_def
        take_map drop_map)
qed

lemma browse_rest:
  assumes "answers (se_paged env)" and "scannable (best_rows d)" and "distinct (map b_height (best_rows d))"
    and "length (best_rows d) < 2 ^ 60"
  defines "P \<equiv> total_pages home_page_size (int (length (best_rows d)))"
    and "xs \<equiv> map block_of (by_height (best_rows d))"
  assumes "2 \<le> page" and "page \<le> P" and "P - page < int n"
  shows "browse env d n page = drop (nat (page - 1) * 24) xs"
  using assms(7-9)
proof (induction n arbitrary: page)
  case (Suc n)
  have len: "int (length xs) < 2 ^ 60" using int_less_2_60 [OF assms(4)] by (simp add: xs_def)
  have "P = (int (length xs) + 24 - 1) div 24" 
    using home_pages.total_pages_div [of "int (length xs)"] len by (simp add: P_def xs_def home_page_size_def)
  then have "23 + int (length xs) = 24 * P + (23 + int (length xs)) mod 24" by simp
  moreover have "0 \<le> (23 + int (length xs)) mod 24" "(23 + int (length xs)) mod 24 < 24" by simp_all
  moreover have "(2 :: int) ^ 60 = 4 * 2 ^ 58" "(2 :: int) \<le> 2 ^ 58" by simp_all
  ultimately have P: "P < 2 ^ 58" "int (length xs) \<le> P * 24" using len by linarith+
  obtain h where h: "serve_root env \<lparr>rq_q = '''', rq_view = '''', rq_page = itoa page\<rparr> d = Home_page h"
      "hd_blocks h = take 24 (drop (nat (page - 1) * 24) xs)" "hd_next_page h = (if page < P then page + 1 else 0)"
    using serve_older [OF assms(1-3) Suc.prems(1)] le_less_trans [OF Suc.prems(2) P(1)] unfolding P_def xs_def by blast
  show ?case
  proof (cases "page < P")
    case True
    then have "browse env d n (page + 1) = drop (nat page * 24) xs"
      using Suc.IH [of "page + 1"] Suc.prems by simp
    moreover have "nat page * 24 = 24 + nat (page - 1) * 24" using Suc.prems(1) by linarith
    ultimately show ?thesis
      using h True Suc.prems(1) append_take_drop_id [of 24 "drop (nat (page - 1) * 24) xs"]
      by (simp add: drop_drop add.commute)
  next
    case False
    then have "page = P" using Suc.prems(2) by simp
    then have "int (length xs) \<le> int (24 + nat (page - 1) * 24)" using P(2) Suc.prems(1) by simp
    then have "length xs - nat (page - 1) * 24 \<le> 24" by linarith
    then show ?thesis using h False by simp
  qed
qed simp

section \<open>Properties\<close>


text \<open>A page number so large that the offset of the query overflows is answered with an internal error, not
  with an empty page: the negative offset is refused by the database, whatever the state of the tables.\<close>

theorem huge_page_is_a_server_error:
  "serve_root env \<lparr>rq_q = '''', rq_view = '''', rq_page = ''400000000000000000''\<rparr> d = Db_error \<and>
   serve_root env \<lparr>rq_q = '''', rq_view = ''multitx'', rq_page = ''200000000000000000''\<rparr> d = Db_error"
proof -
  have p: "page_arg k ''400000000000000000'' = 400000000000000000" "page_arg k ''200000000000000000'' = 200000000000000000" for k
  proof -
    have "scan_int ''400000000000000000'' = Some 400000000000000000" "scan_int ''200000000000000000'' = Some 200000000000000000"
      by code_simp+
    then show "page_arg k ''400000000000000000'' = 400000000000000000" "page_arg k ''200000000000000000'' = 200000000000000000"
      by (simp_all add: page_arg_def)
  qed
  have "page_offset home_page_size 400000000000000000 < 0" "page_offset multi_tx_page_size 200000000000000000 < 0"
    by code_simp+
  then show ?thesis
    by (simp add: serve_root_def p older_page_def multi_page_def paged_blocks_def multi_tx_blocks_def select_blocks_def
        Let_def home_page_size_def multi_tx_page_size_def split: option.split)
qed

section \<open>Witnesses\<close>

definition sample_stats_query :: stats_query where
  "sample_stats_query = \<lparr>sq_algos = None, sq_rows = None, sq_best = None, sq_supply = None, sq_spacing = None,
     sq_order = by_height, sq_numeric = (\<lambda>_. 0)\<rparr>"

definition sample_server :: server_env where
  "sample_server = \<lparr>se_paged = sample_page_query, se_multi = sample_page_query, se_stats = sample_stats_query,
     se_detail = page_env, se_address = sample_query, se_now = 0, se_node = None\<rparr>"

definition long_db :: "int \<Rightarrow> db" where
  "long_db h = empty_db\<lparr>d_blocks := map (\<lambda>k. page_block\<lparr>b_height := k\<rparr>) [0..h], d_chain := Some (h, page_hash)\<rparr>"

lemma page_block_scans: "b_difficulty page_block \<noteq> None" "b_in_best_chain page_block"
  by code_simp+

lemma long_db_rows:
  "best_rows (long_db h) = map (\<lambda>k. page_block\<lparr>b_height := k\<rparr>) [0..h]"
  "scannable (best_rows (long_db h))" "map b_height (best_rows (long_db h)) = [0..h]"
  using page_block_scans
  by (simp_all add: long_db_def best_rows_def empty_db_def scannable_def list_all_iff filter_True comp_def)


end
