(* ===== verification/Hp_Response.thy ===== *)
theory Hp_Response
  imports Hp_Server Go_Json_Print
begin

text \<open>
  What leaves the explorer's HTTP server: the amounts the templates print (\<open>render/addressdetail.go\<close> and the small template
  functions of \<open>render/blockdetail.go\<close> and \<open>render/multitx.go\<close>), the four calls that render a page to the response, and the
  response itself, with its status, content type and body, for each reply of \<open>Hp_Server\<close>
  (\<open>startHTTPServer\<close> in \<open>generator/cmd/bitmark-hp-gen/main.go\<close>).
\<close>

section \<open>Template functions\<close>

text \<open>\<open>fmtSats\<close>: base units as coins with eight decimals.\<close>

definition fmt_sats :: "int \<Rightarrow> string" where
  "fmt_sats n = format_fixed 8 (f_of_int n / lit 100000000)"

definition tpl_positive :: "int \<Rightarrow> bool" where
  "tpl_positive n \<longleftrightarrow> n > 0"

definition tpl_negative :: "int \<Rightarrow> bool" where
  "tpl_negative n \<longleftrightarrow> n < 0"

definition deref_int :: "int option \<Rightarrow> int" where
  "deref_int p = (case p of None \<Rightarrow> 0 | Some v \<Rightarrow> v)"

definition tpl_inc :: "int \<Rightarrow> int" where
  "tpl_inc n = wrap64 (n + 1)"

definition tpl_dec :: "int \<Rightarrow> int" where
  "tpl_dec n = wrap64 (n - 1)"

definition tpl_gt :: "int \<Rightarrow> int \<Rightarrow> bool" where
  "tpl_gt a b \<longleftrightarrow> a > b"

definition tpl_ge :: "int \<Rightarrow> int \<Rightarrow> bool" where
  "tpl_ge a b \<longleftrightarrow> a \<ge> b"

definition tpl_le :: "int \<Rightarrow> int \<Rightarrow> bool" where
  "tpl_le a b \<longleftrightarrow> a \<le> b"

definition tpl_eq :: "int \<Rightarrow> int \<Rightarrow> bool" where
  "tpl_eq a b \<longleftrightarrow> a = b"

section \<open>Rendering to the response\<close>

text \<open>A template file: the error of parsing it, the pieces its execution writes, and the error that ends the execution.\<close>

record 'a page_template =
  pt_parse :: "string option"
  pt_pieces :: "'a \<Rightarrow> string list"
  pt_execute :: "string option"

definition run_template :: "'a page_template \<Rightarrow> 'a \<Rightarrow> string \<times> string option" where
  "run_template tpl data =
     (case pt_parse tpl of
        Some e \<Rightarrow> ('''', Some e)
      | None \<Rightarrow> (concat (pt_pieces tpl data), pt_execute tpl))"

definition render_multi_tx :: "MultiTxData page_template \<Rightarrow> MultiTxData \<Rightarrow> string \<times> string option" where
  "render_multi_tx tpl data = run_template tpl data"

definition render_block_detail :: "BlockDetail page_template \<Rightarrow> BlockDetail \<Rightarrow> string \<times> string option" where
  "render_block_detail tpl b = run_template tpl b"

definition render_address_detail :: "AddressDetail page_template \<Rightarrow> AddressDetail \<Rightarrow> string \<times> string option" where
  "render_address_detail tpl a = run_template tpl a"

record templates =
  tp_home :: render_io
  tp_multi :: "MultiTxData page_template"
  tp_block :: "BlockDetail page_template"
  tp_address :: "AddressDetail page_template"

text \<open>
  The response of one request and what the server logs. The reply of the static file server and the stream of the broker are
  written by other handlers.
\<close>

datatype response =
    Http int string string
  | From_file_server
  | From_broker
  | Closed

definition html_type :: string where
  "html_type = ''text/html; charset=utf-8''"

text \<open>\<open>http.Error\<close> and \<open>http.NotFound\<close>.\<close>

definition http_error :: "int \<Rightarrow> string \<Rightarrow> response" where
  "http_error code msg = Http code ''text/plain; charset=utf-8'' (msg @ [CHR 0x0A])"

text \<open>A rendered page: the status is sent with the first byte, before the template can fail.\<close>

definition page_response :: "string \<Rightarrow> string \<times> string option \<Rightarrow> response \<times> string list" where
  "page_response what out =
     (Http 200 html_type (fst out),
      case snd out of None \<Rightarrow> [] | Some e \<Rightarrow> [''render '' @ what @ '' error: '' @ e])"

definition respond :: "templates \<Rightarrow> page_reply \<Rightarrow> response \<times> string list" where
  "respond tp r =
     (case r of
        Home_page data \<Rightarrow> page_response ''blocks page'' (render_homepage (tp_home tp) data)
      | Multi_page data \<Rightarrow> page_response ''multitx'' (render_multi_tx (tp_multi tp) data)
      | Block_page b \<Rightarrow> page_response ''block detail'' (render_block_detail (tp_block tp) b)
      | Address_page a \<Rightarrow> page_response ''address detail'' (render_address_detail (tp_address tp) a)
      | Static_file \<Rightarrow> (From_file_server, [])
      | Db_error \<Rightarrow> (http_error 500 ''database error'', [])
      | Not_found \<Rightarrow> (http_error 404 ''404 page not found'', [])
      | Dropped \<Rightarrow> (Closed, []))"

text \<open>The two routes.\<close>

definition serve_http :: "templates \<Rightarrow> server_env \<Rightarrow> string \<Rightarrow> request \<Rightarrow> db \<Rightarrow> response \<times> string list" where
  "serve_http tp env path r d = (if path = ''/events'' then (From_broker, []) else respond tp (serve_root env r d))"

section \<open>Amounts are printed exactly\<close>

lemma round_even_near:
  assumes "\<bar>r - of_int n\<bar> < 1 / 2"
  shows "round_even r = n"
proof (cases "of_int n \<le> r")
  case True
  then have "\<lfloor>r\<rfloor> = n" using assms by (intro floor_unique) linarith+
  then show ?thesis using assms True by (simp add: round_even_def Let_def)
next
  case False
  then have "\<lfloor>r\<rfloor> = n - 1" using assms by (intro floor_unique) linarith+
  then show ?thesis using assms False by (simp add: round_even_def Let_def)
qed

lemma coins_of_int:
  assumes "\<bar>n\<bar> < 2 ^ 51"
  shows "f_of_int n / lit 100000000 = Fin (round64 (of_int n / 10 ^ 8))"
proof -
  have n: "f_of_int n = Fin (of_int n)" by (rule f_of_int_exact) (use assms in simp)
  have l: "lit 100000000 = Fin (10 ^ 8)" by code_simp
  have div: "Fin (of_int n) / Fin (10 ^ 8) = fl (n < 0) (of_int n / 10 ^ 8)"
    by (simp add: divide_f64_def f_div_def f_neg_def is_fin_def f_val_def Let_def)
  show ?thesis
  proof (cases "n = 0")
    case True
    then show ?thesis unfolding n l div by (simp add: fl_def)
  next
    case False
    have b: "\<bar>round64 (of_int n / 10 ^ 8)\<bar> < pow2 1024" by (rule coin_first_rounding(2)) (use False assms in simp_all)
    have "\<bar>round64 (of_int n / 10 ^ 8) * 10 ^ 8 - of_int n\<bar> < 1 / 4" by (rule coin_first_rounding(1)) (use False assms in simp_all)
    moreover have "1 \<le> \<bar>of_int n :: rat\<bar>" using False by linarith
    ultimately have "round64 (of_int n / 10 ^ 8) \<noteq> 0" by auto
    then show ?thesis unfolding n l div using fl_Fin [OF b] by blast
  qed
qed

text \<open>The amounts of an address page are exact: for every amount below \<open>2 ^ 51\<close> base units either way, \<open>%.8f\<close> of the
  quotient by 1e8 is the decimal text of the amount itself, with its sign, for all the roundings between.\<close>

theorem fmt_sats_exact:
  assumes "\<bar>n\<bar> < 2 ^ 51"
  shows "fmt_sats n = (if n < 0 then ''-'' else '''') @ coin_text \<bar>n\<bar> \<and> format_fixed 8 (btm n) = fmt_sats n"
proof -
  let ?q = "round64 (of_int n / 10 ^ 8)"
  have near: "\<bar>?q * 10 ^ 8 - of_int n\<bar> < 1 / 4"
  proof (cases "n = 0")
    case False
    then show ?thesis by (rule coin_first_rounding(1)) (use assms in simp)
  qed simp
  have sgn: "?q < 0 \<longleftrightarrow> n < 0"
  proof (cases "n = 0")
    case False
    then have "1 \<le> \<bar>of_int n :: rat\<bar>" by linarith
    then have "?q * 10 ^ 8 < 0 \<longleftrightarrow> (of_int n :: rat) < 0" using near by linarith
    then show ?thesis by (simp add: mult_less_0_iff)
  qed simp
  have "\<bar>\<bar>?q\<bar> * 10 ^ 8 - of_int \<bar>n\<bar>\<bar> \<le> \<bar>?q * 10 ^ 8 - of_int n\<bar>"
    using abs_triangle_ineq3 [of "?q * 10 ^ 8" "of_int n"] by (simp add: abs_mult)
  then have "round_even (\<bar>?q\<bar> * 10 ^ 8) = \<bar>n\<bar>" using near by (intro round_even_near) linarith
  moreover have "fmt_sats n = format_fixed 8 (Fin ?q)" by (simp add: fmt_sats_def coins_of_int [OF assms])
  ultimately have "fmt_sats n = (if n < 0 then ''-'' else '''') @ coin_text \<bar>n\<bar>"
    by (simp add: format_fixed_def Let_def f_val_def f_neg_def sgn [simplified] coin_text_def)
  then show ?thesis by (simp add: btm_def fmt_sats_def)
qed

text \<open>C15: What the node prints is what the explorer shows: for every amount below \<open>2 ^ 51\<close> base units, an output object of the
  node whose \<open>value\<close> member is the decimal text of the amount (in coins, eight decimals, any unknown members around it) is
  decoded without an error, stored as exactly that number of base units, and printed by the address page as the
  same text again.\<close>

theorem amount_shown_as_printed:
  assumes "0 \<le> n" and "n < 2 ^ 51" and "0 \<le> k" and "k < 2 ^ 32"
    and "filter (knows_member tx_out_members) kvs =
      [(''value'', JNum (coin_text n)), (''n'', j_int k), (''scriptPubKey'', node_script_pub_key spk)]"
  shows "\<exists>vout. dec_struct tx_out_members (JObj kvs) zero_tx_out = (vout, None) \<and> out_n vout = k \<and> out_spk vout = spk \<and>
    o_value (output_row_of 100000000 t vout) = n \<and> fmt_sats (o_value (output_row_of 100000000 t vout)) = coin_text n"
proof -
  let ?o = "\<lparr>out_value = lit (of_int n / 10 ^ 8), out_n = k, out_spk = spk\<rparr>"
  have "readable_out (\<lambda>_. coin_text n) ?o"
    using assms by (simp add: readable_out_def parse_float_coin)
  note read = read_tx_out [OF this]
  have "node_tx_out (\<lambda>_. coin_text n) ?o = JObj (filter (knows_member tx_out_members) kvs)"
    by (simp add: node_tx_out_def emit_def w_float_def w_int_def w_value_def assms(5))
  then have "dec_struct tx_out_members (JObj kvs) zero_tx_out = (?o, None)"
    using read unknown_members_skipped [of tx_out_members "(zero_tx_out, None)" kvs] by (simp add: dec_object)
  moreover have "o_value (output_row_of 100000000 t ?o) = n"
    using coin_exact [of n] assms by simp
  moreover have "fmt_sats n = coin_text n" using fmt_sats_exact [of n] assms by simp
  ultimately show ?thesis by (intro exI [of _ ?o]) simp
qed

text \<open>A page whose template does not parse is answered with status 200 and an empty body; the error goes to the log only.\<close>

lemma broken_template_is_an_empty_page:
  "respond (tp\<lparr>tp_block := (tp_block tp)\<lparr>pt_parse := Some e\<rparr>\<rparr>) (Block_page b) =
     (Http 200 html_type '''', [''render block detail error: '' @ e])"
  by (simp add: respond_def page_response_def render_block_detail_def run_template_def)

text \<open>Statuses: a page is 200 whatever happens to its template, and only failed queries are 500.\<close>

definition reply_status :: "response \<Rightarrow> int option" where
  "reply_status r = (case r of Http status _ _ \<Rightarrow> Some status | _ \<Rightarrow> None)"

lemma reply_statuses:
  "reply_status (fst (respond tp r)) =
     (case r of Db_error \<Rightarrow> Some 500 | Not_found \<Rightarrow> Some 404 | Static_file \<Rightarrow> None | Dropped \<Rightarrow> None | _ \<Rightarrow> Some 200)"
  by (cases r) (simp_all add: respond_def page_response_def http_error_def reply_status_def)

section \<open>Witnesses\<close>

theorem fmt_sats_exact_witness:
  "fmt_sats (-123456789) = ''-1.23456789''"
proof -
  have "coin_text 123456789 = ''1.23456789''" by code_simp
  then show ?thesis using fmt_sats_exact [of "-123456789"] by simp
qed

theorem amount_shown_as_printed_witness:
  "\<exists>vout. dec_struct tx_out_members (JObj [(''value'', JNum ''20.00000001''), (''n'', j_int 3), (''valueSat'', j_int 2000000001),
       (''scriptPubKey'', node_script_pub_key (sample_spk ''bAlice''))]) zero_tx_out = (vout, None) \<and>
     o_value (output_row_of 100000000 sample_spend vout) = 2000000001"
proof -
  have txt_eq: "coin_text 2000000001 = ''20.00000001''" by code_simp
  have "filter (knows_member tx_out_members) [(''value'', JNum ''20.00000001''), (''n'', j_int 3), (''valueSat'', j_int 2000000001),
       (''scriptPubKey'', node_script_pub_key (sample_spk ''bAlice''))] =
    [(''value'', JNum (coin_text 2000000001)), (''n'', j_int 3), (''scriptPubKey'', node_script_pub_key (sample_spk ''bAlice''))]"
    unfolding txt_eq by code_simp
  from amount_shown_as_printed [OF _ _ _ _ this, of sample_spend] show ?thesis by auto
qed

end
