(* ===== verification/Sse_Broker.thy ===== *)
theory Sse_Broker
  imports Go_Text "HOL-Library.AList" "HOL-Library.Multiset" "HOL-Library.Char_ord" "HOL-Library.List_Lexorder"
begin

text \<open>
  The broker of the server-sent events (\<open>generator/internal/sse/broker.go\<close>): its client table and the
  buffered channels, the operations on them, and the system of a broker and its HTTP handlers as a step
  relation over events. It refines the abstract notification service that keeps one flag per client.
  Channels are numbered in the order of their creation; strings are byte strings.
\<close>

section \<open>Data\<close>

record clientInfo =
  ci_ip :: string
  ci_tab_id :: string

record IPStat =
  is_ip :: string
  is_conns :: nat
  is_tabs :: nat

text \<open>
  \<open>br_buffered\<close> counts the messages in the buffer of a channel (the channels are made with capacity 1,
  and outlive their entry in the table); \<open>br_made\<close> is the number of channels made so far.
\<close>

record Broker =
  br_clients :: "(nat \<times> clientInfo) list"
  br_buffered :: "nat \<Rightarrow> nat"
  br_made :: nat

definition new_broker :: Broker where
  "new_broker = \<lparr>br_clients = [], br_buffered = (\<lambda>_. 0), br_made = 0\<rparr>"

section \<open>Operations\<close>

definition subscribe :: "clientInfo \<Rightarrow> Broker \<Rightarrow> nat \<times> Broker" where
  "subscribe info b =
     (let ch = br_made b
      in (ch, b\<lparr>br_clients := AList.update ch info (br_clients b), br_made := Suc ch\<rparr>))"

definition unsubscribe :: "nat \<Rightarrow> Broker \<Rightarrow> Broker" where
  "unsubscribe ch b = b\<lparr>br_clients := AList.delete ch (br_clients b)\<rparr>"

text \<open>The \<open>select\<close> with a default branch: a full buffer is skipped.\<close>

definition try_send :: "nat \<Rightarrow> (nat \<Rightarrow> nat) \<Rightarrow> nat \<Rightarrow> nat" where
  "try_send ch buf = (if buf ch < 1 then buf(ch := Suc (buf ch)) else buf)"

definition broadcast :: "Broker \<Rightarrow> Broker" where
  "broadcast b = b\<lparr>br_buffered := fold (\<lambda>c. try_send (fst c)) (br_clients b) (br_buffered b)\<rparr>"

type_synonym ip_accum = "string set \<times> nat"

definition connect_step :: "clientInfo \<Rightarrow> (string \<times> ip_accum) list \<times> string set \<Rightarrow> (string \<times> ip_accum) list \<times> string set" where
  "connect_step c acc =
     (let (m, seen) = acc;
          (tabs, conn) = (case map_of m (ci_ip c) of None \<Rightarrow> ({}, 0) | Some a \<Rightarrow> a);
          tab = ci_tab_id c
      in if tab \<noteq> '''' then (AList.update (ci_ip c) (insert tab tabs, Suc conn) m, insert tab seen)
         else (AList.update (ci_ip c) (tabs, Suc conn) m, seen))"

definition ip_stat :: "string \<times> ip_accum \<Rightarrow> IPStat" where
  "ip_stat e = \<lparr>is_ip = fst e, is_conns = snd (snd e), is_tabs = card (fst (snd e))\<rparr>"

definition connected :: "Broker \<Rightarrow> nat \<times> nat \<times> nat \<times> IPStat list" where
  "connected b =
     (let (m, seen) = fold connect_step (map snd (br_clients b)) ([], {})
      in (length (br_clients b), card seen, length m, sort_key is_ip (map ip_stat m)))"

text \<open>\<open>net.SplitHostPort\<close>: the host, or \<open>None\<close> for its errors.\<close>

fun last_index :: "char \<Rightarrow> string \<Rightarrow> nat option" where
  "last_index c [] = None"
| "last_index c (x # xs) =
     (case last_index c xs of Some i \<Rightarrow> Some (Suc i) | None \<Rightarrow> if x = c then Some 0 else None)"

definition split_host :: "string \<Rightarrow> string option" where
  "split_host s =
     (case last_index CHR '':'' s of
        None \<Rightarrow> None
      | Some i \<Rightarrow>
          if hd s = CHR ''['' then
            (case index_byte s CHR '']'' of
               None \<Rightarrow> None
             | Some e \<Rightarrow>
                 if e + 1 \<noteq> i then None
                 else if CHR ''['' \<in> set (drop 1 s) \<or> CHR '']'' \<in> set (drop (e + 1) s) then None
                 else Some (take (e - 1) (drop 1 s)))
          else if CHR '':'' \<in> set (take i s) \<or> CHR ''['' \<in> set s \<or> CHR '']'' \<in> set s then None
          else Some (take i s))"

definition client_ip :: "string \<Rightarrow> string \<Rightarrow> string" where
  "client_ip xff remote_addr =
     (if xff \<noteq> '''' then (case index_byte xff CHR '','' of Some i \<Rightarrow> take i xff | None \<Rightarrow> xff)
      else (case split_host remote_addr of Some host \<Rightarrow> host | None \<Rightarrow> remote_addr))"

section \<open>The broker and its handlers\<close>

text \<open>
  Every handler of \<open>ServeHTTP\<close> whose writer can flush subscribes, writes the greeting and then serves its
  channel, the heartbeat and the end of the request in any order; a block is announced by
  \<open>Broadcast\<close>. The mutex makes the table operations atomic; a broadcast sends to one channel after the
  other, and receives that fall in between commute with the sends to other channels.
\<close>

datatype event = Connect clientInfo | Refused | Block | Deliver nat | Heartbeat nat | Disconnect nat

record sse_system =
  s_broker :: Broker
  s_written :: "nat \<Rightarrow> string list"

definition greeting :: string where
  "greeting = '': connected'' @ [CHR 0x0A, CHR 0x0A]"

definition newblock_frame :: string where
  "newblock_frame = ''event: newblock'' @ [CHR 0x0A] @ ''data: {}'' @ [CHR 0x0A, CHR 0x0A]"

definition keepalive_frame :: string where
  "keepalive_frame = '': keepalive'' @ [CHR 0x0A, CHR 0x0A]"

definition write_frame :: "nat \<Rightarrow> string \<Rightarrow> (nat \<Rightarrow> string list) \<Rightarrow> nat \<Rightarrow> string list" where
  "write_frame ch f w = w(ch := w ch @ [f])"

inductive sse_step :: "event \<Rightarrow> sse_system \<Rightarrow> sse_system \<Rightarrow> bool" where
  connect: "subscribe info (s_broker s) = (ch, b') \<Longrightarrow>
     sse_step (Connect info) s \<lparr>s_broker = b', s_written = write_frame ch greeting (s_written s)\<rparr>"
| refused: "sse_step Refused s s"
| block: "sse_step Block s (s\<lparr>s_broker := broadcast (s_broker s)\<rparr>)"
| deliver: "ch \<in> fst ` set (br_clients (s_broker s)) \<Longrightarrow> 0 < br_buffered (s_broker s) ch \<Longrightarrow>
     sse_step (Deliver ch) s
       \<lparr>s_broker = (s_broker s)\<lparr>br_buffered := (br_buffered (s_broker s))(ch := br_buffered (s_broker s) ch - 1)\<rparr>,
        s_written = write_frame ch newblock_frame (s_written s)\<rparr>"
| heartbeat: "ch \<in> fst ` set (br_clients (s_broker s)) \<Longrightarrow>
     sse_step (Heartbeat ch) s (s\<lparr>s_written := write_frame ch keepalive_frame (s_written s)\<rparr>)"
| disconnect: "ch \<in> fst ` set (br_clients (s_broker s)) \<Longrightarrow>
     sse_step (Disconnect ch) s (s\<lparr>s_broker := unsubscribe ch (s_broker s)\<rparr>)"

inductive_cases connectE: "sse_step (Connect info) s s'"
inductive_cases blockE: "sse_step Block s s'"
inductive_cases deliverE: "sse_step (Deliver ch) s s'"
inductive_cases disconnectE: "sse_step (Disconnect ch) s s'"
inductive_simps heartbeat_iff: "sse_step (Heartbeat ch) s s'"
inductive_simps refused_iff: "sse_step Refused s s'"

inductive sse_run :: "event list \<Rightarrow> sse_system \<Rightarrow> sse_system \<Rightarrow> bool" where
  nil: "sse_run [] s s"
| snoc: "sse_run es s s' \<Longrightarrow> sse_step e s' s'' \<Longrightarrow> sse_run (es @ [e]) s s''"

definition start_system :: sse_system where
  "start_system = \<lparr>s_broker = new_broker, s_written = (\<lambda>_. [])\<rparr>"

section \<open>The abstract notification service\<close>

text \<open>Per connected client one flag: a block was announced that the client has not been told of yet.\<close>

type_synonym service = "(nat \<rightharpoonup> bool) \<times> nat"

fun service_step :: "event \<Rightarrow> service \<Rightarrow> service option" where
  "service_step (Connect info) (m, n) = Some (m(n \<mapsto> False), Suc n)"
| "service_step Refused (m, n) = Some (m, n)"
| "service_step Block (m, n) = Some (\<lambda>ch. map_option (\<lambda>_. True) (m ch), n)"
| "service_step (Deliver ch) (m, n) = (if m ch = Some True then Some (m(ch \<mapsto> False), n) else None)"
| "service_step (Heartbeat ch) (m, n) = (if m ch = None then None else Some (m, n))"
| "service_step (Disconnect ch) (m, n) = (if m ch = None then None else Some (m(ch := None), n))"

fun service_run :: "event list \<Rightarrow> service \<Rightarrow> service option" where
  "service_run [] st = Some st"
| "service_run (e # es) st = (case service_step e st of None \<Rightarrow> None | Some st' \<Rightarrow> service_run es st')"

lemma service_run_snoc:
  "service_run (es @ [e]) st = (case service_run es st of None \<Rightarrow> None | Some st' \<Rightarrow> service_step e st')"
  by (induction es arbitrary: st) (auto split: option.splits)

definition client_ids :: "Broker \<Rightarrow> nat set" where
  "client_ids b = fst ` set (br_clients b)"

definition abs_service :: "Broker \<Rightarrow> service" where
  "abs_service b = (\<lambda>ch. if ch \<in> client_ids b then Some (0 < br_buffered b ch) else None, br_made b)"

definition broker_inv :: "Broker \<Rightarrow> bool" where
  "broker_inv b \<longleftrightarrow> distinct (map fst (br_clients b)) \<and> (\<forall>ch. br_buffered b ch \<le> 1) \<and>
     (\<forall>ch \<ge> br_made b. ch \<notin> client_ids b \<and> br_buffered b ch = 0)"

lemma broadcast_buffered:
  assumes "distinct (map fst cs)" and "\<forall>ch. buf ch \<le> 1"
  shows "fold (\<lambda>c. try_send (fst c)) cs buf = (\<lambda>ch. if ch \<in> fst ` set cs then 1 else buf ch)"
  using assms
proof (induction cs arbitrary: buf)
  case (Cons c cs)
  have "try_send (fst c) buf = buf(fst c := 1)"
    using Cons.prems(2) by (auto simp: try_send_def fun_eq_iff le_Suc_eq dest: spec [of _ "fst c"])
  then show ?case using Cons by (auto simp: fun_eq_iff)
qed simp

lemma subscribe_refines:
  assumes "broker_inv b" and "subscribe info b = (ch, b')"
  shows "broker_inv b'" and "abs_service b' = ((fst (abs_service b))(ch \<mapsto> False), Suc (br_made b))" and "ch = br_made b"
proof -
  have b': "b' = b\<lparr>br_clients := AList.update (br_made b) info (br_clients b), br_made := Suc (br_made b)\<rparr>"
    and ch: "ch = br_made b" using assms(2) by (auto simp: subscribe_def Let_def)
  have keys: "client_ids b' = insert (br_made b) (client_ids b)"
    by (simp add: client_ids_def b' dom_update)
  have "distinct (map fst (br_clients b'))" using assms(1) by (simp add: b' broker_inv_def distinct_update)
  then show "broker_inv b'" using assms(1) keys by (auto simp: broker_inv_def b' Suc_le_eq)
  show "abs_service b' = ((fst (abs_service b))(ch \<mapsto> False), Suc (br_made b))" "ch = br_made b"
    using assms(1) keys by (auto simp: abs_service_def ch b' broker_inv_def fun_eq_iff)
qed

lemma unsubscribe_refines:
  assumes "broker_inv b" and "ch \<in> client_ids b"
  shows "broker_inv (unsubscribe ch b)"
    and "abs_service (unsubscribe ch b) = ((fst (abs_service b))(ch := None), br_made b)"
proof -
  have keys: "client_ids (unsubscribe ch b) = client_ids b - {ch}"
    by (auto simp: client_ids_def unsubscribe_def AList.delete_eq)
  have "distinct (map fst (br_clients (unsubscribe ch b)))"
    using assms(1) by (simp add: unsubscribe_def broker_inv_def distinct_delete)
  then show "broker_inv (unsubscribe ch b)" using assms(1) keys by (simp add: broker_inv_def unsubscribe_def)
  show "abs_service (unsubscribe ch b) = ((fst (abs_service b))(ch := None), br_made b)"
    using keys by (simp add: abs_service_def fun_eq_iff) (simp add: unsubscribe_def)
qed

lemma broadcast_refines:
  assumes "broker_inv b"
  shows "broker_inv (broadcast b)"
    and "abs_service (broadcast b) = (\<lambda>ch. map_option (\<lambda>_. True) (fst (abs_service b) ch), br_made b)"
proof -
  have buf: "br_buffered (broadcast b) = (\<lambda>ch. if ch \<in> client_ids b then 1 else br_buffered b ch)"
    using assms broadcast_buffered [of "br_clients b" "br_buffered b"]
    by (simp add: broker_inv_def broadcast_def client_ids_def)
  have rest: "client_ids (broadcast b) = client_ids b" "br_made (broadcast b) = br_made b"
    "br_clients (broadcast b) = br_clients b" by (simp_all add: broadcast_def client_ids_def)
  show "broker_inv (broadcast b)" using assms by (simp add: broker_inv_def buf rest)
  show "abs_service (broadcast b) = (\<lambda>ch. map_option (\<lambda>_. True) (fst (abs_service b) ch), br_made b)"
    by (simp add: abs_service_def buf rest fun_eq_iff)
qed

lemma sse_step_refines:
  assumes "sse_step e s s'" and "broker_inv (s_broker s)"
  shows "broker_inv (s_broker s') \<and> service_step e (abs_service (s_broker s)) = Some (abs_service (s_broker s'))"
  using assms
proof (cases rule: sse_step.cases)
  case (connect info ch b')
  then show ?thesis using subscribe_refines [OF assms(2) connect(3)] by (simp add: abs_service_def)
next
  case block
  then show ?thesis using broadcast_refines [OF assms(2)] by (simp add: abs_service_def)
next
  case (deliver ch)
  have le: "br_buffered (s_broker s) c \<le> 1" for c using assms(2) by (simp add: broker_inv_def)
  have "br_buffered (s_broker s) ch = 1" using le [of ch] deliver(4) by simp
  then show ?thesis using assms(2) deliver(1-3)
    by (simp add: abs_service_def client_ids_def broker_inv_def fun_eq_iff)
next
  case (heartbeat ch)
  then show ?thesis using assms(2) by (simp add: abs_service_def client_ids_def)
next
  case (disconnect ch)
  then have "ch \<in> client_ids (s_broker s)" by (simp add: client_ids_def)
  then show ?thesis using unsubscribe_refines [OF assms(2)] disconnect by (simp add: abs_service_def)
qed (simp add: abs_service_def)

lemma start_inv: "broker_inv (s_broker start_system)" "abs_service (s_broker start_system) = (Map.empty, 0)"
  by (auto simp: broker_inv_def start_system_def new_broker_def client_ids_def abs_service_def)

lemma sse_run_refines:
  "sse_run es start_system s \<Longrightarrow> broker_inv (s_broker s) \<and> service_run es (Map.empty, 0) = Some (abs_service (s_broker s))"
proof (induction es "start_system" s rule: sse_run.induct)
  case nil
  then show ?case by (simp add: start_inv)
next
  case (snoc es s' e s'')
  then show ?case using sse_step_refines [OF snoc.hyps(3)] by (simp add: service_run_snoc)
qed

section \<open>Pending notifications\<close>

lemma service_run_append:
  "service_run (es @ es') st = (case service_run es st of None \<Rightarrow> None | Some st' \<Rightarrow> service_run es' st')"
  by (induction es arbitrary: st) (auto split: option.splits)

text \<open>A set flag stays set until its client is told or leaves; a new client gets a new number.\<close>

lemma flag_stays:
  assumes "service_run es (m, n) = Some (m', n')" and "m ch = Some True" and "ch < n"
    and "Deliver ch \<notin> set es" and "Disconnect ch \<notin> set es"
  shows "m' ch = Some True"
  using assms
proof (induction es arbitrary: m n)
  case (Cons e es)
  then show ?case by (cases e) (auto split: if_splits)
qed simp

section \<open>The client statistics\<close>

definition conns_of :: "clientInfo list \<Rightarrow> string \<Rightarrow> nat" where
  "conns_of cs ip = length (filter (\<lambda>c. ci_ip c = ip) cs)"

definition tabs_of :: "clientInfo list \<Rightarrow> string \<Rightarrow> string set" where
  "tabs_of cs ip = ci_tab_id ` {c \<in> set cs. ci_ip c = ip \<and> ci_tab_id c \<noteq> ''''}"

definition all_tabs :: "clientInfo list \<Rightarrow> string set" where
  "all_tabs cs = ci_tab_id ` {c \<in> set cs. ci_tab_id c \<noteq> ''''}"

lemma counts_snoc:
  "conns_of (cs @ [c]) ip = conns_of cs ip + (if ci_ip c = ip then 1 else 0)"
  "tabs_of (cs @ [c]) ip = (if ci_ip c = ip \<and> ci_tab_id c \<noteq> '''' then insert (ci_tab_id c) (tabs_of cs ip) else tabs_of cs ip)"
  "all_tabs (cs @ [c]) = (if ci_tab_id c \<noteq> '''' then insert (ci_tab_id c) (all_tabs cs) else all_tabs cs)"
  by (auto simp: conns_of_def tabs_of_def all_tabs_def)

lemma counts_fresh: "ip \<notin> ci_ip ` set cs \<Longrightarrow> conns_of cs ip = 0 \<and> tabs_of cs ip = {}"
  by (auto simp: conns_of_def tabs_of_def filter_empty_conv)

lemma connect_fold:
  assumes "fold connect_step cs ([], {}) = (m, seen)"
  shows "map_of m = (\<lambda>ip. if ip \<in> ci_ip ` set cs then Some (tabs_of cs ip, conns_of cs ip) else None)"
    and "distinct (map fst m)" and "seen = all_tabs cs"
proof -
  have "map_of m = (\<lambda>ip. if ip \<in> ci_ip ` set cs then Some (tabs_of cs ip, conns_of cs ip) else None) \<and>
      distinct (map fst m) \<and> seen = all_tabs cs"
    using assms
  proof (induction cs arbitrary: m seen rule: rev_induct)
    case Nil
    then show ?case by (auto simp: all_tabs_def)
  next
    case (snoc c cs)
    obtain m0 seen0 where m0: "fold connect_step cs ([], {}) = (m0, seen0)" by fastforce
    note IH = snoc.IH [OF m0]
    have here: "(case map_of m0 (ci_ip c) of None \<Rightarrow> ({}, 0) | Some a \<Rightarrow> a) = (tabs_of cs (ci_ip c), conns_of cs (ci_ip c))"
      using IH counts_fresh [of "ci_ip c" cs] by simp
    have m: "(m, seen) = (AList.update (ci_ip c) (tabs_of (cs @ [c]) (ci_ip c), Suc (conns_of cs (ci_ip c))) m0,
        all_tabs (cs @ [c]))"
    proof -
      have "(m, seen) = connect_step c (m0, seen0)" using snoc.prems by (simp add: m0)
      also have "\<dots> = (AList.update (ci_ip c) (tabs_of (cs @ [c]) (ci_ip c), Suc (conns_of cs (ci_ip c))) m0,
          all_tabs (cs @ [c]))"
        unfolding connect_step_def Let_def split_conv here using IH by (simp add: counts_snoc)
      finally show ?thesis .
    qed
    have eq: "map_of m ip = (if ip \<in> ci_ip ` set (cs @ [c]) then Some (tabs_of (cs @ [c]) ip, conns_of (cs @ [c]) ip) else None)" for ip
      using m IH by (cases "ip = ci_ip c") (simp_all add: update_conv' counts_snoc)
    then show ?case using m IH by (simp add: fun_eq_iff distinct_update)
  qed
  then show "map_of m = (\<lambda>ip. if ip \<in> ci_ip ` set cs then Some (tabs_of cs ip, conns_of cs ip) else None)"
    "distinct (map fst m)" "seen = all_tabs cs" by simp_all
qed

definition ip_stats :: "clientInfo list \<Rightarrow> IPStat list" where
  "ip_stats cs = map (\<lambda>ip. \<lparr>is_ip = ip, is_conns = conns_of cs ip, is_tabs = card (tabs_of cs ip)\<rparr>)
     (sorted_list_of_set (ci_ip ` set cs))"

lemma sum_conns: "(\<Sum>s\<leftarrow>ip_stats cs. is_conns s) = length cs"
proof -
  have "(\<Sum>ip \<in> A. conns_of cs ip) = length cs" if "finite A" "ci_ip ` set cs \<subseteq> A" for A
    using that(2)
  proof (induction cs rule: rev_induct)
    case (snoc c cs)
    have "(\<Sum>ip\<in>A. if ci_ip c = ip then 1 else 0) = (1 :: nat)" using snoc.prems that(1) by simp
    then show ?case using snoc by (simp add: counts_snoc(1) sum.distrib)
  qed (simp add: conns_of_def)
  then show ?thesis by (simp add: ip_stats_def comp_def sum_list_distinct_conv_sum_set)
qed

lemma connected_exact:
  "connected b = (let cs = map snd (br_clients b)
     in (length cs, card (all_tabs cs), card (ci_ip ` set cs), ip_stats cs))"
proof -
  define cs where "cs = map snd (br_clients b)"
  obtain m seen where m: "fold connect_step cs ([], {}) = (m, seen)" by fastforce
  note F = connect_fold [OF m]
  have keys: "fst ` set m = ci_ip ` set cs" using arg_cong [OF F(1), of dom] by (auto simp: dom_map_of_conv_image_fst split: if_splits)
  have stats: "ip_stat e = \<lparr>is_ip = fst e, is_conns = conns_of cs (fst e), is_tabs = card (tabs_of cs (fst e))\<rparr>" if "e \<in> set m" for e
  proof -
    have "map_of m (fst e) = Some (snd e)" using that F(2) by (simp add: map_of_is_SomeI)
    then have "snd e = (tabs_of cs (fst e), conns_of cs (fst e))" unfolding F(1) by (simp split: if_splits)
    then show ?thesis by (simp add: ip_stat_def)
  qed
  let ?g = "\<lambda>ip. \<lparr>is_ip = ip, is_conns = conns_of cs ip, is_tabs = card (tabs_of cs ip)\<rparr>"
  have "map ip_stat m = map ?g (map fst m)" using stats by simp
  moreover have "mset (map fst m) = mset (sorted_list_of_set (ci_ip ` set cs))"
    using F(2) keys using set_eq_iff_mset_eq_distinct [OF F(2), of "sorted_list_of_set (ci_ip ` set cs)"] by simp
  ultimately have "mset (map ip_stat m) = mset (ip_stats cs)" unfolding ip_stats_def by (metis mset_map)
  moreover have "inj_on is_ip (set (map ip_stat m))"
    using F(2) by (auto simp: distinct_map inj_on_def ip_stat_def stats)
  moreover have "sorted (map is_ip (ip_stats cs))" by (simp add: ip_stats_def comp_def)
  ultimately have "sort_key is_ip (map ip_stat m) = ip_stats cs" by (intro sort_key_inj_key_eq)
  moreover have "length m = card (ci_ip ` set cs)" using distinct_card [OF F(2)] keys by simp
  ultimately show ?thesis by (simp add: connected_def m Let_def F(3) flip: cs_def) (simp add: cs_def)
qed

section \<open>Properties\<close>

text \<open>C8: the broker with its handlers implements the notification service, for every interleaving of
  connections, announcements, deliveries, heartbeats and disconnections: after any run the service allows the
  same events and holds the flag of a client exactly when its channel holds a message, and no channel ever
  holds more than one.\<close>

theorem broker_refines_service:
  assumes "sse_run es start_system s"
  shows "service_run es (Map.empty, 0) = Some (abs_service (s_broker s)) \<and> (\<forall>ch. br_buffered (s_broker s) ch \<le> 1)"
  using sse_run_refines [OF assms] by (simp add: broker_inv_def)

text \<open>C24: no announcement is lost. A client that was connected when a block was announced can be told of it as
  long as it has not been told of one since and has not disconnected, whatever else happens in between,
  and telling it writes the \<open>newblock\<close> frame.\<close>

theorem no_block_lost:
  assumes "sse_run es start_system s1" and "ch \<in> client_ids (s_broker s1)"
    and "sse_run (es @ Block # es') start_system s" and "Deliver ch \<notin> set es'" and "Disconnect ch \<notin> set es'"
  shows "\<exists>s'. sse_step (Deliver ch) s s' \<and> s_written s' ch = s_written s ch @ [newblock_frame]"
proof -
  obtain m n where a1: "abs_service (s_broker s1) = (m, n)" by fastforce
  obtain m' n' where a: "abs_service (s_broker s) = (m', n')" by fastforce
  note R1 = sse_run_refines [OF assms(1)] and R = sse_run_refines [OF assms(3)]
  have "m ch \<noteq> None" "ch < n"
    using a1 R1 assms(2) by (auto simp: abs_service_def broker_inv_def not_less [symmetric])
  moreover have "service_run es' (\<lambda>ch. map_option (\<lambda>_. True) (m ch), n) = Some (m', n')"
    using R R1 a1 a by (simp add: service_run_append)
  ultimately have "m' ch = Some True"
    using flag_stays [of es' "\<lambda>ch. map_option (\<lambda>_. True) (m ch)" n m' n' ch] assms(4,5) by auto
  then have "ch \<in> fst ` set (br_clients (s_broker s))" "0 < br_buffered (s_broker s) ch"
    using fun_cong [OF arg_cong [OF a, of fst], of ch] by (simp_all add: abs_service_def client_ids_def split: if_splits)
  from sse_step.deliver [OF this] show ?thesis by (intro exI conjI) (assumption, simp add: write_frame_def)
qed

text \<open>\<open>Connected\<close> counts exactly: the connections, the distinct tab names, the distinct addresses, and
  for each address in ascending order its connections and its distinct tabs; the connections per address
  add up to the total.\<close>

theorem connected_counts:
  "\<exists>conns tabs ips by_ip. connected b = (conns, tabs, ips, by_ip) \<and>
     conns = length (br_clients b) \<and> tabs = card (all_tabs (map snd (br_clients b))) \<and>
     by_ip = ip_stats (map snd (br_clients b)) \<and> map is_ip by_ip = sorted_list_of_set (ci_ip ` snd ` set (br_clients b)) \<and>
     ips = length by_ip \<and> (\<Sum>s\<leftarrow>by_ip. is_conns s) = conns"
  unfolding connected_exact Let_def
  using sum_conns [of "map snd (br_clients b)"] by (simp add: ip_stats_def comp_def)

section \<open>Witnesses\<close>

definition sample_client_info :: clientInfo where
  "sample_client_info = \<lparr>ci_ip = ''10.0.0.1'', ci_tab_id = ''a''\<rparr>"

definition sample_connected :: sse_system where
  "sample_connected = \<lparr>s_broker = snd (subscribe sample_client_info new_broker),
     s_written = write_frame 0 greeting (\<lambda>_. [])\<rparr>"

lemma sample_run_connect: "sse_run [Connect sample_client_info] start_system sample_connected"
proof -
  have "subscribe sample_client_info (s_broker start_system) = (0, snd (subscribe sample_client_info new_broker))"
    by (simp add: subscribe_def Let_def start_system_def new_broker_def)
  from sse_step.connect [OF this] have "sse_step (Connect sample_client_info) start_system sample_connected"
    by (simp add: sample_connected_def start_system_def)
  from sse_run.snoc [OF sse_run.nil this] show ?thesis by simp
qed

lemma sample_run_block:
  "sse_run ([Connect sample_client_info] @ Block # []) start_system
     (sample_connected\<lparr>s_broker := broadcast (s_broker sample_connected)\<rparr>)"
  using sse_run.snoc [OF sample_run_connect sse_step.block] by simp

theorem broker_refines_service_witness:
  "service_run [Connect sample_client_info] (Map.empty, 0) = Some (abs_service (s_broker sample_connected))"
  using broker_refines_service [OF sample_run_connect] by simp

theorem no_block_lost_witness:
  "\<exists>s'. sse_step (Deliver 0) (sample_connected\<lparr>s_broker := broadcast (s_broker sample_connected)\<rparr>) s' \<and>
     s_written s' 0 = [greeting, newblock_frame]"
proof -
  have "0 \<in> client_ids (s_broker sample_connected)"
    by (simp add: sample_connected_def client_ids_def subscribe_def Let_def new_broker_def)
  from no_block_lost [OF sample_run_connect this sample_run_block] show ?thesis
    by (simp add: sample_connected_def write_frame_def)
qed

end
