(* ===== verification/Hp_Main.thy ===== *)
theory Hp_Main
  imports Hp_Server Sse_Broker
begin

text \<open>
  The main loop of the home page generator (\<open>generator/cmd/bitmark-hp-gen/main.go\<close>): \<open>generate\<close>, its wrapper
  \<open>doGenerate\<close> with the state kept between renders, and the \<open>select\<close> loop over block notifications, errors of
  the subscriber, manual requests and the one-second ticker. The state also records every state of the file
  system a reader of the page could have seen. The screen is the list of the calls made to it.
\<close>

section \<open>State\<close>

datatype ui_call =
    Set_status string
  | Set_node_status string bool string
  | Ui_update "Block list" int
  | Set_clients nat nat nat "IPStat list"
  | Check_input
  | Redraw

text \<open>
  The world of one render: the queries, the answer of the node if it is asked, the clock (readings 0 and 1
  in \<open>query\<close>, 2 to 4 in \<open>generate\<close>, 5 after it), the template engine and the file operations.
\<close>

record gen_env =
  ge_blocks :: page_query
  ge_stats :: stats_query
  ge_node :: "int result"
  ge_clock :: "nat \<Rightarrow> int"
  ge_render :: render_io

record hp_state =
  hs_last_height :: int
  hs_last_at :: "int option"
  hs_rate :: f64
  hs_breaker :: rpcBreaker
  hs_ticks :: int
  hs_broadcasts :: nat
  hs_files :: files
  hs_seen :: "files list"
  hs_ui :: "ui_call list"

definition hp_start :: "files \<Rightarrow> hp_state" where
  "hp_start fs = \<lparr>hs_last_height = -1, hs_last_at = None, hs_rate = 0, hs_breaker = new_breaker, hs_ticks = 0,
     hs_broadcasts = 0, hs_files = fs, hs_seen = [fs], hs_ui = []\<rparr>"

definition em_dash :: string where
  "em_dash = [CHR 0xE2, CHR 0x80, CHR 0x94]"

definition waiting :: string where
  "waiting = ''Waiting for new block...''"

section \<open>One render\<close>

text \<open>The data of the first page.\<close>

definition first_page ::
  "gen_env \<Rightarrow> Block list \<Rightarrow> AlgoStat list \<Rightarrow> GlobalStats \<Rightarrow> int \<Rightarrow> bool \<Rightarrow> f64 \<Rightarrow> HomepageData" where
  "first_page env blocks algoStats globalStats nodeHeight nodeAvail ingestRate =
     \<lparr>hd_generated_at = ge_clock env 3, hd_blocks = blocks, hd_algo_stats = algoStats,
      hd_global_stats = globalStats, hd_sync = build_sync_info (ge_clock env 4) blocks nodeHeight nodeAvail ingestRate,
      hd_page = 1, hd_total_pages = total_pages home_page_size (gs_num_blocks globalStats), hd_prev_page = 0,
      hd_next_page = 2\<rparr>"

text \<open>\<open>generate\<close>: the height shown or -1, the calls to the screen, the states of the file system.\<close>

definition generate ::
  "gen_env \<Rightarrow> string \<Rightarrow> int \<Rightarrow> bool \<Rightarrow> string \<Rightarrow> f64 \<Rightarrow> db \<Rightarrow> files \<Rightarrow> int \<times> ui_call list \<times> files list" where
  "generate env out nodeHeight nodeAvail nodeErrMsg ingestRate d fs =
     (case latest_blocks (ge_blocks env) 24 d of
        Inl e \<Rightarrow> (-1, [Set_status (''DB error (blocks): '' @ e)], [fs])
      | Inr blocks \<Rightarrow>
          (case algo_stats (ge_stats env) d of
             Inl e \<Rightarrow> (-1, [Set_status (''DB error (algo stats): '' @ e)], [fs])
           | Inr algoStats \<Rightarrow>
               (case global_stats (ge_stats env) d of
                  (_, Some e) \<Rightarrow> (-1, [Set_status (''DB error (global stats): '' @ e)], [fs])
                | (globalStats, None) \<Rightarrow>
                    (let node = Set_node_status (build_node_str nodeAvail nodeHeight nodeErrMsg) (\<not> nodeAvail)
                           (build_tip_str (ge_clock env 2) blocks);
                         data = first_page env blocks algoStats globalStats nodeHeight nodeAvail ingestRate;
                         (err, steps) = generate_homepage (ge_render env) out data fs
                     in case err of
                          Some e \<Rightarrow> (-1, [node, Set_status (''Render error: '' @ e)], steps)
                        | None \<Rightarrow>
                            (case blocks of [] \<Rightarrow> -1 | b # _ \<Rightarrow> bk_height b,
                             [node, Ui_update blocks (ge_clock env 3), Set_status waiting], steps)))))"

text \<open>The observed rate of ingestion, in blocks per second.\<close>

definition next_rate :: "int \<Rightarrow> int \<Rightarrow> hp_state \<Rightarrow> f64" where
  "next_rate h now s =
     (case hs_last_at s of
        None \<Rightarrow> hs_rate s
      | Some t \<Rightarrow>
          (let secs = dur_seconds (time_sub now t)
           in if h > hs_last_height s \<and> hs_last_height s \<ge> 0 \<and> secs > 0
              then f_of_int (wrap64 (h - hs_last_height s)) / secs else hs_rate s))"

definition do_generate :: "bool \<Rightarrow> string \<Rightarrow> gen_env \<Rightarrow> string \<Rightarrow> db \<Rightarrow> hp_state \<Rightarrow> hp_state" where
  "do_generate configured out env reason d s =
     (let ((nodeHeight, nodeAvail, nodeErrMsg), br) =
            breaker_query configured (ge_clock env 0) (ge_node env) (ge_clock env 1) (hs_breaker s);
          (h, calls, steps) = generate env out nodeHeight nodeAvail nodeErrMsg (hs_rate s) d (hs_files s);
          now = ge_clock env 5
      in s\<lparr>hs_last_height := (if h \<ge> 0 then h else hs_last_height s),
           hs_last_at := (if h \<ge> 0 then Some now else hs_last_at s),
           hs_rate := next_rate h now s, hs_breaker := br, hs_files := last steps, hs_seen := hs_seen s @ steps,
           hs_ui := hs_ui s @ Set_status reason # calls\<rparr>)"

section \<open>The event loop\<close>

text \<open>\<open>Tick\<close> carries the clients of the moment and the error of \<open>BestHeight\<close>, which is asked at every 30th.\<close>

datatype hp_event =
    New_block gen_env db
  | Zmq_timeout
  | Zmq_error string
  | Force gen_env db
  | Tick Broker "string option" gen_env db

definition announce :: "hp_state \<Rightarrow> hp_state" where
  "announce s = s\<lparr>hs_broadcasts := Suc (hs_broadcasts s)\<rparr>"

definition show_ui :: "ui_call list \<Rightarrow> hp_state \<Rightarrow> hp_state" where
  "show_ui calls s = s\<lparr>hs_ui := hs_ui s @ calls\<rparr>"

definition err_zmq_timeout :: string where
  "err_zmq_timeout = ''ZMQ: no block notification received within timeout '' @ em_dash @ '' publisher may be stalled''"

definition clock_tick :: "bool \<Rightarrow> string \<Rightarrow> Broker \<Rightarrow> string option \<Rightarrow> gen_env \<Rightarrow> db \<Rightarrow> hp_state \<Rightarrow> hp_state" where
  "clock_tick configured out b failure env d s =
     (let ticks = wrap64 (hs_ticks s + 1);
          (conns, tabs, ips, byIP) = connected b;
          s1 = show_ui [Set_clients conns tabs ips byIP, Check_input, Set_status waiting, Redraw]
                 (s\<lparr>hs_ticks := ticks\<rparr>)
      in if ticks smod 30 = 0
         then (case best_height failure d of
                 (_, Some _) \<Rightarrow> s1
               | (h, None) \<Rightarrow>
                   if h > hs_last_height s1
                   then announce (do_generate configured out env
                          (''DB advanced to '' @ itoa h @ '' (missed ZMQ) '' @ em_dash @ '' regenerating...'') d s1)
                   else s1)
         else s1)"

fun hp_step :: "bool \<Rightarrow> string \<Rightarrow> hp_event \<Rightarrow> hp_state \<Rightarrow> hp_state" where
  "hp_step configured out (New_block env d) s =
     announce (do_generate configured out env (''New block '' @ em_dash @ '' regenerating...'') d s)"
| "hp_step configured out Zmq_timeout s =
     show_ui [Set_status (''WARNING: '' @ err_zmq_timeout @ '' '' @ em_dash @ '' reconnected, waiting...'')] s"
| "hp_step configured out (Zmq_error e) s = show_ui [Set_status (''ZMQ error: '' @ e)] s"
| "hp_step configured out (Force env d) s =
     announce (do_generate configured out env ''Manual regeneration requested...'' d s)"
| "hp_step configured out (Tick b failure env d) s = clock_tick configured out b failure env d s"

definition hp_run :: "bool \<Rightarrow> string \<Rightarrow> gen_env \<Rightarrow> db \<Rightarrow> hp_event list \<Rightarrow> files \<Rightarrow> hp_state" where
  "hp_run configured out env0 d0 evs fs =
     fold (hp_step configured out) evs
       (do_generate configured out env0 ''Generating initial homepage...'' d0 (hp_start fs))"

section \<open>What the published file holds\<close>

definition complete_page :: "string \<Rightarrow> files \<Rightarrow> bool" where
  "complete_page out g \<longleftrightarrow> (\<exists>io data. g out = Some (page_text io data))"

definition shows_height :: "string \<Rightarrow> int \<Rightarrow> files \<Rightarrow> bool" where
  "shows_height out h g \<longleftrightarrow> (\<exists>io data. g out = Some (page_text io data) \<and>
     (case hd_blocks data of [] \<Rightarrow> True | b # _ \<Rightarrow> bk_height b = h \<or> bk_height b < 0))"

lemma generate_published:
  assumes "generate env out nh na ne rate d fs = (h, calls, steps)"
  shows "\<forall>g \<in> set steps. g out = fs out \<or> complete_page out g"
    and "(h = -1 \<and> last steps out = fs out) \<or>
      (\<exists>io data. last steps out = Some (page_text io data) \<and> (case hd_blocks data of [] \<Rightarrow> h = -1 | b # _ \<Rightarrow> h = bk_height b))"
    and "steps \<noteq> []"
proof -
  have "(steps = [fs] \<and> h = -1) \<or>
    (\<exists>blocks as gs err. generate_homepage (ge_render env) out (first_page env blocks as gs nh na rate) fs = (err, steps) \<and>
       h = (if err = None then case blocks of [] \<Rightarrow> -1 | b # _ \<Rightarrow> bk_height b else -1))"
  proof (cases "latest_blocks (ge_blocks env) 24 d")
    case (Inl e)
    then show ?thesis using assms by (simp add: generate_def)
  next
    case (Inr blocks)
    note blocks = Inr
    show ?thesis
    proof (cases "algo_stats (ge_stats env) d")
      case (Inl e)
      then show ?thesis using assms blocks by (simp add: generate_def)
    next
      case (Inr as)
      obtain gs ge where gs: "global_stats (ge_stats env) d = (gs, ge)" by fastforce
      obtain err st where r: "generate_homepage (ge_render env) out (first_page env blocks as gs nh na rate) fs = (err, st)"
        by fastforce
      show ?thesis
      proof (cases ge)
        case None
        have "steps = st" "h = (if err = None then case blocks of [] \<Rightarrow> -1 | b # _ \<Rightarrow> bk_height b else -1)"
          using assms by (cases err; simp add: generate_def blocks Inr gs None r)+
        then show ?thesis using r by blast
      next
        case (Some e)
        then show ?thesis using assms by (simp add: generate_def blocks Inr gs)
      qed
    qed
  qed
  then consider (early) "steps = [fs]" "h = -1"
    | (render) blocks as gs err where
      "generate_homepage (ge_render env) out (first_page env blocks as gs nh na rate) fs = (err, steps)"
      "h = (if err = None then case blocks of [] \<Rightarrow> -1 | b # _ \<Rightarrow> bk_height b else -1)" by blast
  note cases = this
  have steps: "(\<forall>g \<in> set steps. g out = fs out \<or> complete_page out g) \<and>
    ((h = -1 \<and> last steps out = fs out) \<or>
      (\<exists>io data. last steps out = Some (page_text io data) \<and> (case hd_blocks data of [] \<Rightarrow> h = -1 | b # _ \<Rightarrow> h = bk_height b))) \<and>
    steps \<noteq> []"
  proof (cases rule: cases)
    case early
    then show ?thesis by simp
  next
    case (render blocks as gs err)
    have blocks: "hd_blocks (first_page env blocks as gs nh na rate) = blocks" by (simp add: first_page_def)
    have "steps \<noteq> []" using render(1) unfolding generate_homepage_def Let_def by (auto split: option.splits)
    note S = generate_homepage_steps [OF render(1)]
    have seen: "\<forall>g \<in> set steps. g out = fs out \<or> complete_page out g"
      using S unfolding complete_page_def by blast
    show ?thesis
    proof (cases err)
      case None
      then have "last steps out = Some (page_text (ge_render env) (first_page env blocks as gs nh na rate))" using S by simp
      moreover have "case hd_blocks (first_page env blocks as gs nh na rate) of [] \<Rightarrow> h = -1 | b # _ \<Rightarrow> h = bk_height b"
        using render(2) None unfolding blocks by (cases blocks) simp_all
      ultimately show ?thesis using seen \<open>steps \<noteq> []\<close> by blast
    next
      case (Some e)
      then have "last steps out = fs out" "h = -1" using S render(2) by simp_all
      then show ?thesis using seen \<open>steps \<noteq> []\<close> by blast
    qed
  qed
  show "\<forall>g \<in> set steps. g out = fs out \<or> complete_page out g" "steps \<noteq> []" using steps by blast+
  show "(h = -1 \<and> last steps out = fs out) \<or>
      (\<exists>io data. last steps out = Some (page_text io data) \<and> (case hd_blocks data of [] \<Rightarrow> h = -1 | b # _ \<Rightarrow> h = bk_height b))"
    using steps by blast
qed

definition hp_inv :: "string \<Rightarrow> files \<Rightarrow> hp_state \<Rightarrow> bool" where
  "hp_inv out fs0 s \<longleftrightarrow>
     (\<forall>g \<in> insert (hs_files s) (set (hs_seen s)). g out = fs0 out \<or> complete_page out g) \<and>
     (hs_last_height s = -1 \<or> shows_height out (hs_last_height s) (hs_files s))"

lemma do_generate_inv:
  assumes "hp_inv out fs0 s"
  shows "hp_inv out fs0 (do_generate configured out env reason d s)"
proof -
  obtain nh na ne br where q: "breaker_query configured (ge_clock env 0) (ge_node env) (ge_clock env 1) (hs_breaker s) = ((nh, na, ne), br)"
    by (metis prod.exhaust)
  obtain h calls steps where g: "generate env out nh na ne (hs_rate s) d (hs_files s) = (h, calls, steps)"
    by (metis prod.exhaust)
  define s' where "s' = do_generate configured out env reason d s"
  have s': "hs_files s' = last steps" "hs_seen s' = hs_seen s @ steps"
    "hs_last_height s' = (if h \<ge> 0 then h else hs_last_height s)"
    by (simp_all add: s'_def do_generate_def q g Let_def del: One_nat_def)
  note G = generate_published [OF g]
  have old: "hs_files s out = fs0 out \<or> complete_page out (hs_files s)" "\<forall>g \<in> set (hs_seen s). g out = fs0 out \<or> complete_page out g"
    "hs_last_height s = -1 \<or> shows_height out (hs_last_height s) (hs_files s)"
    using assms by (simp_all add: hp_inv_def)
  have steps: "\<forall>g \<in> set steps. g out = fs0 out \<or> complete_page out g"
    using G(1) old(1) unfolding complete_page_def by metis
  moreover have "last steps \<in> set steps" using G(3) by simp
  moreover have "hs_last_height s' = -1 \<or> shows_height out (hs_last_height s') (last steps)"
    using G(2)
  proof (elim disjE exE conjE)
    assume "h = -1" "last steps out = hs_files s out"
    then show ?thesis using old(3) by (simp add: s'(3) shows_height_def)
  next
    fix io data
    assume a: "last steps out = Some (page_text io data)" "case hd_blocks data of [] \<Rightarrow> h = -1 | b # _ \<Rightarrow> h = bk_height b"
    have "case hd_blocks data of [] \<Rightarrow> True | b # _ \<Rightarrow> bk_height b = hs_last_height s' \<or> bk_height b < 0"
      using a(2) by (auto simp: s'(3) split: list.splits)
    then show ?thesis using a(1) unfolding shows_height_def by blast
  qed
  ultimately show ?thesis using old(2) unfolding s'_def [symmetric] hp_inv_def s'(1,2) by auto
qed

lemma hp_inv_cong:
  "hs_files s' = hs_files s \<Longrightarrow> hs_seen s' = hs_seen s \<Longrightarrow> hs_last_height s' = hs_last_height s \<Longrightarrow>
     hp_inv out fs0 s \<Longrightarrow> hp_inv out fs0 s'"
  by (simp add: hp_inv_def)

lemma announce_inv: "hp_inv out fs0 s \<Longrightarrow> hp_inv out fs0 (announce s)"
  by (erule hp_inv_cong [rotated 3]) (simp_all add: announce_def)

lemma show_ui_inv: "hp_inv out fs0 s \<Longrightarrow> hp_inv out fs0 (show_ui calls s)"
  by (erule hp_inv_cong [rotated 3]) (simp_all add: show_ui_def)

lemma ticks_inv: "hp_inv out fs0 s \<Longrightarrow> hp_inv out fs0 (s\<lparr>hs_ticks := n\<rparr>)"
  by (erule hp_inv_cong [rotated 3]) simp_all

lemma tick_inv: "hp_inv out fs0 s \<Longrightarrow> hp_inv out fs0 (clock_tick configured out b failure env d s)"
  by (auto simp: clock_tick_def Let_def split: prod.split option.split
      intro!: announce_inv show_ui_inv do_generate_inv ticks_inv)

lemma hp_step_inv: "hp_inv out fs0 s \<Longrightarrow> hp_inv out fs0 (hp_step configured out e s)"
  by (cases e) (simp_all add: announce_inv show_ui_inv do_generate_inv tick_inv)

lemma hp_fold_inv: "hp_inv out fs0 s \<Longrightarrow> hp_inv out fs0 (fold (hp_step configured out) evs s)"
  by (induction evs arbitrary: s) (simp_all add: hp_step_inv)

section \<open>Catching up without notifications\<close>

text \<open>The queries of the render answer, the template executes and the file operations succeed.\<close>

definition renders :: "gen_env \<Rightarrow> bool" where
  "renders env \<longleftrightarrow> answers (ge_blocks env) \<and>
     sq_algos (ge_stats env) = None \<and> sq_best (ge_stats env) = None \<and> sq_supply (ge_stats env) = None \<and>
     sq_spacing (ge_stats env) = None \<and> ri_parse (ge_render env) = None \<and> ri_create (ge_render env) = None \<and>
     ri_execute (ge_render env) = None \<and> ri_rename (ge_render env) = None"

lemma newest_height:
  assumes "best_rows d \<noteq> []"
  shows "b_height (hd (by_height (best_rows d))) = max_height d" and "by_height (best_rows d) \<noteq> []"
proof -
  obtain r rs where r: "by_height (best_rows d) = r # rs"
    using assms set_by_height(2) [of "best_rows d"] by (cases "by_height (best_rows d)") auto
  have "sorted (rev (map b_height (r # rs)))"
    using newest_first_by_height r unfolding newest_first_def by metis
  then have le: "\<forall>x \<in> set (r # rs). b_height x \<le> b_height r" by (auto simp: sorted_append)
  have "set (r # rs) = set (best_rows d)" using set_by_height(1) [of "best_rows d"] r by metis
  then have "b_height r \<in> set (map b_height (best_rows d))" "\<forall>x \<in> set (map b_height (best_rows d)). x \<le> b_height r"
    using le by (metis image_eqI list.set_intros(1) set_map, simp)
  moreover obtain k ks where k: "map b_height (best_rows d) = k # ks" using assms by (cases "best_rows d") auto
  ultimately have "b_height r \<in> set (k # ks)" "\<forall>x \<in> set (k # ks). x \<le> b_height r" by simp_all
  then have "Max (set (k # ks)) = b_height r" by (intro Max_eqI) auto
  then show "b_height (hd (by_height (best_rows d))) = max_height d"
    using Max.set_eq_fold [of k ks] by (simp add: r max_height_def k)
  show "by_height (best_rows d) \<noteq> []" by (simp add: r)
qed

lemma block_of_height: "b_difficulty r \<noteq> None \<Longrightarrow> bk_height (block_of r) = b_height r"
  by (auto simp: block_of_def scan_block_def)

lemma generate_homepage_ok:
  assumes "renders env" and "generate_homepage (ge_render env) out data fs = (err, steps)"
  shows "err = None \<and> last steps out = Some (page_text (ge_render env) data)"
proof -
  have "err = None" using assms by (auto simp: generate_homepage_def Let_def renders_def)
  then show ?thesis using generate_homepage_steps [OF assms(2)] by simp
qed

lemma generate_ok:
  assumes "renders env" and "scannable (best_rows d)" and "distinct (map b_height (best_rows d))" and "best_rows d \<noteq> []"
  shows "\<exists>calls steps data. generate env out nh na ne rate d fs = (max_height d, calls, steps) \<and>
     last steps out = Some (page_text (ge_render env) data) \<and>
     hd_blocks data = map block_of (take 24 (by_height (best_rows d)))"
proof -
  let ?blocks = "map block_of (take 24 (by_height (best_rows d)))"
  have "latest_blocks (ge_blocks env) 24 d = Inr ?blocks"
    using select_blocks_ok [of "ge_blocks env" "best_rows d" 24 0] assms(1-3) by (simp add: latest_blocks_def renders_def)
  moreover obtain as where "algo_stats (ge_stats env) d = Inr as" using assms(1) by (simp add: algo_stats_def renders_def)
  moreover obtain gs where "global_stats (ge_stats env) d = (gs, None)"
    using assms(1) by (simp add: global_stats_def renders_def Let_def)
  moreover define data where "data = first_page env ?blocks as gs nh na rate"
  moreover obtain err steps where g: "generate_homepage (ge_render env) out data fs = (err, steps)" by fastforce
  moreover have "err = None \<and> last steps out = Some (page_text (ge_render env) data)"
    by (rule generate_homepage_ok [OF assms(1) g])
  moreover have "\<exists>b bs. ?blocks = b # bs \<and> bk_height b = max_height d"
  proof -
    obtain r rs where r: "by_height (best_rows d) = r # rs" using newest_height(2) [OF assms(4)] by (cases "by_height (best_rows d)") auto
    then have "r \<in> set (best_rows d)" using set_by_height(1) [of "best_rows d"] by (metis list.set_intros(1))
    then have "b_difficulty r \<noteq> None" using assms(2) by (auto simp: scannable_def list_all_iff)
    then show ?thesis using newest_height(1) [OF assms(4)] by (simp add: r block_of_height)
  qed
  ultimately show ?thesis
    by (auto simp: generate_def Let_def first_page_def)
qed

section \<open>Properties\<close>


definition caught_up :: "string \<Rightarrow> db \<Rightarrow> nat \<Rightarrow> hp_state \<Rightarrow> bool" where
  "caught_up out d n s \<longleftrightarrow> hs_last_height s = max_height d \<and> hs_broadcasts s = n \<and>
     (\<exists>io data. hs_files s out = Some (page_text io data) \<and> hd_blocks data = map block_of (take 24 (by_height (best_rows d))))"

lemma do_generate_ok:
  assumes "renders env" and "scannable (best_rows d)" and "distinct (map b_height (best_rows d))" and "best_rows d \<noteq> []"
    and "0 \<le> max_height d"
  shows "caught_up out d (Suc (hs_broadcasts s)) (announce (do_generate configured out env reason d s))"
proof -
  obtain nh na ne br where q: "breaker_query configured (ge_clock env 0) (ge_node env) (ge_clock env 1) (hs_breaker s) = ((nh, na, ne), br)"
    by (metis prod.exhaust)
  obtain calls steps data where g: "generate env out nh na ne (hs_rate s) d (hs_files s) = (max_height d, calls, steps)"
      "last steps out = Some (page_text (ge_render env) data)" "hd_blocks data = map block_of (take 24 (by_height (best_rows d)))"
    using generate_ok [OF assms(1-4)] by blast
  show ?thesis
    using g(2,3) assms(5) by (auto simp: caught_up_def announce_def do_generate_def q g(1) Let_def simp del: One_nat_def)
qed

lemma smod_pos: "0 \<le> n \<Longrightarrow> n smod 30 = n mod (30 :: int)"
  by (simp add: signed_modulo_int_def sgn_if)

lemma quiet_tick:
  assumes "0 \<le> hs_ticks s" and "hs_ticks s < 2 ^ 62" and "(hs_ticks s + 1) mod 30 \<noteq> 0 \<or> hs_last_height s \<ge> max_height d"
    and "d_chain d = Some (max_height d, hash)"
    and s'_def: "s' = clock_tick configured out b None env d s"
  shows "hs_ticks s' = hs_ticks s + 1 \<and> hs_last_height s' = hs_last_height s \<and> hs_broadcasts s' = hs_broadcasts s \<and>
     hs_files s' = hs_files s"
proof -
  have "wrap64 (hs_ticks s + 1) = hs_ticks s + 1" using assms(1,2) by (intro wrap64_id) (simp add: in64_def)
  then show ?thesis
    using assms(1,3,4) smod_pos [of "hs_ticks s + 1"]
    by (auto simp: s'_def clock_tick_def Let_def show_ui_def best_height_def split: prod.split)
qed

lemma polling_tick:
  assumes "0 \<le> hs_ticks s" and "hs_ticks s < 2 ^ 62" and "(hs_ticks s + 1) mod 30 = 0" and "hs_last_height s < max_height d"
    and "d_chain d = Some (max_height d, hash)" and "renders env" and "scannable (best_rows d)"
    and "distinct (map b_height (best_rows d))" and "best_rows d \<noteq> []" and "0 \<le> max_height d"
    and s'_def: "s' = clock_tick configured out b None env d s"
  shows "caught_up out d (Suc (hs_broadcasts s)) s'" and "hs_ticks s' = hs_ticks s + 1"
proof -
  have w: "wrap64 (hs_ticks s + 1) = hs_ticks s + 1" using assms(1,2) by (intro wrap64_id) (simp add: in64_def)
  obtain conns tabs ips byIP where c: "connected b = (conns, tabs, ips, byIP)" by (metis prod.exhaust)
  define s1 where "s1 = show_ui [Set_clients conns tabs ips byIP, Check_input, Set_status waiting, Redraw]
    (s\<lparr>hs_ticks := hs_ticks s + 1\<rparr>)"
  define reason where "reason = ''DB advanced to '' @ itoa (max_height d) @ '' (missed ZMQ) '' @ em_dash @ '' regenerating...''"
  have f: "hs_last_height s1 = hs_last_height s" "hs_broadcasts s1 = hs_broadcasts s" "hs_ticks s1 = hs_ticks s + 1"
    by (simp_all add: s1_def show_ui_def)
  have "(hs_ticks s + 1) smod 30 = 0" using smod_pos [of "hs_ticks s + 1"] assms(1,3) by simp
  moreover have "best_height None d = (max_height d, None)" using assms(5) by (simp add: best_height_def)
  ultimately have s1: "s' = announce (do_generate configured out env reason d s1)"
    using f(1) assms(4) unfolding s'_def clock_tick_def w c Let_def prod.case s1_def [symmetric] by (simp add: reason_def)
  show "caught_up out d (Suc (hs_broadcasts s)) s'"
    using do_generate_ok [OF assms(6-10), of out s1 configured reason] by (simp add: s1 f)
  show "hs_ticks s' = hs_ticks s + 1"
    by (simp add: s1 f announce_def do_generate_def Let_def split: prod.split)
qed

lemma ticks_stay:
  assumes "d_chain d = Some (max_height d, hash)" and "0 \<le> hs_ticks s" and "hs_ticks s + int (length ks) < 2 ^ 62"
    and "caught_up out d n s"
  shows "caught_up out d n (fold (hp_step configured out) (map (\<lambda>i. Tick (b i) None (env i) d) ks) s)"
  using assms(2-4)
proof (induction ks arbitrary: s)
  case (Cons i ks)
  define s' where "s' = clock_tick configured out (b i) None (env i) d s"
  have "hs_last_height s \<ge> max_height d" "hs_ticks s < 2 ^ 62" using Cons.prems(2,3) by (simp_all add: caught_up_def)
  then have q: "hs_ticks s' = hs_ticks s + 1" "hs_last_height s' = hs_last_height s" "hs_broadcasts s' = hs_broadcasts s"
    "hs_files s' = hs_files s"
    using quiet_tick [OF Cons.prems(1) _ _ assms(1) s'_def] by blast+
  then have "caught_up out d n s'" using Cons.prems(3) by (simp add: caught_up_def)
  then have "caught_up out d n (fold (hp_step configured out) (map (\<lambda>i. Tick (b i) None (env i) d) ks) s')"
    using Cons.IH [of s'] Cons.prems(1,2) q(1) by simp
  then show ?case by (simp add: s'_def)
qed simp

lemma ticks_catch_up:
  assumes "d_chain d = Some (max_height d, hash)" and "\<And>i. renders (env i)" and "scannable (best_rows d)"
    and "distinct (map b_height (best_rows d))" and "best_rows d \<noteq> []" and "0 \<le> max_height d"
    and "0 \<le> hs_ticks s" and "hs_ticks s + int (length ks) < 2 ^ 62" and "hs_last_height s < max_height d"
    and "\<exists>j \<in> {1 .. int (length ks)}. (hs_ticks s + j) mod 30 = 0"
  shows "caught_up out d (Suc (hs_broadcasts s)) (fold (hp_step configured out) (map (\<lambda>i. Tick (b i) None (env i) d) ks) s)"
  using assms(7-10)
proof (induction ks arbitrary: s)
  case (Cons i ks)
  define s' where "s' = clock_tick configured out (b i) None (env i) d s"
  have t: "hs_ticks s < 2 ^ 62" using Cons.prems(2) by simp
  have goal: "fold (hp_step configured out) (map (\<lambda>i. Tick (b i) None (env i) d) (i # ks)) s =
      fold (hp_step configured out) (map (\<lambda>i. Tick (b i) None (env i) d) ks) s'" by (simp add: s'_def)
  show ?case
  proof (cases "(hs_ticks s + 1) mod 30 = 0")
    case True
    note p = polling_tick [OF Cons.prems(1) t True Cons.prems(3) assms(1) assms(2) assms(3-6) s'_def]
    show ?thesis unfolding goal by (rule ticks_stay [OF assms(1) _ _ p(1)]) (use p(2) Cons.prems(1,2) in simp_all)
  next
    case False
    then have q: "hs_ticks s' = hs_ticks s + 1" "hs_last_height s' = hs_last_height s" "hs_broadcasts s' = hs_broadcasts s"
      using quiet_tick [OF Cons.prems(1) t _ assms(1) s'_def] by blast+
    obtain j where j: "1 \<le> j" "j \<le> int (length (i # ks))" "(hs_ticks s + j) mod 30 = 0" using Cons.prems(4) by auto
    then have "j \<noteq> 1" using False by auto
    then have "\<exists>j \<in> {1 .. int (length ks)}. (hs_ticks s' + j) mod 30 = 0"
      using j by (intro bexI [of _ "j - 1"]) (auto simp: q(1))
    then show ?thesis unfolding goal using Cons.IH [of s'] Cons.prems(1-3) q by simp
  qed
qed simp

lemma missed_page:
  assumes "d_chain d = Some (max_height d, hash)" and "\<And>i. renders (env i)" and "scannable (best_rows d)"
    and "distinct (map b_height (best_rows d))" and "best_rows d \<noteq> []" and "0 \<le> max_height d"
    and "0 \<le> hs_ticks s" and "hs_ticks s < 2 ^ 61" and "hs_last_height s < max_height d"
    and "s' = fold (hp_step configured out) (map (\<lambda>i. Tick (b i) None (env i) d) [0..<30]) s"
  shows "hs_last_height s' = max_height d \<and> hs_broadcasts s' = Suc (hs_broadcasts s) \<and>
     (\<exists>io data. hs_files s' out = Some (page_text io data) \<and>
        hd_blocks data = map block_of (take 24 (by_height (best_rows d))))"
proof -
  have "(hs_ticks s + (30 - hs_ticks s mod 30)) mod 30 = 0"
    by (metis add_diff_eq add.commute diff_add_eq minus_mod_eq_mult_div mod_add_self2 mod_mult_self1_is_0 mult.commute)
  moreover have "30 - hs_ticks s mod 30 \<in> {1 .. int (length [0 ..< 30])}"
    using pos_mod_bound [of 30 "hs_ticks s"] pos_mod_sign [of 30 "hs_ticks s"] by simp
  ultimately have j: "\<exists>j \<in> {1 .. int (length [0 ..< 30])}. (hs_ticks s + j) mod 30 = 0" by (rule bexI)
  have t: "hs_ticks s + int (length [0 ..< 30]) < 2 ^ 62" using assms(8) by simp
  have "caught_up out d (Suc (hs_broadcasts s)) s'"
    unfolding assms(10) by (rule ticks_catch_up [OF assms(1-7) t assms(9) j])
  then show ?thesis unfolding caught_up_def by blast
qed


section \<open>Witnesses\<close>

definition sample_gen_env :: gen_env where
  "sample_gen_env = \<lparr>ge_blocks = sample_page_query, ge_stats = sample_stats_query, ge_node = Inl ''connection refused'',
     ge_clock = (\<lambda>_. 0), ge_render = sample_render_io None\<rparr>"

lemma sample_renders: "renders sample_gen_env"
  by (simp add: renders_def sample_gen_env_def sample_answers sample_stats_query_def sample_render_io_def)

definition sample_hp_run :: hp_state where
  "sample_hp_run = hp_run False ''index.html'' sample_gen_env (long_db 3) [Zmq_timeout] [''index.html'' \<mapsto> ''old'']"

lemma max_height_long_db: "max_height (long_db 3) = 3"
  using long_db_rows(3) [of 3] by (simp add: max_height_def upto_rec1)

lemma sample_hp_run_height: "hs_last_height sample_hp_run = 3" "hs_seen sample_hp_run \<noteq> []"
proof -
  define s where "s = do_generate False ''index.html'' sample_gen_env ''Generating initial homepage...'' (long_db 3)
    (hp_start [''index.html'' \<mapsto> ''old''])"
  have run: "sample_hp_run = hp_step False ''index.html'' Zmq_timeout s"
    by (simp add: sample_hp_run_def hp_run_def s_def)
  have "distinct (map b_height (best_rows (long_db 3)))" "best_rows (long_db 3) \<noteq> []" "0 \<le> max_height (long_db 3)"
    unfolding long_db_rows(3) max_height_long_db by (simp_all add: long_db_rows(1))
  then have "caught_up ''index.html'' (long_db 3) (Suc (hs_broadcasts (hp_start [''index.html'' \<mapsto> ''old'']))) (announce s)"
    unfolding s_def by (rule do_generate_ok [OF sample_renders long_db_rows(2)])
  then show "hs_last_height sample_hp_run = 3"
    by (simp add: run caught_up_def announce_def show_ui_def max_height_long_db)
  show "hs_seen sample_hp_run \<noteq> []"
    by (simp add: run s_def do_generate_def show_ui_def hp_start_def Let_def split: prod.split)
qed



end
