(* ===== verification/Hp_Tui.thy ===== *)
theory Hp_Tui
  imports Hp_Main Go_Fmt
begin

text \<open>
  The terminal view of the generator (\<open>generator/internal/tui/tui.go\<close>): its state, the calls that change it (the
  main loop's \<open>ui_call\<close>s among them), the log writer with its ring buffer, the keyboard, and the screen as the
  list of the lines \<open>Redraw\<close> paints from the top. The ncurses calls that put a line on the terminal are not
  modelled; instants are Unix seconds.
\<close>

section \<open>State\<close>

definition max_blocks :: nat where "max_blocks = 12"
definition max_ip_rows :: nat where "max_ip_rows = 4"
definition min_log_lines :: int where "min_log_lines = 4"
definition max_log_lines :: int where "max_log_lines = 20"

record TUI =
  tu_blocks :: "Block list"
  tu_status :: string
  tu_last_gen :: "int option"
  tu_out_path :: string
  tu_events :: "string list"
  tu_conn_summary :: string
  tu_conn_lines :: "string list"
  tu_node_status :: string
  tu_node_err :: bool
  tu_tip_info :: string
  tu_force :: nat

definition new_tui :: "string \<Rightarrow> TUI" where
  "new_tui outputPath =
     \<lparr>tu_blocks = [], tu_status = ''Initializing...'', tu_last_gen = None, tu_out_path = outputPath, tu_events = [],
      tu_conn_summary = ''no browsers connected'', tu_conn_lines = [], tu_node_status = ''Node: connecting...'',
      tu_node_err = False, tu_tip_info = '''', tu_force = 0\<rparr>"

section \<open>Updates\<close>

text \<open>\<open>strings.TrimRight(s, "\n\r")\<close>, and one \<open>Write\<close> of the log: one event, of which the newest 64 are kept.\<close>

definition trim_newlines :: "string \<Rightarrow> string" where
  "trim_newlines s = rev (dropWhile (\<lambda>c. c = CHR 0x0A \<or> c = CHR 0x0D) (rev s))"

definition keep_last :: "nat \<Rightarrow> 'a list \<Rightarrow> 'a list" where
  "keep_last n xs = (if length xs > n then drop (length xs - n) xs else xs)"

definition log_write :: "string \<Rightarrow> TUI \<Rightarrow> TUI" where
  "log_write p t =
     (let line = trim_newlines p
      in if line = '''' then t else t\<lparr>tu_events := keep_last 64 (tu_events t @ [line])\<rparr>)"

definition set_status :: "string \<Rightarrow> TUI \<Rightarrow> TUI" where
  "set_status msg t = t\<lparr>tu_status := msg\<rparr>"

definition update_blocks :: "Block list \<Rightarrow> int \<Rightarrow> TUI \<Rightarrow> TUI" where
  "update_blocks blocks generatedAt t = t\<lparr>tu_blocks := blocks, tu_last_gen := Some generatedAt\<rparr>"

definition set_clients :: "nat \<Rightarrow> nat \<Rightarrow> nat \<Rightarrow> string list \<Rightarrow> TUI \<Rightarrow> TUI" where
  "set_clients conns tabs ips lines t =
     (let summary = (if conns = 0 then ''no browsers connected''
            else itoa (int conns) @ '' conn '' @ middot @ '' '' @ itoa (int tabs) @ '' tab '' @ middot @ '' '' @
                 itoa (int ips) @ '' IP'')
      in t\<lparr>tu_conn_summary := summary,
           tu_conn_lines := (if length lines > max_ip_rows then take max_ip_rows lines else lines)\<rparr>)"

definition set_node_status :: "string \<Rightarrow> bool \<Rightarrow> string \<Rightarrow> TUI \<Rightarrow> TUI" where
  "set_node_status nodeStatus nodeErr tipInfo t =
     t\<lparr>tu_node_status := nodeStatus, tu_node_err := nodeErr, tu_tip_info := tipInfo\<rparr>"

text \<open>\<open>CheckInput\<close> reads the pending keys; the channel \<open>forceCh\<close> has room for one request.\<close>

fun check_input :: "int list \<Rightarrow> TUI \<Rightarrow> TUI" where
  "check_input [] t = t"
| "check_input (ch # chs) t =
     (if ch \<le> 0 then t
      else check_input chs (if (ch = 114 \<or> ch = 82) \<and> tu_force t < 1 then t\<lparr>tu_force := Suc (tu_force t)\<rparr> else t))"

definition take_force :: "TUI \<Rightarrow> TUI option" where
  "take_force t = (if tu_force t = 0 then None else Some (t\<lparr>tu_force := tu_force t - 1\<rparr>))"

text \<open>The line per address, formatted in \<open>main\<close>, and the effect of one call of the main loop.\<close>

definition client_line :: "IPStat \<Rightarrow> string" where
  "client_line s = ''  '' @ middot @ '' '' @ fmt_left 24 (is_ip s) @ ''  '' @ itoa (int (is_conns s)) @ '' conn  '' @
     itoa (int (is_tabs s)) @ '' tab''"

fun apply_ui :: "int list \<Rightarrow> ui_call \<Rightarrow> TUI \<Rightarrow> TUI" where
  "apply_ui keys (Set_status s) t = set_status s t"
| "apply_ui keys (Set_node_status a e b) t = set_node_status a e b t"
| "apply_ui keys (Ui_update bs now) t = update_blocks bs (now div ns_second) t"
| "apply_ui keys (Set_clients conns tabs ips stats) t = set_clients conns tabs ips (map client_line stats) t"
| "apply_ui keys Check_input t = check_input keys t"
| "apply_ui keys Redraw t = t"

section \<open>Lines\<close>

definition pad :: "string \<Rightarrow> int \<Rightarrow> string" where
  "pad s n =
     (if n \<le> 0 then ''''
      else if int (length s) \<ge> n then take (nat n) s
      else s @ replicate (nat (n - int (length s))) (CHR '' ''))"

definition pad_between :: "string \<Rightarrow> string \<Rightarrow> int \<Rightarrow> string" where
  "pad_between left right cols =
     (let need = int (length left) + int (length right)
      in if need \<ge> cols then pad left cols
         else left @ replicate (nat (cols - need)) (CHR '' '') @ right)"

definition header_line :: "int \<Rightarrow> int \<Rightarrow> string" where
  "header_line now cols =
     pad_between '' BITMARK EXPLORER  *  Homepage Generator''
       ('' '' @ format_date now @ ''  '' @ format_time now @ '' UTC'' @ '' '') cols"

definition col_hdr_line :: "int \<Rightarrow> string" where
  "col_hdr_line cols =
     pad (''  '' @ fmt_left 9 ''Height'' @ '' '' @ fmt_left 20 ''Hash (prefix)'' @ '' '' @ fmt_left 12 ''Algorithm'' @ '' '' @
          fmt_right 14 ''Difficulty'' @ '' '' @ fmt_right 5 ''Tx#'' @ ''  '' @ fmt_left 19 ''Time (UTC)'') cols"

definition block_line :: "TUI \<Rightarrow> nat \<Rightarrow> int \<Rightarrow> string" where
  "block_line t i cols =
     (if i \<ge> length (tu_blocks t) then replicate (nat cols) (CHR '' '')
      else (let b = tu_blocks t ! i;
                algo = (case bk_algo_name b of None \<Rightarrow> ''unknown'' | Some a \<Rightarrow> a);
                hash = (if length (bk_hash b) > 19 then take 18 (bk_hash b) @ ''~'' else bk_hash b)
            in pad (''  '' @ fmt_left 9 (itoa (bk_height b)) @ '' '' @ fmt_left 20 hash @ '' '' @ fmt_left 12 algo @ '' '' @
                    fmt_right 14 (format_fixed 4 (bk_difficulty b)) @ '' '' @ fmt_right 5 (itoa (bk_tx_count b)) @ ''  '' @
                    format_date (bk_time b) @ '' '' @ format_time (bk_time b)) cols))"

definition node_status_line :: "TUI \<Rightarrow> int \<Rightarrow> string" where
  "node_status_line t cols = pad_between (''  '' @ tu_node_status t) (tu_tip_info t @ ''  '') cols"

definition footer_line :: "TUI \<Rightarrow> int \<Rightarrow> string" where
  "footer_line t cols =
     (let genStr = (case tu_last_gen t of None \<Rightarrow> ''not yet generated''
            | Some g \<Rightarrow> format_date g @ '' '' @ format_time g @ '' UTC'')
      in pad_between (''  Output: '' @ tu_out_path t) (''  Last generated: '' @ genStr @ ''  '') cols)"

definition status_line :: "int \<Rightarrow> string \<Rightarrow> int \<Rightarrow> string" where
  "status_line now status cols =
     pad (pad_between (''  >> '' @ status) ('' [R] regenerate  '' @ format_time now @ '' '') cols) cols"

section \<open>The screen\<close>

datatype line = Rule | Text int bool string

definition log_lines :: "int \<Rightarrow> int" where
  "log_lines rows =
     (let n = rows - 27; n1 = (if n < min_log_lines then min_log_lines else n)
      in if n1 > max_log_lines then max_log_lines else n1)"

definition event_line :: "string list \<Rightarrow> int \<Rightarrow> nat \<Rightarrow> string" where
  "event_line evs dynLogLines i =
     (let start = nat (int (length evs) - dynLogLines); idx = start + i
      in if idx < length evs then ''  '' @ evs ! idx else '''')"

text \<open>
  The lines from row 0 on; the colour pairs are those of the source. \<open>now\<close> is read for the header and for the
  status line.
\<close>

definition redraw :: "TUI \<Rightarrow> (nat \<Rightarrow> int) \<Rightarrow> int \<Rightarrow> int \<Rightarrow> line list" where
  "redraw t now rows cols =
     (if rows < 20 \<or> cols < 40 then []
      else (let dynLogLines = log_lines rows;
                evs = keep_last 64 (tu_events t);
                clines = tu_conn_lines t
            in [Text 1 True (header_line (now 0) cols), Text 2 True (col_hdr_line cols), Rule] @
               map (\<lambda>i. Text (if even i then 3 else 4) False (block_line t i cols)) [0 ..< max_blocks] @
               [Rule, Text 9 True (pad (''  Connected Browsers '' @ em_dash @ '' '' @ tu_conn_summary t) cols)] @
               map (\<lambda>i. Text 10 False (pad (if i < length clines then clines ! i else '''') cols)) [0 ..< max_ip_rows] @
               [Rule, Text 2 True (pad ''  Recent Events'' cols)] @
               map (\<lambda>i. Text 8 False (pad (event_line evs dynLogLines i) cols)) [0 ..< nat dynLogLines] @
               [Rule, Text (if tu_node_err t then 12 else 11) (tu_node_err t) (node_status_line t cols),
                Text 5 False (footer_line t cols), Text 6 False (status_line (now 1) (tu_status t) (cols - 1))]))"

section \<open>Widths\<close>

lemma length_pad: "int (length (pad s n)) = max 0 n"
  by (simp add: pad_def)

lemma length_pad_between: "0 \<le> cols \<Longrightarrow> int (length (pad_between left right cols)) = cols"
  by (simp add: pad_between_def Let_def length_pad)

lemma length_lines:
  assumes "0 \<le> cols"
  shows "int (length (header_line now cols)) = cols" "int (length (col_hdr_line cols)) = cols"
    "int (length (block_line t i cols)) = cols" "int (length (node_status_line t cols)) = cols"
    "int (length (footer_line t cols)) = cols" "int (length (status_line now status cols)) = cols"
  using assms
  by (simp_all add: header_line_def col_hdr_line_def block_line_def node_status_line_def footer_line_def status_line_def
      length_pad length_pad_between Let_def)

definition fits_width :: "int \<Rightarrow> line \<Rightarrow> bool" where
  "fits_width cols l \<longleftrightarrow> (case l of Rule \<Rightarrow> True | Text _ _ s \<Rightarrow> int (length s) = cols)"

lemma log_lines_range: "4 \<le> log_lines rows" "log_lines rows = max 4 (min 20 (rows - 27))"
  by (simp_all add: log_lines_def Let_def min_log_lines_def max_log_lines_def)

section \<open>The event log\<close>

lemma keep_last_alt: "keep_last n xs = drop (length xs - n) xs"
  by (simp add: keep_last_def)

lemma keep_last_snoc: "keep_last n (keep_last n xs @ [x]) = keep_last n (xs @ [x])"
  by (cases "length xs \<le> n") (simp_all add: keep_last_alt drop_drop Suc_diff_le)

lemma log_write_events:
  "tu_events t = keep_last 64 xs \<Longrightarrow>
     tu_events (fold log_write ps t) = keep_last 64 (xs @ filter (\<lambda>l. l \<noteq> []) (map trim_newlines ps))"
proof (induction ps arbitrary: t xs)
  case (Cons p ps)
  show ?case
  proof (cases "trim_newlines p = []")
    case True
    then show ?thesis using Cons.IH [of t xs] Cons.prems by (simp add: log_write_def)
  next
    case False
    then have "tu_events (log_write p t) = keep_last 64 (xs @ [trim_newlines p])"
      using Cons.prems keep_last_snoc [of 64 xs "trim_newlines p"] by (simp add: log_write_def)
    from Cons.IH [OF this] show ?thesis using False by simp
  qed
qed simp

section \<open>The keyboard\<close>

definition pressed :: "int list \<Rightarrow> bool" where
  "pressed keys \<longleftrightarrow> (\<exists>ch \<in> set (takeWhile (\<lambda>ch. 0 < ch) keys). ch = 114 \<or> ch = 82)"

text \<open>However often R is pressed before the main loop looks, there is one request.\<close>

lemma check_input_force:
  "tu_force t \<le> 1 \<Longrightarrow> check_input keys t = t\<lparr>tu_force := (if pressed keys then 1 else tu_force t)\<rparr>"
proof (induction keys arbitrary: t)
  case (Cons ch chs)
  have "pressed (ch # chs) \<longleftrightarrow> 0 < ch \<and> (ch = 114 \<or> ch = 82 \<or> pressed chs)" by (auto simp: pressed_def)
  moreover have "tu_force t = 0 \<or> tu_force t = 1" using Cons.prems by auto
  ultimately show ?case using Cons.IH [of t] Cons.IH [of "t\<lparr>tu_force := 1\<rparr>"] by auto
qed (simp add: pressed_def)

section \<open>Properties\<close>


text \<open>The event log shows the newest messages: after any sequence of writes to the log it holds the last 64
  lines that are not empty, in order and without their line ends.\<close>

theorem event_log_keeps_newest:
  "tu_events (fold log_write ps (new_tui out)) = keep_last 64 (filter (\<lambda>l. l \<noteq> []) (map trim_newlines ps))"
  using log_write_events [of "new_tui out" "[]" ps] by (simp add: new_tui_def keep_last_def)

section \<open>Witnesses\<close>


end
