(* ===== verification/Idx_Tui.thy ===== *)
theory Idx_Tui
  imports Go_Fmt
begin

text \<open>
  The terminal view of the indexer (\<open>indexer/internal/ui/tui.go\<close>) and the status it shows
  (\<open>indexer/internal/ingest/status.go\<close>): opening and closing the screen as the ncurses calls made, and \<open>Render\<close> as
  the lines it puts, in order. What the calls do to the terminal is not modelled beyond the line
  that stays visible in each row.
\<close>

section \<open>The status\<close>

datatype ingest_mode = ModeBootstrap | ModeTail

fun mode_text :: "ingest_mode \<Rightarrow> string" where
  "mode_text ModeBootstrap = ''BOOTSTRAP''"
| "mode_text ModeTail = ''TAIL''"

text \<open>The time of the last commit in Unix seconds, \<open>None\<close> for the zero \<open>time.Time\<close>.\<close>

record Status =
  st_mode :: ingest_mode
  st_daemon_tip :: int
  st_safe_tip :: int
  st_db_tip :: int
  st_batch_start :: int
  st_batch_end :: int
  st_last_height :: int
  st_last_hash :: string
  st_last_at :: "int option"
  st_message :: string
  st_err :: "string option"

section \<open>The screen\<close>

text \<open>The calls of goncurses that either program makes to set the terminal up; a colour of -1 is the default one.\<close>

datatype curses_call =
    Init_screen
  | CBreak bool
  | Raw bool
  | Keypad bool
  | Input_timeout int
  | Echo bool
  | Cursor nat
  | Start_color
  | Use_default_colors
  | Init_pair nat string string
  | Nout_refresh
  | Update
  | End_screen

text \<open>\<open>started\<close> is in nanoseconds; \<open>tv_open\<close> says whether there is a window.\<close>

record terminal_view =
  tv_open :: bool
  tv_started :: int
  tv_prog_name :: string
  tv_version :: string

definition new_view :: "int \<Rightarrow> string \<Rightarrow> string \<Rightarrow> terminal_view" where
  "new_view now progName version =
     \<lparr>tv_open = False, tv_started = now, tv_prog_name = progName, tv_version = version\<rparr>"

definition init_view :: "string option \<Rightarrow> terminal_view \<Rightarrow> string option \<times> terminal_view \<times> curses_call list" where
  "init_view failure t =
     (case failure of
        Some e \<Rightarrow> (Some e, t, [Init_screen])
      | None \<Rightarrow>
          (None, t\<lparr>tv_open := True\<rparr>,
           [Init_screen, CBreak True, Echo False, Cursor 0, Start_color, Use_default_colors,
            Init_pair 1 ''white'' ''default'', Init_pair 2 ''green'' ''default'', Init_pair 3 ''yellow'' ''default'', Init_pair 4 ''red'' ''default'',
            Nout_refresh, Update]))"

definition close_view :: "terminal_view \<Rightarrow> curses_call list" where
  "close_view t = (if tv_open t then [End_screen] else [])"

section \<open>Lines\<close>

text \<open>\<open>Sprintf("%*s", n, "")\<close> refuses a width above a million.\<close>

definition make_spaces :: "int \<Rightarrow> string" where
  "make_spaces n =
     (if n \<le> 0 then '''' else if n > 1000000 then ''%!(BADWIDTH)'' else replicate (nat n) (CHR '' ''))"

text \<open>\<open>padRight\<close>: exactly \<open>width\<close> bytes; a slice up to a negative width panics.\<close>

definition pad_right :: "string \<Rightarrow> int \<Rightarrow> string option" where
  "pad_right s width =
     (if int (length s) \<ge> width then (if width < 0 then None else Some (take (nat width) s))
      else Some (s @ make_spaces (width - int (length s))))"

definition format_instant :: "int option \<Rightarrow> string" where
  "format_instant t =
     (case t of None \<Rightarrow> ''-'' | Some s \<Rightarrow> format_date s @ '' '' @ format_time s @ ''Z'')"

definition view_header :: "terminal_view \<Rightarrow> string" where
  "view_header t = tv_prog_name t @ '' '' @ tv_version t"

definition mode_line :: "terminal_view \<Rightarrow> int \<Rightarrow> Status \<Rightarrow> string" where
  "mode_line t now s =
     (let uptime = dur_round (time_sub now (tv_started t)) ns_second
      in ''Mode: '' @ fmt_left 9 (mode_text (st_mode s)) @ ''  Uptime: '' @ dur_string (uptime div ns_second))"

definition progress_line :: "Status \<Rightarrow> string" where
  "progress_line s =
     ''DB Tip: '' @ itoa (st_db_tip s) @ ''   Safe Tip: '' @ itoa (st_safe_tip s) @
     ''   Daemon Tip: '' @ itoa (st_daemon_tip s)"

definition batch_line :: "Status \<Rightarrow> string" where
  "batch_line s =
     ''Batch: '' @ itoa (st_batch_start s) @ '' -> '' @ itoa (st_batch_end s) @ ''   Last Commit: '' @
     itoa (st_last_height s) @ '' @ '' @ format_instant (st_last_at s)"

text \<open>One \<open>put\<close>: the row, the colour pair that is on, and the text.\<close>

record put_call =
  pc_row :: int
  pc_pair :: nat
  pc_text :: string

definition put_line :: "int \<Rightarrow> int \<Rightarrow> nat \<Rightarrow> string \<Rightarrow> put_call option" where
  "put_line w y pair s = map_option (\<lambda>line. \<lparr>pc_row = y, pc_pair = pair, pc_text = line\<rparr>) (pad_right s w)"

fun all_some :: "'a option list \<Rightarrow> 'a list option" where
  "all_some [] = Some []"
| "all_some (x # xs) =
     (case x of None \<Rightarrow> None | Some y \<Rightarrow> (case all_some xs of None \<Rightarrow> None | Some ys \<Rightarrow> Some (y # ys)))"

text \<open>The fifth row holds the error or the message; the last row the hint.\<close>

definition note_lines :: "int \<Rightarrow> int \<Rightarrow> Status \<Rightarrow> put_call option list" where
  "note_lines h w s =
     (if 5 < h then
        (case st_err s of
           Some e \<Rightarrow> [put_line w 5 4 (''ERROR: '' @ e)]
         | None \<Rightarrow> if st_message s \<noteq> '''' then [put_line w 5 2 (st_message s)] else [])
      else [])"

definition footer_lines :: "int \<Rightarrow> int \<Rightarrow> put_call option list" where
  "footer_lines h w = (if h - 1 \<ge> 0 then [put_line w (h - 1) 3 ''Ctrl+C to stop''] else [])"

text \<open>\<open>Render\<close> on a screen of \<open>h\<close> rows and \<open>w\<close> columns; \<open>None\<close> is a panic.\<close>

definition render_view :: "terminal_view \<Rightarrow> int \<Rightarrow> int \<Rightarrow> int \<Rightarrow> Status \<Rightarrow> put_call list option" where
  "render_view t now h w s =
     (if \<not> tv_open t then Some []
      else all_some
        ([put_line w 0 1 (view_header t), put_line w 1 0 (mode_line t now s), put_line w 2 0 (progress_line s),
          put_line w 3 0 (batch_line s)] @ note_lines h w s @ footer_lines h w))"

text \<open>What a row shows in the end: the last line put there; a line outside the screen is an error that \<open>put\<close> drops.\<close>

definition row_shows :: "int \<Rightarrow> put_call list \<Rightarrow> int \<Rightarrow> put_call option" where
  "row_shows h puts y = (if 0 \<le> y \<and> y < h then find (\<lambda>p. pc_row p = y) (rev puts) else None)"

section \<open>Properties\<close>

lemma all_some_map [simp]: "all_some (map Some xs) = Some xs"
  by (induction xs) simp_all

lemma pad_right_width:
  assumes "0 \<le> w" and "w \<le> 1000000"
  obtains line where "pad_right s w = Some line" and "int (length line) = w"
proof (cases "int (length s) \<ge> w")
  case True
  then have "pad_right s w = Some (take (nat w) s)" using assms(1) by (simp add: pad_right_def)
  moreover have "int (length (take (nat w) s)) = w" using True assms(1) by simp
  ultimately show thesis by (rule that)
next
  case False
  let ?line = "s @ replicate (nat (w - int (length s))) (CHR '' '')"
  have "pad_right s w = Some ?line" using False assms by (simp add: pad_right_def make_spaces_def)
  moreover have "int (length ?line) = w" using False by simp
  ultimately show thesis by (rule that)
qed

lemma put_line_width:
  assumes "0 \<le> w" and "w \<le> 1000000"
  shows "put_line w y c s = Some \<lparr>pc_row = y, pc_pair = c, pc_text = the (pad_right s w)\<rparr>"
    and "int (length (the (pad_right s w))) = w"
proof -
  obtain line where "pad_right s w = Some line" "int (length line) = w" by (rule pad_right_width [OF assms])
  then show "put_line w y c s = Some \<lparr>pc_row = y, pc_pair = c, pc_text = the (pad_right s w)\<rparr>"
    "int (length (the (pad_right s w))) = w" by (simp_all add: put_line_def)
qed

text \<open>C33: On every screen up to a million columns wide \<open>Render\<close> neither panics nor puts a line of another width than the
  screen's, and the hint is on the last row. An error is visible in its row exactly when the screen has at least
  seven rows: on six the hint is put over it, on fewer it is left out.\<close>

theorem error_visible_from_seven_rows:
  assumes "tv_open t" and "0 \<le> w" and "w \<le> 1000000" and "1 \<le> h" and "st_err s = Some e"
  shows "\<exists>puts. render_view t now h w s = Some puts \<and> (\<forall>p \<in> set puts. int (length (pc_text p)) = w) \<and>
    row_shows h puts (h - 1) = Some \<lparr>pc_row = h - 1, pc_pair = 3, pc_text = the (pad_right ''Ctrl+C to stop'' w)\<rparr> \<and>
    ((\<exists>p. row_shows h puts 5 = Some p \<and> pc_pair p = 4) \<longleftrightarrow> 7 \<le> h) \<and>
    (7 \<le> h \<longrightarrow> row_shows h puts 5 = Some \<lparr>pc_row = 5, pc_pair = 4, pc_text = the (pad_right (''ERROR: '' @ e) w)\<rparr>)"
proof -
  let ?put = "\<lambda>y c s. \<lparr>pc_row = y, pc_pair = c, pc_text = the (pad_right s w)\<rparr>"
  let ?puts = "[?put 0 1 (view_header t), ?put 1 0 (mode_line t now s), ?put 2 0 (progress_line s), ?put 3 0 (batch_line s)] @
    (if 5 < h then [?put 5 4 (''ERROR: '' @ e)] else []) @ [?put (h - 1) 3 ''Ctrl+C to stop'']"
  note put = put_line_width [OF assms(2,3)]
  have "render_view t now h w s = all_some (map Some ?puts)"
    using assms(1,4,5) by (simp add: render_view_def note_lines_def footer_lines_def put(1))
  then have "render_view t now h w s = Some ?puts" by (simp only: all_some_map)
  moreover have "\<forall>p \<in> set ?puts. int (length (pc_text p)) = w" by (simp add: put(2))
  moreover have "row_shows h ?puts (h - 1) = Some (?put (h - 1) 3 ''Ctrl+C to stop'')"
    using assms(4) by (simp add: row_shows_def)
  moreover have "7 \<le> h \<Longrightarrow> row_shows h ?puts 5 = Some (?put 5 4 (''ERROR: '' @ e))" by (simp add: row_shows_def)
  moreover have "h = 6 \<Longrightarrow> row_shows h ?puts 5 = Some (?put 5 3 ''Ctrl+C to stop'')" by (simp add: row_shows_def)
  moreover have "h \<le> 5 \<Longrightarrow> row_shows h ?puts 5 = None" by (simp add: row_shows_def)
  moreover have "h \<le> 5 \<or> h = 6 \<or> 7 \<le> h" by linarith
  ultimately show ?thesis by (intro exI [of _ ?puts]) (elim disjE; simp)
qed

theorem error_visible_from_seven_rows_witness:
  "\<exists>puts. render_view ((new_view 0 ''bitmark-indexer'' ''1'')\<lparr>tv_open := True\<rparr>) 5000000000 24 80
     \<lparr>st_mode = ModeTail, st_daemon_tip = 9, st_safe_tip = 9, st_db_tip = 8, st_batch_start = 9, st_batch_end = 9, st_last_height = 8,
      st_last_hash = '''', st_last_at = None, st_message = '''', st_err = Some ''EOF''\<rparr> = Some puts \<and>
     row_shows 24 puts 5 = Some \<lparr>pc_row = 5, pc_pair = 4, pc_text = the (pad_right ''ERROR: EOF'' 80)\<rparr>"
  using error_visible_from_seven_rows [of "(new_view 0 ''bitmark-indexer'' ''1'')\<lparr>tv_open := True\<rparr>" 80 24
     "\<lparr>st_mode = ModeTail, st_daemon_tip = 9, st_safe_tip = 9, st_db_tip = 8, st_batch_start = 9, st_batch_end = 9, st_last_height = 8,
      st_last_hash = '''', st_last_at = None, st_message = '''', st_err = Some ''EOF''\<rparr>" "''EOF''" 5000000000]
  by (auto simp: new_view_def)

end
