(* ===== verification/Hp_Setup.thy ===== *)
theory Hp_Setup
  imports Hp_Tui Idx_Tui Zmq
begin

text \<open>
  The homepage generator as a process (\<open>generator/cmd/bitmark-hp-gen/main.go\<close>): its settings and what has to succeed before it
  runs, the terminal calls of its view (\<open>generator/internal/tui/tui.go\<close>), and the channels between the goroutine that waits for block
  messages and the main loop.
\<close>

section \<open>Settings\<close>

definition must_env :: "(string \<Rightarrow> string) \<Rightarrow> string \<Rightarrow> string \<Rightarrow> string" where
  "must_env getenv key fallback = (let v = getenv key in if v \<noteq> '''' then v else fallback)"

text \<open>The RPC client of the generator: URL, user, password and the timeout in nanoseconds.\<close>

record gen_client =
  gc_url :: string
  gc_user :: string
  gc_pass :: string
  gc_timeout :: int

record hp_settings =
  su_dsn :: string
  su_home_template :: string
  su_block_template :: string
  su_addr_template :: string
  su_multitx_template :: string
  su_output :: string
  su_static :: string
  su_listen :: string
  su_rpc :: "gen_client option"
  su_log :: "string option"

text \<open>What set-up asks of the outside: \<open>pgxpool.New\<close>, ZMQ, ncurses, and the log file.\<close>

record setup_world =
  sw_getenv :: "string \<Rightarrow> string"
  sw_db :: "string \<Rightarrow> string option"
  sw_zmq :: zmq_env
  sw_screen :: "string option"
  sw_log :: "string \<Rightarrow> bool"

definition tpl_dir :: string where
  "tpl_dir = ''/var/www/templates/bitmark-hp-gen/''"

definition gen_rpc_client :: "(string \<Rightarrow> string) \<Rightarrow> gen_client option" where
  "gen_rpc_client getenv =
     (let url = must_env getenv ''RPC_URL'' ''''; user = must_env getenv ''RPC_USER'' '''';
          pass = must_env getenv ''RPC_PASS'' ''''
      in if url \<noteq> '''' \<and> user \<noteq> '''' \<and> pass \<noteq> ''''
         then Some \<lparr>gc_url = url, gc_user = user, gc_pass = pass, gc_timeout = 3 * ns_second\<rparr> else None)"

text \<open>The text of \<open>log.Fatal\<close>, or the settings and the subscriber of a process that starts.\<close>

definition generator_setup :: "setup_world \<Rightarrow> (hp_settings \<times> subscriber) result" where
  "generator_setup w =
     (let env = sw_getenv w;
          dsn = env ''PG_DSN'';
          out = must_env env ''OUTPUT_PATH'' '''';
          static = must_env env ''STATIC_DIR'' '''';
          endpoint = must_env env ''ZMQ_ENDPOINT'' ''tcp://127.0.0.1:28332'';
          logPath = must_env env ''LOG_PATH'' ''/var/log/bitmark-hp-gen.log''
      in if dsn = '''' then Inl ''PG_DSN not set''
         else if out = '''' then
           Inl (''OUTPUT_PATH not set '' @ em_dash @ '' set EXPLORER_DOMAIN and re-run install.sh'')
         else if static = '''' then
           Inl (''STATIC_DIR not set '' @ em_dash @ '' set EXPLORER_DOMAIN and re-run install.sh'')
         else case sw_db w dsn of
           Some e \<Rightarrow> Inl (''DB connection error: '' @ e)
         | None \<Rightarrow>
             (case gen_new_subscriber (sw_zmq w) endpoint of
                Inl e \<Rightarrow> Inl (''ZMQ subscriber error: '' @ e)
              | Inr sub \<Rightarrow>
                  (case sw_screen w of
                     Some e \<Rightarrow> Inl (''TUI init error: ncurses init: '' @ e @ '' (is TERM set? run inside tmux)'')
                   | None \<Rightarrow>
                       Inr (\<lparr>su_dsn = dsn,
                          su_home_template = must_env env ''TEMPLATE_PATH'' (tpl_dir @ ''homepage.html''),
                          su_block_template = must_env env ''BLOCK_TEMPLATE_PATH'' (tpl_dir @ ''blockdetail.html''),
                          su_addr_template = must_env env ''ADDR_TEMPLATE_PATH'' (tpl_dir @ ''addressdetail.html''),
                          su_multitx_template = must_env env ''MULTITX_TEMPLATE_PATH'' (tpl_dir @ ''multitx.html''),
                          su_output = out, su_static = static,
                          su_listen = must_env env ''LISTEN_ADDR'' ''127.0.0.1:8088'',
                          su_rpc = gen_rpc_client env,
                          su_log = (if sw_log w logPath then Some logPath else None)\<rparr>, sub))))"

text \<open>The process: the events of its main loop, once it is set up, run with the node configured or not.\<close>

definition generator_main :: "setup_world \<Rightarrow> gen_env \<Rightarrow> db \<Rightarrow> hp_event list \<Rightarrow> files \<Rightarrow> hp_state result" where
  "generator_main w env0 d0 evs fs =
     (case generator_setup w of
        Inl e \<Rightarrow> Inl e
      | Inr (s, _) \<Rightarrow> Inr (hp_run (su_rpc s \<noteq> None) (su_output s) env0 d0 evs fs))"

section \<open>Terminal calls\<close>

definition screen_setup :: "bool \<Rightarrow> curses_call list" where
  "screen_setup hasColors =
     [Init_screen, Raw True, Echo False, Cursor 0] @
     (if hasColors then
        [Start_color, Use_default_colors, Init_pair 1 ''black'' ''cyan'', Init_pair 2 ''yellow'' ''black'',
         Init_pair 3 ''white'' ''black'', Init_pair 4 ''white'' ''blue'', Init_pair 5 ''black'' ''white'',
         Init_pair 6 ''green'' ''black'', Init_pair 7 ''yellow'' ''black'', Init_pair 8 ''white'' ''black'',
         Init_pair 9 ''black'' ''green'', Init_pair 10 ''white'' ''black'', Init_pair 11 ''black'' ''cyan'',
         Init_pair 12 ''white'' ''red''] else []) @
     [Keypad True, Input_timeout 0]"

datatype draw_call =
    Color_on int
  | Color_off int
  | Bold_on
  | Bold_off
  | Move_print int int string
  | Horizontal int int

definition draw_row :: "int \<Rightarrow> int \<Rightarrow> bool \<Rightarrow> string \<Rightarrow> draw_call list" where
  "draw_row row pair bold line =
     [Color_on pair] @ (if bold then [Bold_on] else []) @ [Move_print row 0 line] @ (if bold then [Bold_off] else []) @
     [Color_off pair]"

definition draw_sep :: "int \<Rightarrow> int \<Rightarrow> draw_call list" where
  "draw_sep row cols = [Color_on 7] @ map (Horizontal row) [0 .. cols - 1] @ [Color_off 7]"

definition draw_screen :: "int \<Rightarrow> line list \<Rightarrow> draw_call list" where
  "draw_screen cols ls =
     concat (map (\<lambda>(i, l). case l of Rule \<Rightarrow> draw_sep (int i) cols | Text pair bold s \<Rightarrow> draw_row (int i) pair bold s)
       (enumerate 0 ls))"

section \<open>Block notifications\<close>

text \<open>
  The goroutine waits for a message and puts it into \<open>blockCh\<close>, which holds one: when it is full the message is dropped. An error goes into
  \<open>zmqErrCh\<close>, which also holds one: when it is full the goroutine waits. The counters are for the theorem: messages received, and how
  many had been received when the main loop last took one.
\<close>

record notifier =
  nf_sub :: subscriber
  nf_block :: bool
  nf_error :: "wait_result option"
  nf_sending :: "wait_result option"
  nf_crashed :: bool
  nf_received :: nat
  nf_seen :: nat

definition start_notifier :: "subscriber \<Rightarrow> notifier" where
  "start_notifier z = \<lparr>nf_sub = z, nf_block = False, nf_error = None, nf_sending = None, nf_crashed = False,
     nf_received = 0, nf_seen = 0\<rparr>"

definition send_error :: "wait_result \<Rightarrow> notifier \<Rightarrow> notifier" where
  "send_error r s =
     (if nf_error s = None then s\<lparr>nf_error := Some r, nf_sending := None\<rparr> else s\<lparr>nf_sending := Some r\<rparr>)"

definition wait_step :: "zmq_env \<Rightarrow> notifier \<Rightarrow> notifier" where
  "wait_step env s =
     (case nf_sending s of
        Some r \<Rightarrow> send_error r s
      | None \<Rightarrow>
          (case gen_wait env (nf_sub s) of
             (Notified, z) \<Rightarrow> s\<lparr>nf_sub := z, nf_block := True, nf_received := Suc (nf_received s)\<rparr>
           | (NilSocket, z) \<Rightarrow> s\<lparr>nf_sub := z, nf_crashed := True\<rparr>
           | (r, z) \<Rightarrow> send_error r (s\<lparr>nf_sub := z\<rparr>)))"

text \<open>The two receives of the main loop's \<open>select\<close>.\<close>

definition take_block :: "notifier \<Rightarrow> notifier option" where
  "take_block s = (if nf_block s then Some (s\<lparr>nf_block := False, nf_seen := nf_received s\<rparr>) else None)"

definition take_error :: "notifier \<Rightarrow> (wait_result \<times> notifier) option" where
  "take_error s = (case nf_error s of None \<Rightarrow> None | Some r \<Rightarrow> Some (r, s\<lparr>nf_error := None\<rparr>))"

text \<open>Any interleaving of the two goroutines.\<close>

inductive notify_step :: "zmq_env \<Rightarrow> notifier \<Rightarrow> notifier \<Rightarrow> bool" for env where
  wait: "\<not> nf_crashed s \<Longrightarrow> notify_step env s (wait_step env s)"
| block: "take_block s = Some s' \<Longrightarrow> notify_step env s s'"
| error: "take_error s = Some (r, s') \<Longrightarrow> notify_step env s s'"

inductive notify_reach :: "zmq_env \<Rightarrow> notifier \<Rightarrow> notifier \<Rightarrow> bool" for env z where
  start: "notify_reach env z z"
| step: "notify_reach env z s \<Longrightarrow> notify_step env s s' \<Longrightarrow> notify_reach env z s'"

inductive_cases notify_stepE: "notify_step env s s'"

section \<open>Properties\<close>

lemma must_env_set: "must_env getenv key '''' = getenv key" "must_env getenv key fallback = '''' \<longleftrightarrow> getenv key = '''' \<and> fallback = ''''"
  by (auto simp: must_env_def Let_def)

text \<open>Set-up succeeds exactly when the three settings are there and the three resources open; then the output path is the one
  that was set, and the node is asked only when URL, user and password are all set.\<close>

lemma generator_setup_iff:
  "is_ok (generator_setup w) \<longleftrightarrow>
     sw_getenv w ''PG_DSN'' \<noteq> '''' \<and> sw_getenv w ''OUTPUT_PATH'' \<noteq> '''' \<and> sw_getenv w ''STATIC_DIR'' \<noteq> '''' \<and>
     sw_db w (sw_getenv w ''PG_DSN'') = None \<and>
     is_ok (gen_new_subscriber (sw_zmq w) (must_env (sw_getenv w) ''ZMQ_ENDPOINT'' ''tcp://127.0.0.1:28332'')) \<and> sw_screen w = None"
  "generator_setup w = Inr (s, z) \<Longrightarrow> su_output s = sw_getenv w ''OUTPUT_PATH'' \<and>
     (su_rpc s \<noteq> None \<longleftrightarrow> sw_getenv w ''RPC_URL'' \<noteq> '''' \<and> sw_getenv w ''RPC_USER'' \<noteq> '''' \<and> sw_getenv w ''RPC_PASS'' \<noteq> '''')"
  by (auto simp: generator_setup_def gen_rpc_client_def Let_def must_env_set is_ok_def split: option.splits sum.splits if_splits)

lemma open_socket_keeps: "z_socket s \<noteq> None \<Longrightarrow> z_socket (snd (open_socket env s)) \<noteq> None"
  by (simp add: open_socket_def Let_def close_socket_def split: option.split)

lemma gen_wait_keeps:
  assumes "z_socket s \<noteq> None"
  shows "z_socket (snd (gen_wait env s)) \<noteq> None" and "fst (gen_wait env s) \<noteq> NilSocket"
proof -
  obtain k where k: "z_socket s = Some k" using assms by auto
  have "z_socket (snd (gen_connect env (s\<lparr>z_clock := Suc (z_clock s)\<rparr>))) \<noteq> None"
    using open_socket_keeps [of "close_socket k (s\<lparr>z_clock := Suc (z_clock s)\<rparr>)" env] k
    by (simp add: gen_connect_def close_socket_def)
  then show "z_socket (snd (gen_wait env s)) \<noteq> None" "fst (gen_wait env s) \<noteq> NilSocket"
    using k by (auto simp: gen_wait_def Let_def split: recv_outcome.splits prod.splits sum.splits)
qed

definition notifier_ok :: "notifier \<Rightarrow> bool" where
  "notifier_ok s \<longleftrightarrow> z_socket (nf_sub s) \<noteq> None \<and> \<not> nf_crashed s \<and> nf_seen s \<le> nf_received s \<and>
     (nf_block s \<longleftrightarrow> nf_seen s < nf_received s)"

lemma wait_step_ok:
  assumes "notifier_ok s"
  shows "notifier_ok (wait_step env s)"
proof -
  obtain r z where w: "gen_wait env (nf_sub s) = (r, z)" by fastforce
  have "z_socket z \<noteq> None" "r \<noteq> NilSocket"
    using gen_wait_keeps [of "nf_sub s" env] assms w by (simp_all add: notifier_ok_def)
  then show ?thesis using assms w
    by (cases r) (auto simp: notifier_ok_def wait_step_def send_error_def split: option.split)
qed

lemma notify_step_ok: "notify_step env s s' \<Longrightarrow> notifier_ok s \<Longrightarrow> notifier_ok s'"
  by (erule notify_stepE)
    (auto simp: wait_step_ok, auto simp: take_block_def take_error_def notifier_ok_def split: if_splits option.splits)

text \<open>C14: No block message is lost between the two goroutines: in every reachable state of any interleaving of the waiting goroutine and
  the main loop, with any answers of ZMQ, the goroutine has not crashed, and a message is pending exactly when one has
  arrived since the main loop last took one; so after the last message there is a render that starts later, however many were
  merged, and the main loop never renders without a new message.\<close>

theorem no_block_message_lost:
  assumes "gen_new_subscriber env endpoint = Inr z" and "notify_reach env (start_notifier z) s"
  shows "\<not> nf_crashed s \<and> nf_seen s \<le> nf_received s \<and> (take_block s \<noteq> None \<longleftrightarrow> nf_seen s < nf_received s) \<and>
    (\<forall>s'. take_block s = Some s' \<longrightarrow> nf_seen s' = nf_received s')"
proof -
  obtain u s1 where "gen_connect env (fresh_subscriber endpoint) = (Inr u, s1)" "z = s1"
    using assms(1) by (auto simp: gen_new_subscriber_def split: prod.splits sum.splits)
  then have "z_socket z \<noteq> None"
    by (auto simp: gen_connect_def fresh_subscriber_def open_socket_def Let_def split: option.splits)
  then have start: "notifier_ok (start_notifier z)" by (simp add: notifier_ok_def start_notifier_def)
  from assms(2) have "notifier_ok s" by induction (simp_all add: start notify_step_ok)
  then show ?thesis by (auto simp: notifier_ok_def take_block_def)
qed

section \<open>Witnesses\<close>

definition busy_zmq :: zmq_env where
  "busy_zmq = sample_zmq\<lparr>ze_recv := (\<lambda>_. Message)\<rparr>"

text \<open>Two messages arrive before the main loop takes one.\<close>

theorem no_block_message_lost_witness:
  "\<exists>s. notify_reach busy_zmq (start_notifier sample_subscriber) s \<and> nf_received s = 2 \<and> take_block s \<noteq> None"
proof -
  let ?s = "start_notifier sample_subscriber"
  let ?s1 = "wait_step busy_zmq ?s" and ?s2 = "wait_step busy_zmq (wait_step busy_zmq ?s)"
  have z: "gen_new_subscriber busy_zmq ''tcp://node'' = Inr sample_subscriber"
    by (simp add: gen_new_subscriber_def gen_connect_def fresh_subscriber_def open_socket_def busy_zmq_def sample_zmq_def
        sample_subscriber_def)
  have calm: "\<not> nf_crashed ?s" "\<not> nf_crashed ?s1" "nf_received ?s2 = 2" "nf_seen ?s2 = 0"
    by (simp_all add: wait_step_def start_notifier_def gen_wait_def busy_zmq_def sample_subscriber_def)
  have r: "notify_reach busy_zmq ?s ?s2"
    by (rule notify_reach.step [OF notify_reach.step [OF notify_reach.start]])
      (rule notify_step.wait [OF calm(1)], rule notify_step.wait [OF calm(2)])
  from no_block_message_lost [OF z r] calm(3,4) have "take_block ?s2 \<noteq> None" by simp
  then show ?thesis using r calm(3) by blast
qed

end
