(* ===== verification/Idx_Main.thy ===== *)
theory Idx_Main
  imports Ingest_Run Node_Rpc
begin

text \<open>
  The indexer as a process (\<open>indexer/cmd/bitmark-indexer/main.go\<close>): configuration, database pool
  (\<open>indexer/internal/db/postgres.go\<close>), client and ingestor put together, the run, and how the process ends. Here the node is
  no longer an oracle for blocks: it is the HTTP server the client talks to, and the environment of \<open>Ingest_Run\<close> is what the
  client makes of its answers.
\<close>

section \<open>The database pool\<close>

text \<open>The settings the code makes, in nanoseconds; the rest of what \<open>ParseConfig\<close> finds in the DSN is left as it is.\<close>

record pool_config =
  pl_dsn :: string
  pl_min_conns :: int
  pl_max_conns :: int
  pl_max_idle :: int
  pl_max_lifetime :: int

record pool_driver =
  pd_parse :: "string \<Rightarrow> pool_config result"
  pd_open :: "pool_config \<Rightarrow> string option"

definition connect_pool :: "pool_driver \<Rightarrow> string \<Rightarrow> pool_config result" where
  "connect_pool drv dsn =
     (case pd_parse drv dsn of
        Inl e \<Rightarrow> Inl e
      | Inr cfg \<Rightarrow>
          (let cfg' = cfg\<lparr>pl_min_conns := 1, pl_max_conns := 8, pl_max_idle := 5 * ns_minute, pl_max_lifetime := 30 * ns_minute\<rparr>
           in case pd_open drv cfg' of Some e \<Rightarrow> Inl e | None \<Rightarrow> Inr cfg'))"

section \<open>The ingestor's view of the node\<close>

text \<open>
  The world of one process: the database's behaviour per statement, the cancellation by a signal, the HTTP server at each time, the
  ZMQ library, and the statements of the statistics. \<open>New\<close> hands the ingestor the configuration, the pool and the client.
\<close>

record process_env =
  pe_pool :: pool_driver
  pe_fault :: fault
  pe_commit_applied :: "nat \<Rightarrow> bool"
  pe_cancelled :: "nat \<Rightarrow> bool"
  pe_node :: "nat \<Rightarrow> rpc_io"
  pe_zmq :: zmq_env
  pe_algo_exec :: "nat \<Rightarrow> int \<Rightarrow> string option"

definition node_env :: "process_env \<Rightarrow> Client \<Rightarrow> env" where
  "node_env e c =
     \<lparr>e_fault = pe_fault e, e_commit_applied = pe_commit_applied e,
      e_block_count = (\<lambda>n. get_block_count (pe_node e n) c),
      e_block_hash = (\<lambda>n. get_block_hash (pe_node e n) c),
      e_block = (\<lambda>n. get_block_verbose2 (pe_node e n) c),
      e_cancelled = pe_cancelled e\<rparr>"

definition node_algo_env :: "process_env \<Rightarrow> Client \<Rightarrow> nat \<Rightarrow> algo_env" where
  "node_algo_env e c n =
     \<lparr>ae_dynamics = chain_dynamics (pe_node e n) c, ae_supply = money_supply (pe_node e n) c,
      ae_reward = block_reward (pe_node e n) c, ae_exec = pe_algo_exec e n\<rparr>"

definition new_ingestor :: "Config \<Rightarrow> process_env \<Rightarrow> Client \<Rightarrow> run_env" where
  "new_ingestor cfg e c =
     \<lparr>p_env = node_env e c, p_zmq = pe_zmq e, p_algo = node_algo_env e c, p_endpoint = c_zmq_endpoint cfg,
      p_batch = c_batch_blocks cfg, p_factor = c_base_unit_factor cfg\<rparr>"

section \<open>The process\<close>

text \<open>How it ends: \<open>log.Fatalf\<close> (exit status 1), a panic (2), a clean stop (0); \<open>Running\<close> after the iterations asked for.\<close>

datatype process_state =
    Config_error config_error
  | Connect_error string
  | Run_error string
  | Crashed
  | Stopped
  | Running

definition indexer_main ::
  "(config_error + Config) \<Rightarrow> process_env \<Rightarrow> nat \<Rightarrow> nat \<Rightarrow> world \<Rightarrow> (process_state \<times> world) option" where
  "indexer_main loaded e n fuel w =
     (case loaded of
        Inl err \<Rightarrow> Some (Config_error err, w)
      | Inr cfg \<Rightarrow>
          (case connect_pool (pe_pool e) (c_postgres_dsn cfg) of
             Inl err \<Rightarrow> Some (Connect_error err, w)
           | Inr pool \<Rightarrow>
               (case run n fuel (new_ingestor cfg e (new_client (c_rpc cfg))) w of
                  None \<Rightarrow> None
                | Some (None, w') \<Rightarrow> Some (Running, w')
                | Some (Some Panicked, w') \<Rightarrow> Some (Crashed, w')
                | Some (Some (Returned err), w') \<Rightarrow>
                    Some (if pe_cancelled e (w_clock w') then Stopped else Run_error err, w'))))"

definition exit_status :: "process_state \<Rightarrow> int option" where
  "exit_status p =
     (case p of
        Config_error _ \<Rightarrow> Some 1 | Connect_error _ \<Rightarrow> Some 1 | Run_error _ \<Rightarrow> Some 1
      | Crashed \<Rightarrow> Some 2 | Stopped \<Rightarrow> Some 0 | Running \<Rightarrow> None)"

section \<open>A node that answers over HTTP\<close>

lemma call_refused:
  assumes "auth_header io c 0 = Inr auth" and "io_request io = None"
    and "io_http io 0 auth (request_body meth params) = Reply status raw None" and "300 \<le> status" and "status \<noteq> 401"
  shows "fst (call io c meth params) = Inl (err_http status (take (nat (cl_max_response c)) raw))"
proof -
  obtain k where "(if cl_cookie_file c \<noteq> '''' then 2 else (1 :: nat)) = Suc k" by (cases "cl_cookie_file c = ''''") auto
  then show ?thesis using assms by (simp add: call_def Let_def)
qed

text \<open>
  The server answers each request with the JSON text of what the node holds: its height, the hash and the block of every height up
  to it (a block with any members the indexer does not know), and status 500 for a height or hash it does not have.
\<close>

definition answers_request :: "rpc_io \<Rightarrow> Client \<Rightarrow> string \<Rightarrow> json \<Rightarrow> json \<Rightarrow> bool" where
  "answers_request io c meth params j \<longleftrightarrow>
     json_ok j \<and> length (reply_text j) \<le> nat (cl_max_response c) \<and>
     (case auth_header io c 0 of Inl _ \<Rightarrow> False
      | Inr auth \<Rightarrow> io_http io 0 auth (request_body meth params) = Reply 200 (reply_text j) None)"

definition refuses_request :: "rpc_io \<Rightarrow> Client \<Rightarrow> string \<Rightarrow> json \<Rightarrow> bool" where
  "refuses_request io c meth params \<longleftrightarrow>
     (case auth_header io c 0 of Inl _ \<Rightarrow> False
      | Inr auth \<Rightarrow> (\<exists>raw. io_http io 0 auth (request_body meth params) = Reply 500 raw None))"

definition block_json :: "(f64 \<Rightarrow> string) \<Rightarrow> BlockV2 \<Rightarrow> json \<Rightarrow> bool" where
  "block_json show b j \<longleftrightarrow> (\<exists>kvs. j = JObj kvs \<and> filter (knows_member block_members) kvs = node_block_members show b)"

definition json_node :: "rpc_io \<Rightarrow> Client \<Rightarrow> (f64 \<Rightarrow> string) \<Rightarrow> (int \<Rightarrow> BlockV2) \<Rightarrow> int \<Rightarrow> bool" where
  "json_node io c show chain tip \<longleftrightarrow>
     io_request io = None \<and> answers_request io c ''getblockcount'' (JArr []) (j_int tip) \<and>
     (\<forall>h \<in> {0 .. tip}. answers_request io c ''getblockhash'' (JArr [j_int h]) (JStr (blk_hash (chain h))) \<and>
        (\<exists>j. block_json show (chain h) j \<and>
           answers_request io c ''getblock'' (JArr [JStr (blk_hash (chain h)), j_int 2]) j)) \<and>
     (\<forall>h. tip < h \<longrightarrow> refuses_request io c ''getblockhash'' (JArr [j_int h]) \<and>
        refuses_request io c ''getblock'' (JArr [JStr (blk_hash (chain h)), j_int 2]))"

lemma answered:
  assumes "answers_request io c meth params j" and "io_request io = None"
  shows "fst (call io c meth params) = Inr j"
proof -
  obtain auth where auth: "auth_header io c 0 = Inr auth"
    using assms(1) by (cases "auth_header io c 0") (auto simp: answers_request_def)
  note call_answered [OF auth assms(2), of meth params 200 "reply_text j"]
  then show ?thesis using assms(1) auth read_reply_text [of j] by (simp add: answers_request_def)
qed

lemma refused:
  assumes "refuses_request io c meth params" and "io_request io = None"
  shows "\<exists>e. fst (call io c meth params) = Inl e"
proof -
  obtain auth where auth: "auth_header io c 0 = Inr auth"
    using assms(1) by (cases "auth_header io c 0") (auto simp: refuses_request_def)
  then obtain raw where "io_http io 0 auth (request_body meth params) = Reply 500 raw None"
    using assms(1) by (auto simp: refuses_request_def)
  from call_refused [OF auth assms(2) this] show ?thesis by simp
qed

text \<open>What the client makes of such a node.\<close>

lemma json_node_answers:
  assumes node: "json_node io c show chain tip" and "in64 tip"
    and chain: "\<And>h. 0 \<le> h \<Longrightarrow> h \<le> tip \<Longrightarrow> readable_block show (chain h)"
  shows "get_block_count io c = Inr tip"
    and "0 \<le> h \<Longrightarrow> h \<le> tip \<Longrightarrow> get_block_hash io c h = Inr (blk_hash (chain h))"
    and "0 \<le> h \<Longrightarrow> h \<le> tip \<Longrightarrow> get_block_verbose2 io c (blk_hash (chain h)) = Inr (chain h)"
    and "tip < h \<Longrightarrow> \<exists>e. get_block_hash io c h = Inl e"
    and "tip < h \<Longrightarrow> \<exists>e. get_block_verbose2 io c (blk_hash (chain h)) = Inl e"
proof -
  have req: "io_request io = None" using node by (simp add: json_node_def)
  have "fst (call io c ''getblockcount'' (JArr [])) = Inr (j_int tip)"
    by (rule answered [OF _ req]) (use node in \<open>simp add: json_node_def\<close>)
  then show "get_block_count io c = Inr tip"
    by (simp add: get_block_count_def bind_result_def run_decoder_def parse_int64_fits assms(2))
  show "get_block_hash io c h = Inr (blk_hash (chain h))" if "0 \<le> h" "h \<le> tip"
  proof -
    have "fst (call io c ''getblockhash'' (JArr [j_int h])) = Inr (JStr (blk_hash (chain h)))"
      by (rule answered [OF _ req]) (use node that in \<open>simp add: json_node_def\<close>)
    then show ?thesis by (simp add: get_block_hash_def bind_result_def run_decoder_def dec_string_def)
  qed
  show "get_block_verbose2 io c (blk_hash (chain h)) = Inr (chain h)" if h: "0 \<le> h" "h \<le> tip"
  proof -
    obtain j where j: "block_json show (chain h) j" "answers_request io c ''getblock'' (JArr [JStr (blk_hash (chain h)), j_int 2]) j"
      using bspec [OF conjunct1 [OF conjunct2 [OF conjunct2 [OF node [unfolded json_node_def]]]], of h] h by auto
    obtain kvs where "j = JObj kvs" "filter (knows_member block_members) kvs = node_block_members show (chain h)"
      using j(1) by (auto simp: block_json_def)
    then show ?thesis
      using answered [OF j(2) req] read_block [OF chain [OF h]] by (simp add: get_block_verbose2_def bind_result_def)
  qed
  show "\<exists>e. get_block_hash io c h = Inl e" if "tip < h"
  proof -
    have "refuses_request io c ''getblockhash'' (JArr [j_int h])" using node that by (simp add: json_node_def)
    from refused [OF this req] show ?thesis by (auto simp: get_block_hash_def bind_result_def)
  qed
  show "\<exists>e. get_block_verbose2 io c (blk_hash (chain h)) = Inl e" if "tip < h"
  proof -
    have "refuses_request io c ''getblock'' (JArr [JStr (blk_hash (chain h)), j_int 2])" using node that by (simp add: json_node_def)
    from refused [OF this req] show ?thesis by (auto simp: get_block_verbose2_def bind_result_def)
  qed
qed

text \<open>The ingestor's environment is then the one its theorems speak about.\<close>

lemma json_node_env:
  assumes "\<And>n. json_node (pe_node e n) c show chain tip" and "0 \<le> tip" and "tip < 2 ^ 62"
    and "\<And>h. 0 \<le> h \<Longrightarrow> h \<le> tip \<Longrightarrow> readable_block show (chain h)" and "\<And>h. 0 \<le> h \<Longrightarrow> blk_height (chain h) = h"
    and "\<And>n. pe_fault e n = None" and "\<And>n. \<not> pe_cancelled e n" and "valid_config cfg" and "c_batch_blocks cfg \<le> 2 ^ 62"
  shows "good_env (new_ingestor cfg e c) chain" and "healthy (p_env (new_ingestor cfg e c)) chain tip"
    and "e_block_count (p_env (new_ingestor cfg e c)) n = Inr tip"
proof -
  have t: "in64 tip" using assms(2,3) by (simp add: in64_def)
  note A = json_node_answers [OF assms(1) t assms(4)]
  show "e_block_count (p_env (new_ingestor cfg e c)) n = Inr tip"
    by (simp add: new_ingestor_def node_env_def A(1))
  show "healthy (p_env (new_ingestor cfg e c)) chain tip"
    using assms(6,7) A(2,3) by (simp add: healthy_def new_ingestor_def node_env_def)
  have hash: "hash = blk_hash (chain h)" if "height_ok h" "get_block_hash (pe_node e n) c h = Inr hash" for n h hash
    using that A(2,4) [of h n] by (cases "h \<le> tip") (auto simp: height_ok_def)
  have block: "b = chain h" if "height_ok h" "get_block_verbose2 (pe_node e n) c (blk_hash (chain h)) = Inr b" for n h b
    using that A(3,5) [of h n] by (cases "h \<le> tip") (auto simp: height_ok_def)
  have "serves (node_env e c) chain"
    using hash block assms(5) by (auto simp: serves_def node_env_def height_ok_def)
  then show "good_env (new_ingestor cfg e c) chain"
    using assms(2,3,8,9) A(1) by (auto simp: good_env_def new_ingestor_def valid_config_def node_env_def)
qed

lemma indexer_synced:
  assumes "load_config getenv stat content = Inr cfg" and "c_batch_blocks cfg \<le> 2 ^ 62"
    and "connect_pool (pe_pool e) (c_postgres_dsn cfg) = Inr pool"
    and "\<And>n. json_node (pe_node e n) (new_client (c_rpc cfg)) show chain tip" and "0 \<le> tip" and "tip < 2 ^ 62"
    and "\<And>h. 0 \<le> h \<Longrightarrow> h \<le> tip \<Longrightarrow> readable_block show (chain h)" and "\<And>h. 0 \<le> h \<Longrightarrow> blk_height (chain h) = h"
    and "\<And>n. pe_fault e n = None" and "\<And>n. \<not> pe_cancelled e n" and "nat (tip + 1) < fuel"
  shows "\<exists>w'. indexer_main (load_config getenv stat content) e 1 fuel \<lparr>w_db = empty_db, w_clock = 0\<rparr> = Some (Running, w') \<and>
    at_tip 100000000 chain empty_db tip (w_db w')"
proof -
  let ?p = "new_ingestor cfg e (new_client (c_rpc cfg))" and ?w = "\<lparr>w_db = sql_ensure_chain_state empty_db, w_clock = Suc 0\<rparr>"
  have cfg: "valid_config cfg" using load_config_valid [of getenv stat content] assms(1) by simp
  note env = json_node_env [OF assms(4-10) cfg assms(2)]
  have factor: "p_factor ?p = 100000000" using cfg by (simp add: new_ingestor_def valid_config_def)
  have start: "ensure_chain_state (p_env ?p) \<lparr>w_db = empty_db, w_clock = 0\<rparr> = (Inr (), ?w)"
    using assms(9) by (simp add: ensure_chain_state_def new_ingestor_def node_env_def)
  have "w_db ?w = snapshot (p_factor ?p) chain (set_algos (d_algos empty_db) empty_db) (-1)"
    by (simp add: sql_ensure_chain_state_def snapshot_def set_chain_def set_algos_def tip_of_def zero_hash_def empty_db_def)
  then have t: "at_tip (p_factor ?p) chain empty_db (-1) (w_db (rs_world \<lparr>rs_world = ?w, rs_sub = start_sub ?p\<rparr>))"
    by (auto simp: at_tip_def)
  obtain s' where "run_iter fuel ?p \<lparr>rs_world = ?w, rs_sub = start_sub ?p\<rparr> = Some (None, s')"
    and tip: "at_tip (p_factor ?p) chain empty_db tip (w_db (rs_world s'))"
    using run_iter_healthy [OF env(1,2) t env(3)] assms(5,11) by auto
  then have "run 1 fuel ?p \<lparr>w_db = empty_db, w_clock = 0\<rparr> = Some (None, rs_world s')"
    by (simp add: run_def start)
  then show ?thesis using tip by (simp add: indexer_main_def assms(1,3) factor)
qed

text \<open>C9: The indexer follows a node it only knows over HTTP. Let the node answer every request with the JSON text of what it holds
  (heights \<open>0 .. tip\<close> of one chain, 500 above), the database work and the configuration be one \<open>Load\<close> accepts, with user and password
  or a cookie. Then the process, started on an empty database, has after one iteration stored exactly the blocks \<open>0 .. tip\<close> of that
  chain, decoded from the answers, with the recorded tip at \<open>tip\<close>, and is still running.\<close>

theorem indexer_follows_json_node:
  assumes "load_config getenv stat content = Inr cfg" and "c_batch_blocks cfg \<le> 2 ^ 62"
    and "connect_pool (pe_pool e) (c_postgres_dsn cfg) = Inr pool"
    and "\<And>n. json_node (pe_node e n) (new_client (c_rpc cfg)) show chain tip" and "0 \<le> tip" and "tip < 2 ^ 62"
    and "\<And>h. 0 \<le> h \<Longrightarrow> h \<le> tip \<Longrightarrow> readable_block show (chain h)" and "\<And>h. 0 \<le> h \<Longrightarrow> blk_height (chain h) = h"
    and "\<And>n. pe_fault e n = None" and "\<And>n. \<not> pe_cancelled e n" and "nat (tip + 1) < fuel"
  shows "\<exists>w'. indexer_main (load_config getenv stat content) e 1 fuel \<lparr>w_db = empty_db, w_clock = 0\<rparr> = Some (Running, w') \<and>
    at_tip 100000000 chain empty_db tip (w_db w')"
  using assms by (rule indexer_synced)

text \<open>The exit status tells a stop from a failure: whatever node, database and signals do, a process that has ended ends with status
  0 only when it was told to stop, with 1 only for a configuration or connection that was refused or an error \<open>Run\<close> returned while
  nobody had cancelled it, and a configuration that is refused leaves the database untouched.\<close>

lemma exit_status_tells_failure:
  assumes "indexer_main loaded e n fuel w = Some (p, w')"
  shows "(exit_status p = Some 0 \<longrightarrow> pe_cancelled e (w_clock w')) \<and>
    (exit_status p = Some 1 \<longrightarrow> \<not> is_ok loaded \<or> (\<exists>cfg. loaded = Inr cfg \<and> \<not> is_ok (connect_pool (pe_pool e) (c_postgres_dsn cfg))) \<or>
       \<not> pe_cancelled e (w_clock w')) \<and>
    (\<not> is_ok loaded \<longrightarrow> w' = w)"
  using assms by (auto simp: indexer_main_def exit_status_def is_ok_def split: sum.splits option.splits run_exit.splits if_splits)

section \<open>Witnesses\<close>

lemma request_body_inj:
  assumes "request_body meth params = request_body meth' params'"
    and "valid_utf8 meth" "json_ok params" "valid_utf8 meth'" "json_ok params'"
  shows "meth = meth' \<and> params = params'"
proof -
  have "parse_json (request_body meth params) = Inr (request_value meth params)"
    "parse_json (request_body meth' params') = Inr (request_value meth' params')"
    using assms(2-5) parse_print [of "request_value meth params" "[]"] parse_print [of "request_value meth' params'" "[]"]
    by (simp_all add: request_body_def) (simp_all add: request_value_def open_ended_def names_utf8)
  then have "request_value meth params = request_value meth' params'" using assms(1) by simp
  then show ?thesis by (simp add: request_value_def)
qed

definition tiny_chain :: "int \<Rightarrow> BlockV2" where
  "tiny_chain h = zero_block\<lparr>blk_difficulty := Fin (3 / 2), blk_height := h, blk_hash := CHR ''b'' # itoa h\<rparr>"

definition tiny_answers :: "((string \<times> json) \<times> json) list" where
  "tiny_answers = ((''getblockcount'', JArr []), j_int 1) # concat (map (\<lambda>h.
     [((''getblockhash'', JArr [j_int h]), JStr (blk_hash (tiny_chain h))),
      ((''getblock'', JArr [JStr (blk_hash (tiny_chain h)), j_int 2]), JObj (node_block_members sample_show (tiny_chain h)))]) [0, 1])"

definition tiny_node :: rpc_io where
  "tiny_node = \<lparr>io_cookie = (\<lambda>_. Inl ''none''), io_request = None,
     io_http = (\<lambda>n auth body.
       case find (\<lambda>((m, p), j). request_body m p = body) tiny_answers of
         None \<Rightarrow> Reply 500 '''' None | Some (_, j) \<Rightarrow> Reply 200 (reply_text j) None)\<rparr>"

definition tiny_getenv :: "string \<Rightarrow> string" where
  "tiny_getenv k = (if k = ''PG_DSN'' then ''postgres://idx'' else if k = ''RPC_URL'' then ''http://n'' else
     if k = ''RPC_USER'' then ''rpc'' else if k = ''RPC_PASS'' then ''secret'' else '''')"

definition tiny_config :: Config where
  "tiny_config = projr (load_config tiny_getenv (\<lambda>_. False) None)"

definition tiny_env :: process_env where
  "tiny_env = \<lparr>pe_pool = \<lparr>pd_parse = (\<lambda>dsn. Inr \<lparr>pl_dsn = dsn, pl_min_conns = 0, pl_max_conns = 4, pl_max_idle = 0, pl_max_lifetime = 0\<rparr>),
       pd_open = (\<lambda>_. None)\<rparr>,
     pe_fault = no_faults, pe_commit_applied = (\<lambda>_. False), pe_cancelled = (\<lambda>_. False), pe_node = (\<lambda>_. tiny_node),
     pe_zmq = sample_zmq, pe_algo_exec = (\<lambda>_ _. None)\<rparr>"

lemma tiny_loaded:
  "is_ok (load_config tiny_getenv (\<lambda>_. False) None)" "c_batch_blocks tiny_config = 500"
  "cl_cookie_file (new_client (c_rpc tiny_config)) = ''''" "2000 \<le> cl_max_response (new_client (c_rpc tiny_config))"
  by code_simp+

lemma tiny_answers_ok:
  "list_all (\<lambda>((m, p), j). valid_utf8 m \<and> json_ok p) tiny_answers"
  "list_all (\<lambda>((m, p), j). json_ok j) tiny_answers"
  "list_all (\<lambda>((m, p), j). length (reply_text j) \<le> 1000) tiny_answers"
  by code_simp+

lemma tiny_client: "auth_header tiny_node (new_client (c_rpc tiny_config)) 0 = Inr (cl_static_auth (new_client (c_rpc tiny_config)))"
  using tiny_loaded(3) by (simp add: auth_header_def)

lemma find_request:
  assumes "list_all (\<lambda>((m, p), j). valid_utf8 m \<and> json_ok p) tbl" and "valid_utf8 m" and "json_ok p"
  shows "find (\<lambda>((m', p'), j). request_body m' p' = request_body m p) tbl = find (\<lambda>(mp, j). mp = (m, p)) tbl"
  using assms(1)
proof (induction tbl)
  case (Cons e tbl)
  obtain m' p' j where e: "e = ((m', p'), j)" by (metis prod.exhaust)
  have "request_body m' p' = request_body m p \<longleftrightarrow> (m', p') = (m, p)"
    using request_body_inj [of m' p' m p] Cons.prems assms(2,3) by (auto simp: e)
  then show ?case using Cons by (simp add: e)
qed simp

lemma tiny_reply:
  assumes "valid_utf8 m" and "json_ok p"
  shows "io_http tiny_node n auth (request_body m p) = (case find (\<lambda>(mp, j). mp = (m, p)) tiny_answers of
     None \<Rightarrow> Reply 500 '''' None | Some (_, j) \<Rightarrow> Reply 200 (reply_text j) None)"
  by (simp add: tiny_node_def find_request [OF tiny_answers_ok(1) assms])

lemma tiny_answered:
  assumes "((m, p), j) \<in> set tiny_answers" and "find (\<lambda>(mp, j). mp = (m, p)) tiny_answers = Some ((m, p), j)"
  shows "answers_request tiny_node (new_client (c_rpc tiny_config)) m p j"
proof -
  have "valid_utf8 m" "json_ok p" "json_ok j" "length (reply_text j) \<le> 1000"
    using tiny_answers_ok assms(1) by (auto simp: list_all_iff simp del: json_ok.simps)
  then show ?thesis using tiny_client tiny_loaded(4) tiny_reply [of m p] assms(2)
    by (simp add: answers_request_def del: json_ok.simps)
qed

lemma tiny_refused:
  assumes "valid_utf8 m" and "json_ok p" and "find (\<lambda>(mp, j). mp = (m, p)) tiny_answers = None"
  shows "refuses_request tiny_node (new_client (c_rpc tiny_config)) m p"
  using tiny_client tiny_reply [OF assms(1,2)] assms(3) by (simp add: refuses_request_def)

lemma method_utf8: "valid_utf8 ''getblockcount''" "valid_utf8 ''getblockhash''" "valid_utf8 ''getblock''"
  by (rule ascii_utf8, simp add: byte_val_def)+

lemma hash_utf8: "0 \<le> h \<Longrightarrow> valid_utf8 (CHR ''b'' # itoa h)"
proof (rule ascii_utf8)
  assume h: "0 \<le> h"
  have "c \<in> set ''0123456789'' \<Longrightarrow> byte_val c < 0x80" for c by (auto simp: byte_val_def)
  then show "list_all (\<lambda>c. byte_val c < 0x80) (CHR ''b'' # itoa h)"
    using dec_digits_set [OF h] h by (auto simp: list_all_iff itoa_def byte_val_def)
qed

lemma tiny_json_node: "json_node tiny_node (new_client (c_rpc tiny_config)) sample_show tiny_chain 1"
proof -
  let ?c = "new_client (c_rpc tiny_config)"
  have count: "answers_request tiny_node ?c ''getblockcount'' (JArr []) (j_int 1)"
    by (rule tiny_answered) (simp_all add: tiny_answers_def)
  have hash: "answers_request tiny_node ?c ''getblockhash'' (JArr [j_int h]) (JStr (blk_hash (tiny_chain h)))" if "h = 0 \<or> h = 1" for h
    by (rule tiny_answered) (use that in \<open>auto simp: tiny_answers_def j_int_def itoa_eq_iff\<close>)
  have blk: "answers_request tiny_node ?c ''getblock'' (JArr [JStr (blk_hash (tiny_chain h)), j_int 2])
      (JObj (node_block_members sample_show (tiny_chain h)))" if "h = 0 \<or> h = 1" for h
    by (rule tiny_answered) (use that in \<open>auto simp: tiny_answers_def tiny_chain_def itoa_eq_iff\<close>)
  have block: "block_json sample_show (tiny_chain h) (JObj (node_block_members sample_show (tiny_chain h)))" if "h = 0 \<or> h = 1" for h
  proof -
    have "filter (knows_member block_members) (node_block_members sample_show (tiny_chain 0)) = node_block_members sample_show (tiny_chain 0)"
      "filter (knows_member block_members) (node_block_members sample_show (tiny_chain 1)) = node_block_members sample_show (tiny_chain 1)"
      by code_simp+
    then show ?thesis using that by (auto simp: block_json_def)
  qed
  have none: "refuses_request tiny_node ?c ''getblockhash'' (JArr [j_int h])" if "1 < h" for h
    by (rule tiny_refused) (use that method_utf8 in \<open>auto simp: tiny_answers_def j_int_def itoa_eq_iff is_number_itoa\<close>)
  have none2: "refuses_request tiny_node ?c ''getblock'' (JArr [JStr (blk_hash (tiny_chain h)), j_int 2])" if "1 < h" for h
    by (rule tiny_refused)
      (use that method_utf8 hash_utf8 [of h] in \<open>auto simp: tiny_answers_def tiny_chain_def j_int_def itoa_eq_iff is_number_itoa\<close>)
  have req: "io_request tiny_node = None" by (simp add: tiny_node_def)
  have low: "answers_request tiny_node ?c ''getblockhash'' (JArr [j_int h]) (JStr (blk_hash (tiny_chain h))) \<and>
      (\<exists>j. block_json sample_show (tiny_chain h) j \<and> answers_request tiny_node ?c ''getblock'' (JArr [JStr (blk_hash (tiny_chain h)), j_int 2]) j)"
    if "h \<in> {0 .. 1}" for h
  proof -
    have "h = 0 \<or> h = 1" using that by auto
    then show ?thesis using hash blk block by blast
  qed
  show ?thesis unfolding json_node_def by (intro conjI ballI allI impI req count low none none2) (simp_all add: low none none2)
qed

lemma tiny_start:
  "load_config tiny_getenv (\<lambda>_. False) None = Inr tiny_config"
  "connect_pool (pe_pool tiny_env) (c_postgres_dsn tiny_config) = Inr
     \<lparr>pl_dsn = c_postgres_dsn tiny_config, pl_min_conns = 1, pl_max_conns = 8, pl_max_idle = 5 * ns_minute, pl_max_lifetime = 30 * ns_minute\<rparr>"
  using tiny_loaded(1) by (cases "load_config tiny_getenv (\<lambda>_. False) None")
    (auto simp: tiny_config_def connect_pool_def tiny_env_def)

lemma tiny_readable: "0 \<le> h \<Longrightarrow> h \<le> 1 \<Longrightarrow> readable_block sample_show (tiny_chain h)"
proof -
  assume "0 \<le> h" "h \<le> 1"
  then have "h = 0 \<or> h = 1" by auto
  moreover have "readable_block sample_show (tiny_chain 0)" "readable_block sample_show (tiny_chain 1)" by code_simp+
  ultimately show ?thesis by auto
qed

theorem indexer_follows_json_node_witness:
  "\<exists>w'. indexer_main (load_config tiny_getenv (\<lambda>_. False) None) tiny_env 1 4 \<lparr>w_db = empty_db, w_clock = 0\<rparr> = Some (Running, w') \<and>
    at_tip 100000000 tiny_chain empty_db 1 (w_db w')"
proof (rule indexer_follows_json_node [OF tiny_start(1) _ tiny_start(2)])
  show "json_node (pe_node tiny_env n) (new_client (c_rpc tiny_config)) sample_show tiny_chain 1" for n
    using tiny_json_node by (simp add: tiny_env_def)
qed (use tiny_loaded(2) tiny_readable in \<open>simp_all add: tiny_env_def no_faults_def tiny_chain_def\<close>)

end
