(* ===== verification/Explorer_System.thy ===== *)
theory Explorer_System
  imports Idx_Main Hp_Main
begin

text \<open>
  The two programs together: what the indexer has stored from the node is what the generator publishes. The indexer's database
  after a run (\<open>Idx_Main\<close>) is given to the main loop of the generator (\<open>Hp_Main\<close>); no message needs to get through.
\<close>

section \<open>The tables at a tip\<close>

lemma fold_block_rows:
  assumes "distinct (map (\<lambda>b. char64 (blk_hash b)) bs)"
    and "\<forall>b \<in> set bs. char64 (blk_hash b) \<notin> b_hash ` set (d_blocks d)"
  shows "d_blocks (fold (block_effect factor) bs d) = d_blocks d @ map (block_row_of factor) bs"
  using assms
proof (induction bs arbitrary: d)
  case (Cons b bs)
  have "d_blocks (block_effect factor b d) = d_blocks d @ [block_row_of factor b]"
    using Cons.prems(2) by (auto simp: block_effect_blocks sql_insert_block_def insert_nc_def)
  moreover have "\<forall>b' \<in> set bs. char64 (blk_hash b') \<noteq> char64 (blk_hash b)" using Cons.prems(1) by (auto simp: image_iff)
  ultimately show ?case using Cons.IH [of "block_effect factor b d"] Cons.prems by (auto simp: image_iff)
qed simp

text \<open>A chain of blocks with different hashes and difficulties that are numbers.\<close>

definition sound_chain :: "(int \<Rightarrow> BlockV2) \<Rightarrow> int \<Rightarrow> bool" where
  "sound_chain chain tip \<longleftrightarrow>
     (\<forall>h. 0 \<le> h \<longrightarrow> blk_height (chain h) = h) \<and>
     distinct (map (\<lambda>h. char64 (blk_hash (chain h))) [0 .. tip]) \<and>
     (\<forall>h \<in> {0 .. tip}. b_difficulty (block_row_of 100000000 (chain h)) \<noteq> None)"

lemma tables_at_tip:
  assumes "at_tip 100000000 chain empty_db tip d" and "sound_chain chain tip"
  shows "best_rows d = map (\<lambda>h. block_row_of 100000000 (chain h)) [0 .. tip]"
    and "d_chain d = Some (tip_of chain tip)"
proof -
  obtain as where d: "d = snapshot 100000000 chain (set_algos as empty_db) tip"
    using assms(1) by (auto simp: at_tip_def)
  have "d_blocks (set_algos as empty_db) = []" by (simp add: set_algos_def empty_db_def)
  then have "d_blocks d = map (block_row_of 100000000) (map chain [0 .. tip])"
    using fold_block_rows [of "map chain [0 .. tip]" "set_algos as empty_db" 100000000] assms(2)
    by (simp add: d snapshot_def set_chain_def sound_chain_def comp_def)
  then show "best_rows d = map (\<lambda>h. block_row_of 100000000 (chain h)) [0 .. tip]"
    by (auto simp: best_rows_def comp_def filter_id_conv)
  show "d_chain d = Some (tip_of chain tip)" by (simp add: d snapshot_def set_chain_def)
qed

lemma rows_by_height:
  assumes "\<And>h. 0 \<le> h \<Longrightarrow> blk_height (chain h) = h"
  shows "map b_height (map (\<lambda>h. block_row_of f (chain h)) [0 .. tip]) = [0 .. tip]"
    and "by_height (map (\<lambda>h. block_row_of f (chain h)) [0 .. tip]) = map (\<lambda>h. block_row_of f (chain h)) (rev [0 .. tip])"
proof -
  show h: "map b_height (map (\<lambda>h. block_row_of f (chain h)) [0 .. tip]) = [0 .. tip]"
    unfolding map_map by (rule map_idI) (use assms in simp)
  have "sort_key b_height (map (\<lambda>h. block_row_of f (chain h)) [0 .. tip]) = map (\<lambda>h. block_row_of f (chain h)) [0 .. tip]"
    by (rule sort_key_id_if_sorted) (simp only: h sorted_upto)
  then show "by_height (map (\<lambda>h. block_row_of f (chain h)) [0 .. tip]) = map (\<lambda>h. block_row_of f (chain h)) (rev [0 .. tip])"
    by (simp add: by_height_def rev_map)
qed

lemma max_height_at_tip:
  assumes "map b_height (best_rows d) = [0 .. tip]" and "0 \<le> tip"
  shows "max_height d = tip"
proof -
  have split: "[0 .. tip] = 0 # [1 .. tip]" using assms(2) by (simp add: upto_rec1)
  have "fold max [1 .. tip] 0 = Max (set (0 # [1 .. tip]))" by (simp only: Max.set_eq_fold)
  also have "\<dots> = tip" by (simp only: split [symmetric] set_upto) (rule Max_eqI, use assms(2) in auto)
  finally show ?thesis using assms(1) by (simp add: max_height_def split)
qed


lemma tiny_sound: "sound_chain tiny_chain 1"
proof -
  have "distinct (map (\<lambda>h. char64 (blk_hash (tiny_chain h))) [0 .. 1])"
    "list_all (\<lambda>h. b_difficulty (block_row_of 100000000 (tiny_chain h)) \<noteq> None) [0 .. 1]" by code_simp+
  then show ?thesis by (auto simp: sound_chain_def list_all_iff tiny_chain_def)
qed


end
