(* ===== verification/Spec2Isabelle.thy ===== *)
theory Spec2Isabelle
  imports Ingest_Types Backfill Algo_Refresh Hp_Response Hp_Setup Explorer_System
begin

text \<open>
  Bitmark-Explorer in Isabelle/HOL.

  The program. Two Go programs share one PostgreSQL database (\<open>database/schema.sql\<close>). The indexer (\<open>indexer/\<close>)
  follows a Bitmark node over JSON-RPC and ZMQ and writes blocks, transactions, inputs, outputs, the recorded
  tip (\<open>chain_state\<close>) and statistics per mining algorithm; the command \<open>backfill-addresses\<close> fills addresses that
  old rows lack. The generator (\<open>generator/\<close>) reads the same tables: it renders the home page to a file whenever
  a block arrives, serves the older pages, block pages and address pages over HTTP, and tells open browsers of
  new blocks over server-sent events. The two never talk to each other except through the database; both listen
  to the node's ZMQ publisher.

  Foundations. \<open>Prelude\<close> has the result type for Go's (value, error) pairs, 64-bit \<open>int\<close> arithmetic with its
  wrap-around (\<open>wrap64\<close>) and updates of table rows. \<open>Go_Float\<close> is binary64 with round-to-nearest-even as an
  executable type; \<open>Go_Text\<close> has byte strings and the functions of \<open>strings\<close> and \<open>strconv\<close>; \<open>Go_Time\<close> and
  \<open>Go_Clock\<close> have durations, their parsing, rounding and printing, and calendar dates; \<open>Go_Fmt\<close> has the widths and
  numbers of \<open>fmt\<close>; \<open>Go_Sha256\<close> has SHA-256 and hexadecimal text; \<open>Go_Json\<close> is the parser of \<open>encoding/json\<close> and
  \<open>Go_Json_Print\<close> its printer with the theorem that printed values parse back and cut-off texts do not. They are models of the language and its standard library, not of the repository.

  The indexer.
  \<^item> \<open>Rpc_Models\<close> (\<open>indexer/internal/rpc/models.go\<close>): the decoded blocks. \<open>Rpc_Decode\<close>: their decoding by the struct tags,
    with Go's rules for case, repeated and unknown members, \<open>null\<close> and type errors.
  \<^item> \<open>Ingest_Helpers\<close> (the end of \<open>indexer/internal/ingest/ingestor.go\<close>): decoding of the version, conversion of
    coins to base units, classification of errors.
  \<^item> \<open>Schema\<close> (\<open>database/schema.sql\<close>): a record per table, the statements the programs execute, and transactions
    in which the statement with number \<open>n\<close> fails when the environment says so. The locale \<open>keyed_table\<close> is the
    contract of \<open>INSERT ... ON CONFLICT DO NOTHING\<close>, interpreted on the four tables that use it.
  \<^item> \<open>Ingest_Block\<close> (\<open>insertBlockBundle\<close>): the rows of a block and the order of the statements. The abstract
    specification is the UTXO ledger: a block is a function on maps from outpoints to amounts and addresses.
  \<^item> \<open>Ingest_Range\<close> (\<open>retryGetBlockCount\<close>, \<open>ingestRange\<close>, \<open>ensureChainState\<close>, \<open>getDBTip\<close>): batches with one
    transaction each, under arbitrary faults, lost commit acknowledgements and cancellation. The locale \<open>backoff\<close>
    is the contract of a retry schedule; the generator's breaker is its second instance.
  \<^item> \<open>Algo_Stats\<close> (\<open>algo_stats.go\<close>): the statistics update (locale \<open>upsert_table\<close>) and the inverse of the reward
    formula in floating-point arithmetic.
  \<^item> \<open>Zmq\<close> (both \<open>zmq/subscriber.go\<close>): the subscribers as machines that own sockets (locale \<open>socket_owner\<close>).
  \<^item> \<open>Node_Rpc\<close> (both \<open>rpc/client.go\<close>): the JSON text of requests, authentication, the retry after a 401, the
    size limit, the decoding of replies and results of every call.
  \<^item> \<open>Indexer_Config\<close> (\<open>config.go\<close>): the settings file, the lookup, the checks.
  \<^item> \<open>Ingest_Run\<close> (\<open>Ingestor.Run\<close>): the loop of the daemon, and sequences of processes on one database.
  \<^item> \<open>Ingest_Types\<close>: the types of the columns and the unique keys, as instances of \<open>db_invariant\<close>, a locale that
    carries an invariant of the statements through every run of the daemon.
  \<^item> \<open>Idx_Main\<close> (\<open>cmd/bitmark-indexer/main.go\<close>, \<open>db/postgres.go\<close>): the process. Its node is an HTTP server (\<open>json_node\<close>), and
    the environment of \<open>Ingest_Run\<close> is what the client makes of its answers.
  \<^item> \<open>Idx_Tui\<close> (\<open>ingest/status.go\<close>, \<open>ui/tui.go\<close>): the terminal view of the indexer, which nothing creates.
  \<^item> \<open>Backfill\<close> (\<open>indexer/cmd/backfill-addresses/main.go\<close>): Base58Check and the two phases of the backfill.

  The generator.
  \<^item> \<open>Explorer_Address\<close>, \<open>Explorer_Blocks\<close>, \<open>Explorer_Detail\<close> (\<open>generator/internal/db\<close>): the queries of the
    address page, of the block lists with the statistics, and of the block page, over the tables of \<open>Schema\<close>.
    The locale \<open>pager\<close> is the contract of a paged list, interpreted on both lists.
  \<^item> \<open>Algo_Refresh\<close> (\<open>db/stats.go\<close>, \<open>db/rpc_stats.go\<close>): the generator's own computation of the statistics, each statement
    over the tables, and runs of refreshes on a growing chain.
  \<^item> \<open>Sse_Broker\<close> (\<open>generator/internal/sse/broker.go\<close>): the client table and, as a step relation, all
    interleavings of the goroutines that serve the clients; the abstract service has one flag per client.
  \<^item> \<open>Hp_Status\<close>, \<open>Hp_Render\<close>, \<open>Hp_Server\<close>, \<open>Hp_Main\<close> (\<open>generator/cmd/bitmark-hp-gen/main.go\<close> and
    \<open>generator/internal/render\<close>): the breaker and the sync banner; formatting and the atomic write of the page; the
    HTTP handler; \<open>generate\<close> and the event loop.
  \<^item> \<open>Hp_Response\<close> (\<open>render/*.go\<close>, the end of \<open>main.go\<close>): the remaining template functions, and what the handler writes: status,
    content type and body.
  \<^item> \<open>Hp_Tui\<close> (\<open>generator/internal/tui/tui.go\<close>): the state of the terminal view, its log and keyboard, and the lines
    of its screen.
  \<^item> \<open>Hp_Setup\<close> (the beginning of \<open>main.go\<close>): the environment with every fatal error, the calls that set up and draw the screen, and
    the goroutine that waits for blocks, as a step relation with the main loop's receives.

  Both programs. \<open>Explorer_System\<close> runs the generator on the database the indexer leaves.

  What the lemmas show. The indexer: one block is the abstract ledger transition, and spent outputs and inputs
  stay linked; every stored row is well typed whatever the node sends; a range, an iteration, and any sequence of crashing processes leave exactly the blocks up to the
  recorded tip; with a healthy node an iteration reaches the node's height; errors end the daemon only as
  intended; the reward formula inverts exactly in binary64; settings, credentials, amounts and addresses
  survive their round trips; a block printed by the node as JSON is decoded into itself, a cut-off reply is an
  error, and the process follows a node it knows only over HTTP. The generator: the address page closes with the balance of the ledger the indexer
  implements; the lists show every block once and the links reach them all; height, hash and transaction id lead
  to the same page; the published file is always a complete page; a lost notification delays a page by at most
  thirty ticks; no announcement is lost by the broker; failing node calls are spaced and recover; an
  amount is shown as the node printed it; the error of an incremental statistics refresh is characterised exactly, and
  is zero where block times and refreshes keep step. Together: the published page shows the newest blocks of the
  node's chain. Several theorems state what the code does where it differs from its intent (the page count of the home page, heights
  beyond the column, truncated histories, formatting of decimals, drifting statistics).

  Bounds and fuel. \<open>retry_get_block_count\<close> takes fuel, \<open>None\<close> being an unfinished loop; \<open>k + 1\<close> units suffice
  for \<open>k\<close> transient failures. \<open>run_loop\<close> runs a given number of iterations of an endless loop. \<open>epochs_from\<close> has
  fuel 50 for a loop that ends after 49 steps. The other loops are total functions. Numeric hypotheses such as
  \<open>< 2 ^ 60\<close> on the number of rows keep 64-bit sums from wrapping.

  Parameters of the models: the answers, faults and row orders of the database (equal keys in any order), the
  result of \<open>NUMERIC\<close> arithmetic rounded to a float, the node and the HTTP exchange, ZMQ, the clock, the
  environment, the pgx pool, the output of a template. Requests, replies and results are JSON texts. The queries of one page see one state of the database.

  Not modelled: what ncurses, pgx, html/template and net/http do with the calls the code makes (the screen buffer,
  the connections of a pool, parsing and executing a template, the listening socket), the flags of
  \<open>backfill-addresses\<close>, and the two struct types of the package \<open>stats\<close>, which nothing uses.
\<close>

end
